(* ===== verification/Prelude.thy ===== *)
theory Prelude
  imports "HOL-Library.Word" "HOL-Library.Char_ord" "HOL-Library.List_Lexorder"
    "HOL-Library.Monad_Syntax"
begin

text \<open>
  Shared vocabulary of the development: the machine integers, the byte and C-string helpers of
  \<open>libinotifytools/src/cio.rs\<close>, the slice searches of the Rust standard library that the code
  uses, number formatting, and the generic lemmas on lists and options the components share.

  Conventions. A Rust \<open>&[u8]\<close> holding text (a path, a message, a format) is a \<open>string\<close>, whose
  characters are exactly the 256 bytes; a \<open>&[u8]\<close> holding raw kernel data is a list of \<open>u8\<close>.
  Event masks and counters are 32-bit words (Rust casts \<open>i32\<close> and \<open>u32\<close> freely, which keeps the
  bits); watch descriptors, file descriptors and \<open>errno\<close> values are integers in the range of
  \<open>i32\<close>. An operation that can panic returns an option, \<open>None\<close> being the panic.
\<close>

unbundle bit_operations_syntax

type_synonym u8 = "8 word"
type_synonym u16 = "16 word"
type_synonym u32 = "32 word"
type_synonym u64 = "64 word"

named_theorems byte_simps \<open>reading and writing raw byte strings\<close>
named_theorems cstr_simps \<open>C strings: truncation at the first NUL\<close>

lemma unat_less_power: "unat (w :: 'a::len word) < 2 ^ LENGTH('a)"
  by (rule unsigned_less)

subsection \<open>Wrapping 32-bit signed arithmetic\<close>

text \<open>\<open>i32::wrapping_add\<close> and \<open>as i32\<close>: the value in \<open>-2^31 .. 2^31 - 1\<close> congruent to the argument.\<close>

definition wrap32 :: "int \<Rightarrow> int" where
  "wrap32 x = (x + 2 ^ 31) mod 2 ^ 32 - 2 ^ 31"

lemma wrap32_id: "- (2 ^ 31) \<le> x \<Longrightarrow> x < 2 ^ 31 \<Longrightarrow> wrap32 x = x"
  by (simp add: wrap32_def)

lemma wrap32_range: "- (2 ^ 31) \<le> wrap32 x" "wrap32 x < 2 ^ 31"
proof -
  have "0 \<le> (x + 2 ^ 31) mod 2 ^ 32" and "(x + 2 ^ 31) mod 2 ^ 32 < 2 ^ 32"
    by simp_all
  then show "- (2 ^ 31) \<le> wrap32 x" and "wrap32 x < 2 ^ 31"
    by (simp_all add: wrap32_def)
qed

text \<open>\<open>as u32 as i32\<close> and back: a word read as a signed value.\<close>

lemma wrap32_sint: "wrap32 (sint (w :: u32)) = sint w"
  using sint_range_size [of w] by (intro wrap32_id) (auto simp: word_size)

subsection \<open>Searching slices: \<open>position\<close> and \<open>rposition\<close>\<close>

fun position :: "('a \<Rightarrow> bool) \<Rightarrow> 'a list \<Rightarrow> nat option" where
  "position p [] = None"
| "position p (x # xs) = (if p x then Some 0 else map_option Suc (position p xs))"

fun rposition :: "('a \<Rightarrow> bool) \<Rightarrow> 'a list \<Rightarrow> nat option" where
  "rposition p [] = None"
| "rposition p (x # xs) =
     (case rposition p xs of Some i \<Rightarrow> Some (Suc i) | None \<Rightarrow> if p x then Some 0 else None)"

lemma position_None [simp]: "position p xs = None \<longleftrightarrow> (\<forall>x\<in>set xs. \<not> p x)"
  by (induction xs) auto

lemma rposition_None [simp]: "rposition p xs = None \<longleftrightarrow> (\<forall>x\<in>set xs. \<not> p x)"
  by (induction xs) (auto split: option.splits)

lemma position_SomeD: "position p xs = Some i \<Longrightarrow> i < length xs \<and> p (xs ! i)"
  by (induction xs arbitrary: i) (auto split: if_splits)

lemma rposition_SomeD:
  "rposition p xs = Some i \<Longrightarrow> i < length xs \<and> p (xs ! i) \<and> (\<forall>x\<in>set (drop (Suc i) xs). \<not> p x)"
proof (induction xs arbitrary: i)
  case Nil
  then show ?case by simp
next
  case (Cons x xs)
  then show ?case
    by (cases "rposition p xs") (auto split: if_splits)
qed

lemma rposition_less: "rposition p xs = Some i \<Longrightarrow> i < length xs"
  by (drule rposition_SomeD) simp

lemma position_takeWhile:
  "position p xs = Some i \<Longrightarrow> takeWhile (\<lambda>x. \<not> p x) xs = take i xs"
  by (induction xs arbitrary: i) (auto split: if_splits)

lemma takeWhile_position_len:
  "takeWhile (\<lambda>x. \<not> p x) xs = take (case position p xs of Some i \<Rightarrow> i | None \<Rightarrow> length xs) xs"
  by (cases "position p xs")
    (simp_all add: position_takeWhile takeWhile_eq_all_conv del: position_None,
     simp add: takeWhile_eq_all_conv)

lemma position_append_hit:
  "\<forall>x\<in>set xs. \<not> p x \<Longrightarrow> p y \<Longrightarrow> position p (xs @ y # zs) = Some (length xs)"
  by (induction xs) auto

lemma rposition_append_hit:
  "p y \<Longrightarrow> \<forall>x\<in>set zs. \<not> p x \<Longrightarrow> rposition p (xs @ y # zs) = Some (length xs)"
  by (induction xs) (auto split: option.splits)

subsection \<open>C strings (\<open>cio.rs\<close>)\<close>

abbreviation NUL :: char where
  "NUL \<equiv> CHR 0x00"

text \<open>\<open>cstring(b)\<close>: the bytes up to the first NUL.\<close>

definition cstring :: "string \<Rightarrow> string" where
  "cstring b = takeWhile (\<lambda>c. c \<noteq> NUL) b"

lemma cstring_no_NUL [cstr_simps, simp]: "NUL \<notin> set (cstring b)"
  by (auto simp: cstring_def dest: set_takeWhileD)

lemma cstring_id [cstr_simps]: "NUL \<notin> set b \<Longrightarrow> cstring b = b"
  unfolding cstring_def by (rule takeWhile_eq_all_conv [THEN iffD2]) auto

lemma cstring_idem [cstr_simps, simp]: "cstring (cstring b) = cstring b"
  by (simp add: cstring_id)

lemma cstring_at_NUL [cstr_simps]: "NUL \<notin> set a \<Longrightarrow> cstring (a @ NUL # b) = a"
  unfolding cstring_def by (subst takeWhile_append2) auto

lemma cstring_Nil [cstr_simps, simp]: "cstring [] = []"
  by (simp add: cstring_def)

lemma cstring_append: "NUL \<notin> set a \<Longrightarrow> cstring (a @ b) = a @ cstring b"
  unfolding cstring_def by (subst takeWhile_append2) auto

lemma length_cstring_le: "length (cstring b) \<le> length b"
  unfolding cstring_def by (rule length_takeWhile_le)

text \<open>Numbers as text, \<open>to_string\<close>.\<close>

fun show_base :: "nat \<Rightarrow> nat \<Rightarrow> string" where
  "show_base b n =
     (if b < 2 \<or> n < b then [''0123456789abcdef'' ! (n mod 16)]
      else show_base b (n div b) @ [''0123456789abcdef'' ! (n mod b mod 16)])"

declare show_base.simps [simp del]

definition show_nat :: "nat \<Rightarrow> string" where
  "show_nat n = show_base 10 n"

definition show_int :: "int \<Rightarrow> string" where
  "show_int i = (if i < 0 then CHR ''-'' # show_nat (nat (- i)) else show_nat (nat i))"

text \<open>\<open>format!("{:x}")\<close>, \<open>format!("{:08x}")\<close> and \<open>format!("{:<width$}")\<close>.\<close>

definition show_hex :: "u32 \<Rightarrow> string" where
  "show_hex w = show_base 16 (unat w)"

definition pad_left :: "char \<Rightarrow> nat \<Rightarrow> string \<Rightarrow> string" where
  "pad_left c n s = replicate (n - length s) c @ s"

definition pad_right :: "nat \<Rightarrow> string \<Rightarrow> string" where
  "pad_right n s = s @ replicate (n - length s) CHR '' ''"

lemma length_pad_right: "length (pad_right n s) = max n (length s)"
  by (simp add: pad_right_def)

lemma length_show_base: "2 \<le> b \<Longrightarrow> 0 < k \<Longrightarrow> n < b ^ k \<Longrightarrow> length (show_base b n) \<le> k"
proof (induction k arbitrary: n)
  case 0
  then show ?case by simp
next
  case (Suc k)
  show ?case
  proof (cases "n < b")
    case True
    then show ?thesis by (subst show_base.simps) simp
  next
    case False
    have "n div b < b ^ k"
      using Suc.prems by (simp add: less_mult_imp_div_less mult.commute)
    moreover have "0 < k"
      using False Suc.prems by (cases k) auto
    ultimately have "length (show_base b (n div b)) \<le> k"
      using Suc by simp
    with False show ?thesis by (subst show_base.simps) simp
  qed
qed

lemma show_base_nonempty: "show_base b n \<noteq> []"
  by (subst show_base.simps) simp

lemma set_show_base: "set (show_base b n) \<subseteq> set ''0123456789abcdef''"
proof (induction b n rule: show_base.induct)
  case (1 b n)
  have "k mod 16 < length ''0123456789abcdef''" for k :: nat
    by simp
  then have dig: "''0123456789abcdef'' ! (k mod 16) \<in> set ''0123456789abcdef''" for k :: nat
    by (rule nth_mem)
  show ?case
  proof (cases "b < 2 \<or> n < b")
    case True
    then show ?thesis using dig [of n] by (subst show_base.simps) (simp del: nth_Cons')
  next
    case False
    with "1.IH" show ?thesis using dig [of "n mod b"]
      by (subst show_base.simps) (simp del: nth_Cons')
  qed
qed

lemma show_base_no_NUL: "NUL \<notin> set (show_base b n)"
  using set_show_base [of b n] by auto

lemma length_show_hex: "length (show_hex w) \<le> 8"
proof -
  have "unat w < 16 ^ 8"
    using unat_less_power [of w] by simp
  then show ?thesis
    unfolding show_hex_def by (intro length_show_base) auto
qed

subsection \<open>Prefixes and case-insensitive comparison\<close>

definition starts_with :: "string \<Rightarrow> string \<Rightarrow> bool" where
  "starts_with s p \<longleftrightarrow> take (length p) s = p"

lemma starts_with_append [simp]: "starts_with (p @ s) p"
  by (simp add: starts_with_def)

lemma starts_withE: "starts_with s p \<Longrightarrow> (\<And>r. s = p @ r \<Longrightarrow> P) \<Longrightarrow> P"
  unfolding starts_with_def by (metis append_take_drop_id)

definition to_ascii_upper :: "char \<Rightarrow> char" where
  "to_ascii_upper c =
     (if CHR ''a'' \<le> c \<and> c \<le> CHR ''z'' then char_of (of_char c - 32 :: nat) else c)"

definition eq_ignore_ascii_case :: "string \<Rightarrow> string \<Rightarrow> bool" where
  "eq_ignore_ascii_case s t \<longleftrightarrow> map to_ascii_upper s = map to_ascii_upper t"

definition is_ascii_alphabetic :: "char \<Rightarrow> bool" where
  "is_ascii_alphabetic c \<longleftrightarrow>
     (CHR ''a'' \<le> c \<and> c \<le> CHR ''z'') \<or> (CHR ''A'' \<le> c \<and> c \<le> CHR ''Z'')"

subsection \<open>Bytes and characters\<close>

definition byte_char :: "u8 \<Rightarrow> char" where
  "byte_char b = char_of (unat b)"

definition char_byte :: "char \<Rightarrow> u8" where
  "char_byte c = word_of_nat (of_char c)"

lemma byte_char_char_byte [simp, byte_simps]: "byte_char (char_byte c) = c"
proof -
  have "of_char c < (256 :: nat)"
    by simp
  then show ?thesis
    by (simp add: byte_char_def char_byte_def unat_of_nat)
qed

lemma char_byte_byte_char [simp, byte_simps]: "char_byte (byte_char b) = b"
proof -
  have "unat b < 256"
    using unat_less_power [of b] by simp
  then show ?thesis
    by (simp add: byte_char_def char_byte_def)
qed

lemma char_byte_eq_0 [simp]: "char_byte c = 0 \<longleftrightarrow> c = NUL"
proof
  assume "char_byte c = 0"
  then have "byte_char (char_byte c) = byte_char 0" by simp
  then have "c = byte_char 0" by simp
  then show "c = NUL" by (simp add: byte_char_def char_of_def)
qed (simp add: char_byte_def)

lemma byte_char_eq_NUL [simp]: "byte_char b = NUL \<longleftrightarrow> b = 0"
  by (metis byte_char_char_byte char_byte_byte_char char_byte_eq_0)

subsection \<open>Little-endian reads (the byte order of the supported targets)\<close>

definition le16 :: "u8 \<Rightarrow> u8 \<Rightarrow> u16" where
  "le16 b0 b1 = word_of_nat (unat b0 + 2 ^ 8 * unat b1)"

definition le32 :: "u8 \<Rightarrow> u8 \<Rightarrow> u8 \<Rightarrow> u8 \<Rightarrow> u32" where
  "le32 b0 b1 b2 b3 =
     word_of_nat (unat b0 + 2 ^ 8 * unat b1 + 2 ^ 16 * unat b2 + 2 ^ 24 * unat b3)"

text \<open>\<open>to_ne_bytes\<close>: byte number \<open>i\<close> of a word.\<close>

definition byte_of :: "nat \<Rightarrow> 'a::len word \<Rightarrow> u8" where
  "byte_of i w = word_of_nat (unat w div 256 ^ i)"

lemma unat_byte_of: "unat (byte_of i w) = unat w div 256 ^ i mod 256"
  by (simp add: byte_of_def unat_of_nat)

lemma split_low_byte: "n mod (256 * k) = n mod 256 + 256 * (n div 256 mod k)" for n k :: nat
  by (simp add: mod_mult2_eq)

lemma le32_byte_of [byte_simps]:
  "le32 (byte_of 0 w) (byte_of (Suc 0) w) (byte_of 2 w) (byte_of 3 w) = w"
proof -
  let ?n = "unat w"
  have "?n = ?n mod (256 * (256 * (256 * 256)))"
    using unat_less_power [of w] by simp
  also have "\<dots> = ?n mod 256 + 256 * (?n div 256 mod 256
    + 256 * (?n div 256 div 256 mod 256 + 256 * (?n div 256 div 256 div 256 mod 256)))"
    by (simp only: split_low_byte)
  finally have "?n = (?n mod 256 + 256 * (?n div 256 mod 256
    + 256 * (?n div 256 div 256 mod 256 + 256 * (?n div 256 div 256 div 256 mod 256))))" .
  from arg_cong [OF this, of "word_of_nat :: nat \<Rightarrow> u32"] have "w = word_of_nat (?n mod 256
    + 256 * (?n div 256 mod 256 + 256 * (?n div 256 div 256 mod 256
    + 256 * (?n div 256 div 256 div 256 mod 256))))" by simp
  then show ?thesis
    by (simp add: le32_def unat_byte_of algebra_simps flip: div_mult2_eq)
qed

lemma le16_byte_of [byte_simps]: "le16 (byte_of 0 w) (byte_of (Suc 0) w) = w"
proof -
  let ?n = "unat w"
  have "?n = ?n mod (256 * 256)"
    using unat_less_power [of w] by simp
  also have "\<dots> = ?n mod 256 + 256 * (?n div 256 mod 256)"
    by (simp only: split_low_byte)
  finally have "?n = ?n mod 256 + 256 * (?n div 256 mod 256)" .
  from arg_cong [OF this, of "word_of_nat :: nat \<Rightarrow> u16"]
  have "w = word_of_nat (?n mod 256 + 256 * (?n div 256 mod 256))" by simp
  then show ?thesis
    by (simp add: le16_def unat_byte_of)
qed

end
