(* ===== verification/Consts.thy ===== *)
theory Consts
  imports Prelude
begin

text \<open>
  The event constants of \<open>libinotifytools/src/consts.rs\<close>. The Rust constants are \<open>i32\<close>; they are
  32-bit words here, with the same bits (the code casts them to \<open>u32\<close> and back).
\<close>

definition IN_ACCESS :: u32 where
  "IN_ACCESS = 0x1"

definition IN_MODIFY :: u32 where
  "IN_MODIFY = 0x2"

definition IN_ATTRIB :: u32 where
  "IN_ATTRIB = 0x4"

definition IN_CLOSE_WRITE :: u32 where
  "IN_CLOSE_WRITE = 0x8"

definition IN_CLOSE_NOWRITE :: u32 where
  "IN_CLOSE_NOWRITE = 0x10"

definition IN_CLOSE :: u32 where
  "IN_CLOSE = IN_CLOSE_WRITE OR IN_CLOSE_NOWRITE"

definition IN_OPEN :: u32 where
  "IN_OPEN = 0x20"

definition IN_MOVED_FROM :: u32 where
  "IN_MOVED_FROM = 0x40"

definition IN_MOVED_TO :: u32 where
  "IN_MOVED_TO = 0x80"

definition IN_MOVE :: u32 where
  "IN_MOVE = IN_MOVED_FROM OR IN_MOVED_TO"

definition IN_CREATE :: u32 where
  "IN_CREATE = 0x100"

definition IN_DELETE :: u32 where
  "IN_DELETE = 0x200"

definition IN_DELETE_SELF :: u32 where
  "IN_DELETE_SELF = 0x400"

definition IN_MOVE_SELF :: u32 where
  "IN_MOVE_SELF = 0x800"

definition IN_UNMOUNT :: u32 where
  "IN_UNMOUNT = 0x2000"

definition IN_Q_OVERFLOW :: u32 where
  "IN_Q_OVERFLOW = 0x4000"

definition IN_IGNORED :: u32 where
  "IN_IGNORED = 0x8000"

definition IN_ONLYDIR :: u32 where
  "IN_ONLYDIR = 0x1000000"

definition IN_DONT_FOLLOW :: u32 where
  "IN_DONT_FOLLOW = 0x2000000"

definition IN_EXCL_UNLINK :: u32 where
  "IN_EXCL_UNLINK = 0x4000000"

definition IN_MASK_ADD :: u32 where
  "IN_MASK_ADD = 0x20000000"

definition IN_ISDIR :: u32 where
  "IN_ISDIR = 0x40000000"

definition IN_ONESHOT :: u32 where
  "IN_ONESHOT = 0x80000000"

definition IN_ALL_EVENTS :: u32 where
  "IN_ALL_EVENTS = IN_ACCESS OR IN_MODIFY OR IN_ATTRIB OR IN_CLOSE_WRITE OR IN_CLOSE_NOWRITE OR IN_OPEN
    OR IN_MOVED_FROM OR IN_MOVED_TO OR IN_CREATE OR IN_DELETE OR IN_DELETE_SELF OR IN_MOVE_SELF"

lemmas in_defs =
  IN_ACCESS_def IN_MODIFY_def IN_ATTRIB_def IN_CLOSE_WRITE_def IN_CLOSE_NOWRITE_def
  IN_CLOSE_def IN_OPEN_def IN_MOVED_FROM_def IN_MOVED_TO_def IN_MOVE_def
  IN_CREATE_def IN_DELETE_def IN_DELETE_SELF_def IN_MOVE_SELF_def IN_UNMOUNT_def
  IN_Q_OVERFLOW_def IN_IGNORED_def IN_ONLYDIR_def IN_DONT_FOLLOW_def IN_EXCL_UNLINK_def
  IN_MASK_ADD_def IN_ISDIR_def IN_ONESHOT_def IN_ALL_EVENTS_def

text \<open>The composite masks have no bits beyond their parts, and every plain event is one bit.\<close>

lemma IN_CLOSE_eq: "IN_CLOSE = 0x18"
  by (simp add: in_defs)

lemma IN_MOVE_eq: "IN_MOVE = 0xC0"
  by (simp add: in_defs)

lemma IN_ALL_EVENTS_eq: "IN_ALL_EVENTS = 0xFFF"
  by (simp add: in_defs)

end
