(* ===== verification/Fid.thy ===== *)
theory Fid
  imports Consts
begin

text \<open>
  Fanotify file identifiers, \<open>libinotifytools/src/fid.rs\<close>. A fid is the raw bytes of a kernel
  \<open>fanotify_event_info_fid\<close> record: type at offset 0, length of the record at 2, fsid at 4,
  file handle at 12 (its size at 12, its type at 16, its bytes from 20), then an optional name.
  Reads out of range give 0 (\<open>get\<close>); writes out of range panic (\<open>None\<close>).
\<close>

type_synonym fid = "u8 list"

definition FAN_REPORT_FID :: u32 where "FAN_REPORT_FID = 0x200"
definition FAN_REPORT_DFID_NAME :: u32 where "FAN_REPORT_DFID_NAME = 0x400 OR 0x800"
definition FAN_MARK_ADD :: u32 where "FAN_MARK_ADD = 1"
definition FAN_MARK_DONT_FOLLOW :: u32 where "FAN_MARK_DONT_FOLLOW = 4"
definition FAN_MARK_INODE :: u32 where "FAN_MARK_INODE = 0"
definition FAN_MARK_FILESYSTEM :: u32 where "FAN_MARK_FILESYSTEM = 0x100"
definition FAN_EVENT_ON_CHILD :: u32 where "FAN_EVENT_ON_CHILD = 0x8000000"

definition FAN_EVENT_INFO_TYPE_FID :: u8 where "FAN_EVENT_INFO_TYPE_FID = 1"
definition FAN_EVENT_INFO_TYPE_DFID_NAME :: u8 where "FAN_EVENT_INFO_TYPE_DFID_NAME = 2"
definition FAN_EVENT_INFO_TYPE_DFID :: u8 where "FAN_EVENT_INFO_TYPE_DFID = 3"

definition FID_HDR :: nat where "FID_HDR = 20"
definition HANDLE_OFF :: nat where "HANDLE_OFF = 12"
definition MAX_FID_LEN :: nat where "MAX_FID_LEN = 20"
definition META_LEN :: nat where "META_LEN = 24"

lemmas fid_consts =
  FAN_EVENT_INFO_TYPE_FID_def FAN_EVENT_INFO_TYPE_DFID_NAME_def FAN_EVENT_INFO_TYPE_DFID_def
  FID_HDR_def HANDLE_OFF_def MAX_FID_LEN_def META_LEN_def

subsection \<open>Field access\<close>

definition fid_get :: "fid \<Rightarrow> nat \<Rightarrow> u8" where
  "fid_get f off = (if off < length f then f ! off else 0)"

definition info_type :: "fid \<Rightarrow> u8" where
  "info_type f = fid_get f 0"

definition set_info_type :: "fid \<Rightarrow> u8 \<Rightarrow> fid option" where
  "set_info_type f t = (if 0 < length f then Some (f[0 := t]) else None)"

definition hdr_len :: "fid \<Rightarrow> u16" where
  "hdr_len f = le16 (fid_get f 2) (fid_get f 3)"

definition set_hdr_len :: "fid \<Rightarrow> u16 \<Rightarrow> fid option" where
  "set_hdr_len f len =
     (if 4 \<le> length f then Some (f[2 := byte_of 0 len, 3 := byte_of 1 len]) else None)"

definition fsid_val :: "fid \<Rightarrow> nat \<Rightarrow> u32" where
  "fsid_val f i =
     (let p = 4 + 4 * i
      in le32 (fid_get f p) (fid_get f (p + 1)) (fid_get f (p + 2)) (fid_get f (p + 3)))"

definition handle_bytes :: "fid \<Rightarrow> u32" where
  "handle_bytes f = le32 (fid_get f 12) (fid_get f 13) (fid_get f 14) (fid_get f 15)"

lemma fid_get_update: "i < length f \<Longrightarrow> fid_get (f[i := b]) j = (if j = i then b else fid_get f j)"
  by (auto simp: fid_get_def nth_list_update)

lemma fid_get_set_info_type:
  "set_info_type f t = Some g \<Longrightarrow> fid_get g i = (if i = 0 then t else fid_get f i)"
  by (auto simp: set_info_type_def fid_get_update split: if_splits)

lemma fid_get_set_hdr_len:
  "set_hdr_len f n = Some g \<Longrightarrow>
     fid_get g i = (if i = 2 then byte_of 0 n else if i = 3 then byte_of 1 n else fid_get f i)"
  by (auto simp: set_hdr_len_def fid_get_update split: if_splits)

lemma length_set_info_type: "set_info_type f t = Some g \<Longrightarrow> length g = length f"
  by (auto simp: set_info_type_def split: if_splits)

lemma length_set_hdr_len: "set_hdr_len f n = Some g \<Longrightarrow> length g = length f"
  by (auto simp: set_hdr_len_def split: if_splits)

lemma hdr_len_set_hdr_len: "set_hdr_len f n = Some g \<Longrightarrow> hdr_len g = n"
  by (simp add: hdr_len_def fid_get_set_hdr_len le16_byte_of)

lemma info_type_set_hdr_len: "set_hdr_len f n = Some g \<Longrightarrow> info_type g = info_type f"
  by (simp add: info_type_def fid_get_set_hdr_len)

lemma hdr_len_set_info_type: "set_info_type f t = Some g \<Longrightarrow> hdr_len g = hdr_len f"
  by (simp add: hdr_len_def fid_get_set_info_type)

lemma info_type_set_info_type: "set_info_type f t = Some g \<Longrightarrow> info_type g = t"
  by (simp add: info_type_def fid_get_set_info_type)

lemma handle_bytes_set:
  "set_hdr_len f n = Some g \<Longrightarrow> handle_bytes g = handle_bytes f"
  "set_info_type f t = Some h \<Longrightarrow> handle_bytes h = handle_bytes f"
  by (simp_all add: handle_bytes_def fid_get_set_hdr_len fid_get_set_info_type)

lemmas fid_fields =
  hdr_len_set_hdr_len info_type_set_hdr_len hdr_len_set_info_type info_type_set_info_type
  handle_bytes_set

subsection \<open>The lookup key of a fid\<close>

datatype fid_key = FidKey (fk_len: u16) (fk_bytes: "u8 list")

text \<open>The derived \<open>Ord\<close>: by length, then by bytes.\<close>

instantiation fid_key :: linorder
begin

definition less_eq_fid_key :: "fid_key \<Rightarrow> fid_key \<Rightarrow> bool" where
  "less_eq_fid_key a b \<longleftrightarrow>
     fk_len a < fk_len b \<or> fk_len a = fk_len b \<and> fk_bytes a \<le> fk_bytes b"

definition less_fid_key :: "fid_key \<Rightarrow> fid_key \<Rightarrow> bool" where
  "less_fid_key a b \<longleftrightarrow>
     fk_len a < fk_len b \<or> fk_len a = fk_len b \<and> fk_bytes a < fk_bytes b"

instance
  by standard
    (auto simp: less_eq_fid_key_def less_fid_key_def fid_key.expand intro: fid_key.expand)

end

definition FidKey_new :: "fid \<Rightarrow> fid_key" where
  "FidKey_new f = (let len = hdr_len f in FidKey len (map (fid_get f) [0..<unat len]))"

lemma FidKey_new_eq_iff:
  "FidKey_new f = FidKey_new g \<longleftrightarrow>
     hdr_len f = hdr_len g \<and> (\<forall>i<unat (hdr_len f). fid_get f i = fid_get g i)"
  by (auto simp: FidKey_new_def Let_def)

text \<open>
  A fid of 20 bytes that identifies a filesystem only (\<open>fsid_key\<close>): the fsid with a null handle,
  under which the mount's file descriptor is registered.
\<close>

definition fsid_key :: "fid \<Rightarrow> fid option" where
  "fsid_key f =
     (let k = replicate 4 0 @ map (\<lambda>i. fid_get f (4 + i)) [0..<8] @ replicate (FID_HDR - 12) 0
      in do {
        k \<leftarrow> set_info_type k FAN_EVENT_INFO_TYPE_FID;
        set_hdr_len k (of_nat FID_HDR)
      })"

definition fsid_key_bytes :: "fid \<Rightarrow> fid" where
  "fsid_key_bytes f =
     [FAN_EVENT_INFO_TYPE_FID, 0, 20, 0] @ map (\<lambda>i. fid_get f (4 + i)) [0..<8] @ replicate 8 0"

lemma fsid_key_eq: "fsid_key f = Some (fsid_key_bytes f)"
proof -
  have "[0..<8] = [0, 1, 2, 3, 4, 5, 6, 7 :: nat]" by (simp add: upt_rec)
  moreover have "byte_of 0 (20 :: u16) = 20" "byte_of 1 (20 :: u16) = 0"
    by (simp_all add: byte_of_def)
  ultimately show ?thesis
    by (simp add: fsid_key_def fsid_key_bytes_def set_info_type_def set_hdr_len_def fid_consts
        numeral_eq_Suc Let_def)
qed

subsection \<open>Handing the file handle to the kernel\<close>

definition le_words :: "u8 list \<Rightarrow> nat \<Rightarrow> u32 list" where
  "le_words bs n = map (\<lambda>i. le32 (fid_get bs (4 * i)) (fid_get bs (4 * i + 1))
     (fid_get bs (4 * i + 2)) (fid_get bs (4 * i + 3))) [0..<n]"

definition aligned_handle :: "fid \<Rightarrow> u32 list" where
  "aligned_handle f =
     (let n = 8 + unat (handle_bytes f); words = (n + 3) div 4 + 1;
          hb = map (\<lambda>i. if i < n then fid_get f (HANDLE_OFF + i) else 0) [0..<4 * words]
      in le_words hb words)"

lemma length_aligned_handle:
  "8 + unat (handle_bytes f) \<le> 4 * length (aligned_handle f)"
  by (simp add: aligned_handle_def le_words_def Let_def) 

end
