(* ===== verification/Stats.thy ===== *)
theory Stats
  imports Consts
begin

text \<open>
  The event counters of a watch (\<open>WatchStats\<close> in \<open>inotify.rs\<close>): thirteen counters for single
  events and a total, all wrapping 32-bit words.
\<close>

record watch_stats =
  st_access :: u32
  st_modify :: u32
  st_attrib :: u32
  st_close_write :: u32
  st_close_nowrite :: u32
  st_open :: u32
  st_moved_from :: u32
  st_moved_to :: u32
  st_create :: u32
  st_delete :: u32
  st_delete_self :: u32
  st_unmount :: u32
  st_move_self :: u32
  st_total :: u32

definition stats_default :: watch_stats where
  "stats_default = \<lparr>st_access = 0, st_modify = 0, st_attrib = 0, st_close_write = 0,
     st_close_nowrite = 0, st_open = 0, st_moved_from = 0, st_moved_to = 0, st_create = 0,
     st_delete = 0, st_delete_self = 0, st_unmount = 0, st_move_self = 0, st_total = 0\<rparr>"

text \<open>\<open>WatchStats::get\<close>: the counter of one event, the total for 0, nothing for anything else.\<close>

definition stats_get :: "watch_stats \<Rightarrow> u32 \<Rightarrow> u32 option" where
  "stats_get s event =
     (if event = IN_ACCESS then Some (st_access s)
      else if event = IN_MODIFY then Some (st_modify s)
      else if event = IN_ATTRIB then Some (st_attrib s)
      else if event = IN_CLOSE_WRITE then Some (st_close_write s)
      else if event = IN_CLOSE_NOWRITE then Some (st_close_nowrite s)
      else if event = IN_OPEN then Some (st_open s)
      else if event = IN_MOVED_FROM then Some (st_moved_from s)
      else if event = IN_MOVED_TO then Some (st_moved_to s)
      else if event = IN_CREATE then Some (st_create s)
      else if event = IN_DELETE then Some (st_delete s)
      else if event = IN_DELETE_SELF then Some (st_delete_self s)
      else if event = IN_UNMOUNT then Some (st_unmount s)
      else if event = IN_MOVE_SELF then Some (st_move_self s)
      else if event = 0 then Some (st_total s)
      else None)"

text \<open>\<open>WatchStats::record\<close>, with the closure \<open>inc\<close> as a function of its own.\<close>

definition stats_inc :: "u32 \<Rightarrow> u32 \<Rightarrow> u32 \<Rightarrow> u32" where
  "stats_inc m flag c = (if m AND flag \<noteq> 0 then c + 1 else c)"

definition stats_record :: "watch_stats \<Rightarrow> u32 \<Rightarrow> watch_stats" where
  "stats_record s m = s\<lparr>
     st_access := stats_inc m IN_ACCESS (st_access s),
     st_modify := stats_inc m IN_MODIFY (st_modify s),
     st_attrib := stats_inc m IN_ATTRIB (st_attrib s),
     st_close_write := stats_inc m IN_CLOSE_WRITE (st_close_write s),
     st_close_nowrite := stats_inc m IN_CLOSE_NOWRITE (st_close_nowrite s),
     st_open := stats_inc m IN_OPEN (st_open s),
     st_moved_from := stats_inc m IN_MOVED_FROM (st_moved_from s),
     st_moved_to := stats_inc m IN_MOVED_TO (st_moved_to s),
     st_create := stats_inc m IN_CREATE (st_create s),
     st_delete := stats_inc m IN_DELETE (st_delete s),
     st_delete_self := stats_inc m IN_DELETE_SELF (st_delete_self s),
     st_unmount := stats_inc m IN_UNMOUNT (st_unmount s),
     st_move_self := stats_inc m IN_MOVE_SELF (st_move_self s),
     st_total := st_total s + 1\<rparr>"

text \<open>The events with a counter, in the order of \<open>get\<close>.\<close>

definition counted_events :: "u32 list" where
  "counted_events = [IN_ACCESS, IN_MODIFY, IN_ATTRIB, IN_CLOSE_WRITE, IN_CLOSE_NOWRITE, IN_OPEN,
     IN_MOVED_FROM, IN_MOVED_TO, IN_CREATE, IN_DELETE, IN_DELETE_SELF, IN_UNMOUNT, IN_MOVE_SELF]"

lemma counted_events_distinct: "distinct (0 # counted_events)"
  by (simp add: counted_events_def in_defs)

lemma stats_get_None: "stats_get s e = None \<longleftrightarrow> e \<notin> set (0 # counted_events)"
  by (simp add: stats_get_def counted_events_def)

text \<open>The effect of \<open>record\<close> on every counter, read back through \<open>get\<close>.\<close>

lemma stats_get_record_counted:
  "e \<in> set counted_events \<Longrightarrow>
     stats_get (stats_record s m) e = map_option (stats_inc m e) (stats_get s e)"
  by (auto simp: stats_get_def counted_events_def stats_record_def in_defs)

lemma stats_get_record_total: "stats_get (stats_record s m) 0 = map_option (\<lambda>c. c + 1) (stats_get s 0)"
  by (simp add: stats_get_def stats_record_def in_defs)

lemma stats_get_default: "e \<in> set (0 # counted_events) \<Longrightarrow> stats_get stats_default e = Some 0"
  by (auto simp: stats_get_def stats_default_def counted_events_def in_defs)

text \<open>A sequence of recorded masks.\<close>

definition stats_replay :: "watch_stats \<Rightarrow> u32 list \<Rightarrow> watch_stats" where
  "stats_replay = foldl stats_record"

lemma stats_replay_simps [simp]:
  "stats_replay s [] = s"
  "stats_replay s (m # ms) = stats_replay (stats_record s m) ms"
  by (simp_all add: stats_replay_def)

lemma stats_replay_snoc: "stats_replay s (ms @ [m]) = stats_record (stats_replay s ms) m"
  by (simp add: stats_replay_def)

lemma stats_replay_counted:
  "e \<in> set counted_events \<Longrightarrow> stats_get s e = Some c \<Longrightarrow>
     stats_get (stats_replay s ms) e = Some (c + of_nat (length (filter (\<lambda>m. m AND e \<noteq> 0) ms)))"
  by (induction ms arbitrary: s c)
    (auto simp: stats_get_record_counted stats_inc_def add.assoc)

lemma stats_replay_total:
  "stats_get s 0 = Some c \<Longrightarrow> stats_get (stats_replay s ms) 0 = Some (c + of_nat (length ms))"
  by (induction ms arbitrary: s c) (auto simp: stats_get_record_total add.assoc)

text \<open>
  Counting is exact: after the counters were reset and a sequence of event masks was recorded,
  the counter of each of the thirteen events is the number of recorded masks that have its bit
  (modulo 2^32), the counter of 0 is the number of masks, and every other key has no counter.
\<close>

lemma stats_count_exactly:
  "stats_get (stats_replay stats_default ms) e =
     (if e \<in> set counted_events then Some (of_nat (length (filter (\<lambda>m. m AND e \<noteq> 0) ms)))
      else if e = 0 then Some (of_nat (length ms)) else None)"
proof (cases "e \<in> set (0 # counted_events)")
  case True
  then have "stats_get stats_default e = Some 0" by (rule stats_get_default)
  with True counted_events_distinct show ?thesis
    by (auto simp: stats_replay_counted stats_replay_total)
next
  case False
  then show ?thesis by (simp add: stats_get_None)
qed

end
