(* ===== verification/Btree.thy ===== *)
theory Btree
  imports Prelude
begin

text \<open>
  The ordered maps (\<open>BTreeMap\<close>) that index the watches, as strictly sorted association lists, and
  the interfaces the watch table relies on: \<open>entry_map\<close>, the contract of a map used only through
  \<open>get\<close>, \<open>entry().or_insert\<close>, \<open>remove\<close> and \<open>values\<close>; and \<open>keyed_index\<close>, a map from a key of a
  record to the record's identifier, with the facts the table needs (no entry dangles, an entry
  is found under its own record's key, removing a record's key removes every entry to it).
\<close>

subsection \<open>The map\<close>

type_synonym ('k, 'v) btree = "('k \<times> 'v) list"

definition bt_get :: "('k, 'v) btree \<Rightarrow> 'k \<Rightarrow> 'v option" where
  "bt_get m k = map_of m k"

text \<open>\<open>entry(k).or_insert(v)\<close>: an existing entry is kept.\<close>

fun bt_insert :: "'k::linorder \<Rightarrow> 'v \<Rightarrow> ('k, 'v) btree \<Rightarrow> ('k, 'v) btree" where
  "bt_insert k v [] = [(k, v)]"
| "bt_insert k v (e # m) =
     (if k < fst e then (k, v) # e # m else if k = fst e then e # m else e # bt_insert k v m)"

definition bt_remove :: "'k \<Rightarrow> ('k, 'v) btree \<Rightarrow> ('k, 'v) btree" where
  "bt_remove k m = filter (\<lambda>e. fst e \<noteq> k) m"

definition bt_values :: "('k, 'v) btree \<Rightarrow> 'v list" where
  "bt_values m = map snd m"

definition bt_wf :: "('k::linorder, 'v) btree \<Rightarrow> bool" where
  "bt_wf m \<longleftrightarrow> sorted_wrt (<) (map fst m)"

lemma bt_get_Nil [simp]: "bt_get [] k = None"
  by (simp add: bt_get_def)

lemma bt_wf_Nil [simp]: "bt_wf []"
  by (simp add: bt_wf_def)

lemma bt_wf_Cons: "bt_wf (e # m) \<longleftrightarrow> (\<forall>k\<in>fst ` set m. fst e < k) \<and> bt_wf m"
  by (auto simp: bt_wf_def)

lemma fst_set_bt_insert: "fst ` set (bt_insert k v m) = insert k (fst ` set m)"
  by (induction m) auto

lemma bt_wf_insert: "bt_wf m \<Longrightarrow> bt_wf (bt_insert k v m)"
  by (induction m) (auto simp: bt_wf_Cons fst_set_bt_insert)

lemma bt_wf_remove: "bt_wf m \<Longrightarrow> bt_wf (bt_remove k m)"
  by (induction m) (auto simp: bt_wf_Cons bt_remove_def)

lemma bt_get_absent: "k \<notin> fst ` set m \<Longrightarrow> bt_get m k = None"
  by (simp add: bt_get_def map_of_eq_None_iff)

lemma bt_get_insert:
  "bt_wf m \<Longrightarrow> bt_get (bt_insert k v m) =
     (if bt_get m k = None then (bt_get m)(k \<mapsto> v) else bt_get m)"
proof (induction m)
  case Nil
  then show ?case by (auto simp: bt_get_def)
next
  case (Cons e m)
  show ?case
  proof (cases "k < fst e")
    case True
    with Cons.prems have "k \<notin> fst ` set (e # m)" by (auto simp: bt_wf_Cons)
    with True show ?thesis
      by (auto simp: bt_get_def map_of_eq_None_iff fun_eq_iff split: if_splits)
  next
    case False
    with Cons show ?thesis
      by (cases e) (auto simp: bt_get_def fun_eq_iff bt_wf_Cons)
  qed
qed

lemma bt_get_remove: "bt_get (bt_remove k m) = (bt_get m)(k := None)"
  by (induction m) (auto simp: bt_get_def bt_remove_def fun_eq_iff)

lemma in_bt_values:
  "bt_wf m \<Longrightarrow> v \<in> set (bt_values m) \<longleftrightarrow> (\<exists>k. bt_get m k = Some v)"
proof -
  assume "bt_wf m"
  then have "distinct (map fst m)"
    by (auto simp: bt_wf_def strict_sorted_iff)
  then have "bt_get m k = Some v \<longleftrightarrow> (k, v) \<in> set m" for k
    by (simp add: bt_get_def)
  then show ?thesis
    by (force simp: bt_values_def image_iff)
qed

lemma bt_values_once:
  assumes wf: "bt_wf m" and inj: "inj_on (bt_get m) (dom (bt_get m))"
  shows "distinct (bt_values m)"
proof -
  have keys: "distinct (map fst m)"
    using wf by (auto simp: bt_wf_def strict_sorted_iff)
  have "inj_on snd (set m)"
  proof (rule inj_onI)
    fix x y
    assume x: "x \<in> set m" and y: "y \<in> set m" and eq: "snd x = snd y"
    from keys x y have "bt_get m (fst x) = Some (snd x)" "bt_get m (fst y) = Some (snd y)"
      by (simp_all add: bt_get_def)
    with eq inj have "fst x = fst y"
      by (intro inj_onD [OF inj]) (simp_all add: domIff)
    with eq show "x = y" by (simp add: prod_eq_iff)
  qed
  with keys show ?thesis
    by (simp add: bt_values_def distinct_map)
qed

lemma card_dom_bt_get: "bt_wf m \<Longrightarrow> card (dom (bt_get m)) = length m"
proof -
  assume "bt_wf m"
  then have "distinct (map fst m)" by (auto simp: bt_wf_def strict_sorted_iff)
  moreover have "dom (bt_get m) = set (map fst m)"
    by (auto simp: bt_get_def [abs_def] dom_map_of_conv_image_fst)
  ultimately show ?thesis by (metis distinct_card length_map)
qed

lemma length_bt_insert:
  "bt_wf m \<Longrightarrow> length (bt_insert k v m) =
     (if bt_get m k = None then Suc (length m) else length m)"
proof (induction m)
  case Nil
  then show ?case by simp
next
  case (Cons e m)
  then show ?case
    by (cases e) (auto simp: bt_get_def bt_wf_Cons map_of_eq_None_iff)
qed

lemma length_bt_remove:
  "bt_wf m \<Longrightarrow> length (bt_remove k m) = (if bt_get m k = None then length m else length m - 1)"
proof (induction m)
  case Nil
  then show ?case by (simp add: bt_remove_def)
next
  case (Cons e m)
  then have "fst e \<notin> fst ` set m" by (auto simp: bt_wf_Cons)
  then have *: "filter (\<lambda>x. fst x \<noteq> fst e) m = m"
    by (auto intro!: filter_True simp: image_iff)
  show ?case
  proof (cases "fst e = k")
    case True
    with * show ?thesis by (cases e) (simp add: bt_remove_def bt_get_def)
  next
    case False
    have "bt_get m k \<noteq> None \<Longrightarrow> m \<noteq> []" by auto
    with False Cons show ?thesis
      by (cases e) (auto simp: bt_remove_def bt_get_def bt_wf_Cons Suc_diff_le neq_Nil_conv)
  qed
qed

lemma bt_wf_ascending: "bt_wf m \<Longrightarrow> sorted (map fst m) \<and> distinct (map fst m)"
  by (simp add: bt_wf_def strict_sorted_iff)

subsection \<open>The contract of a map with \<open>or_insert\<close>\<close>

locale entry_map =
  fixes get :: "'m \<Rightarrow> 'k \<Rightarrow> 'v option"
    and add :: "'k \<Rightarrow> 'v \<Rightarrow> 'm \<Rightarrow> 'm"
    and del :: "'k \<Rightarrow> 'm \<Rightarrow> 'm"
    and vals :: "'m \<Rightarrow> 'v list"
    and wf :: "'m \<Rightarrow> bool"
  assumes get_add: "wf m \<Longrightarrow> get (add k v m) = (if get m k = None then (get m)(k \<mapsto> v) else get m)"
    and get_del: "wf m \<Longrightarrow> get (del k m) = (get m)(k := None)"
    and wf_add: "wf m \<Longrightarrow> wf (add k v m)"
    and wf_del: "wf m \<Longrightarrow> wf (del k m)"
    and in_vals: "wf m \<Longrightarrow> v \<in> set (vals m) \<longleftrightarrow> (\<exists>k. get m k = Some v)"
    and vals_once: "wf m \<Longrightarrow> inj_on (get m) (dom (get m)) \<Longrightarrow> distinct (vals m)"
begin

lemma get_add_same: "wf m \<Longrightarrow> \<exists>v'. get (add k v m) k = Some v'"
  by (auto simp: get_add)

lemma get_add_keeps: "wf m \<Longrightarrow> get m k = Some v' \<Longrightarrow> get (add k v m) = get m"
  by (simp add: get_add)

lemma get_add_other: "wf m \<Longrightarrow> k' \<noteq> k \<Longrightarrow> get (add k v m) k' = get m k'"
  by (simp add: get_add)

lemma get_addD: "wf m \<Longrightarrow> get (add k v m) k' = Some u \<Longrightarrow> get m k' = Some u \<or> k' = k \<and> u = v"
  by (auto simp: get_add split: if_splits)

lemma get_delD: "wf m \<Longrightarrow> get (del k m) k' = Some u \<Longrightarrow> get m k' = Some u \<and> k' \<noteq> k"
  by (auto simp: get_del split: if_splits)

lemma del_absent: "wf m \<Longrightarrow> get m k = None \<Longrightarrow> get (del k m) = get m"
  by (auto simp: get_del fun_eq_iff)

end

subsection \<open>An index of records by one of their keys\<close>

text \<open>
  \<open>key w\<close> is the key a record is filed under, \<open>None\<close> when it is not filed in this index.
  \<open>points m ws\<close> says that every entry of the index leads to a record of the store filed under
  exactly that key.
\<close>

locale keyed_index = entry_map get add del vals wf
  for get :: "'m \<Rightarrow> 'k \<Rightarrow> nat option"
    and add :: "'k \<Rightarrow> nat \<Rightarrow> 'm \<Rightarrow> 'm"
    and del :: "'k \<Rightarrow> 'm \<Rightarrow> 'm"
    and vals :: "'m \<Rightarrow> nat list"
    and wf :: "'m \<Rightarrow> bool" +
  fixes key :: "'w \<Rightarrow> 'k option"
begin

definition points :: "'m \<Rightarrow> (nat \<rightharpoonup> 'w) \<Rightarrow> bool" where
  "points m ws \<longleftrightarrow>
     wf m \<and> (\<forall>k n. get m k = Some n \<longrightarrow> (\<exists>w. ws n = Some w \<and> key w = Some k))"

lemma points_wf: "points m ws \<Longrightarrow> wf m"
  by (simp add: points_def)

lemma pointsI [intro?]:
  "wf m \<Longrightarrow> (\<And>k n. get m k = Some n \<Longrightarrow> \<exists>w. ws n = Some w \<and> key w = Some k) \<Longrightarrow> points m ws"
  by (simp add: points_def)

lemma pointsD: "points m ws \<Longrightarrow> get m k = Some n \<Longrightarrow> \<exists>w. ws n = Some w \<and> key w = Some k"
  by (simp add: points_def)

lemma points_get:
  assumes "points m ws" and "get m k = Some n"
  obtains w where "ws n = Some w" and "key w = Some k"
  using pointsD [OF assms] by blast

text \<open>The index is injective: one record is filed once.\<close>

lemma points_inj: "points m ws \<Longrightarrow> get m k = Some n \<Longrightarrow> get m k' = Some n \<Longrightarrow> k = k'"
  by (metis option.inject points_get)

text \<open>An unused identifier is not the target of an entry.\<close>

lemma points_fresh: "points m ws \<Longrightarrow> ws n = None \<Longrightarrow> get m k \<noteq> Some n"
  by (auto dest: pointsD)

lemma points_add:
  assumes p: "points m ws" and n: "ws n = None" and k: "key w = Some k"
  shows "points (add k n m) (ws(n \<mapsto> w))"
proof
  show "wf (add k n m)" using p by (intro wf_add points_wf)
next
  fix k' n'
  assume "get (add k n m) k' = Some n'"
  with points_wf [OF p] have "get m k' = Some n' \<or> k' = k \<and> n' = n" by (rule get_addD)
  with p n k show "\<exists>v. (ws(n \<mapsto> w)) n' = Some v \<and> key v = Some k'"
    using points_fresh [OF p n] by (auto dest: pointsD)
qed

lemma points_add_present: "points m ws \<Longrightarrow> get m k \<noteq> None \<Longrightarrow> points (add k n m) ws"
  by (auto simp: points_def wf_add get_add)

text \<open>Storing a record that is not filed here keeps the index right.\<close>

lemma points_store: "points m ws \<Longrightarrow> ws n = None \<Longrightarrow> points m (ws(n \<mapsto> w))"
  using points_fresh by (auto simp: points_def)

text \<open>Removing a record's own key leaves no entry to it, so the record can be destroyed.\<close>

lemma points_del:
  assumes p: "points m ws" and n: "ws n = Some w" and k: "key w = Some k"
  shows "points (del k m) (ws(n := None))"
proof
  show "wf (del k m)" using p by (intro wf_del points_wf)
next
  fix k' n'
  assume "get (del k m) k' = Some n'"
  with points_wf [OF p] have "get m k' = Some n'" and "k' \<noteq> k"
    by (blast dest: get_delD)+
  with p obtain v where "ws n' = Some v" and "key v = Some k'" by (blast dest: pointsD)
  with n k \<open>k' \<noteq> k\<close> show "\<exists>v. (ws(n := None)) n' = Some v \<and> key v = Some k'" by auto
qed

lemma points_drop_unfiled:
  assumes p: "points m ws" and n: "ws n = Some w" and k: "key w = None"
  shows "points m (ws(n := None))"
proof
  show "wf m" using p by (rule points_wf)
next
  fix k' n'
  assume "get m k' = Some n'"
  with p obtain v where "ws n' = Some v" and "key v = Some k'" by (blast dest: pointsD)
  with n k show "\<exists>v. (ws(n := None)) n' = Some v \<and> key v = Some k'" by auto
qed

text \<open>Changing a record in place without changing its key.\<close>

lemma points_update:
  assumes p: "points m ws" and n: "ws n = Some w" and k: "key w' = key w"
  shows "points m (ws(n \<mapsto> w'))"
proof
  show "wf m" using p by (rule points_wf)
next
  fix k' n'
  assume "get m k' = Some n'"
  with p obtain v where "ws n' = Some v" and "key v = Some k'" by (blast dest: pointsD)
  with n k show "\<exists>v. (ws(n \<mapsto> w')) n' = Some v \<and> key v = Some k'" by auto
qed

text \<open>Changing any records without changing keys.\<close>

lemma points_change:
  assumes p: "points m ws" and c: "\<And>n w. ws n = Some w \<Longrightarrow> \<exists>w'. ws' n = Some w' \<and> key w' = key w"
  shows "points m ws'"
proof
  show "wf m" using p by (rule points_wf)
next
  fix k n
  assume "get m k = Some n"
  with p obtain w where w: "ws n = Some w" "key w = Some k" by (blast dest: pointsD)
  from c [OF w(1)] w(2) show "\<exists>v. ws' n = Some v \<and> key v = Some k" by auto
qed

text \<open>Moving a record from its old key to a new one.\<close>

lemma points_rekey:
  assumes p: "points m ws" and n: "ws n = Some w" and old: "key w = Some k"
    and new: "key w' = Some k'"
  shows "points (add k' n (if get m k = Some n then del k m else m)) (ws(n \<mapsto> w'))"
proof -
  have wf: "wf (if get m k = Some n then del k m else m)"
    using p by (simp add: points_def wf_del)
  show ?thesis
    unfolding points_def
  proof (intro conjI allI impI)
    show "wf (add k' n (if get m k = Some n then del k m else m))"
      using wf by (rule wf_add)
  next
    fix j l
    assume "get (add k' n (if get m k = Some n then del k m else m)) j = Some l"
    then consider "j = k'" "l = n" | "get (if get m k = Some n then del k m else m) j = Some l"
      using get_addD [OF wf] by blast
    then show "\<exists>v. (ws(n \<mapsto> w')) l = Some v \<and> key v = Some j"
    proof cases
      case 1
      with new show ?thesis by simp
    next
      case 2
      with p have j: "get m j = Some l" and ne: "get m k = Some n \<Longrightarrow> j \<noteq> k"
        by (auto simp: points_def split: if_splits dest!: get_delD)
      from p j obtain v where v: "ws l = Some v" "key v = Some j" by (rule points_get)
      have "l \<noteq> n"
        using v n old ne j by auto
      with v show ?thesis by simp
    qed
  qed
qed

text \<open>After the move the record is found under its new key, if that key was free.\<close>

lemma get_rekey:
  assumes "points m ws" and "get m k' = None \<or> get m k' = Some n"
  shows "get (add k' n (if get m k = Some n then del k m else m)) k' = Some n"
  using assms by (auto simp: points_def get_add get_del wf_del)

lemma get_rekey_other:
  assumes "points m ws" and "j \<noteq> k'" and "get m j \<noteq> Some n"
  shows "get (add k' n (if get m k = Some n then del k m else m)) j = get m j"
  using assms by (auto simp: points_def get_add get_del wf_del)

lemma points_distinct: "points m ws \<Longrightarrow> distinct (vals m)"
  by (rule vals_once) (auto simp: points_wf inj_on_def dom_def intro: points_inj)

lemma points_vals: "points m ws \<Longrightarrow> n \<in> set (vals m) \<Longrightarrow> ws n \<noteq> None"
  by (auto simp: points_def in_vals)

end

subsection \<open>The sorted association list keeps the contract\<close>

interpretation bt: entry_map bt_get bt_insert bt_remove bt_values bt_wf
  by unfold_locales
    (simp_all add: bt_get_insert bt_get_remove bt_wf_insert bt_wf_remove in_bt_values bt_values_once)

end
