(* ===== verification/Cio.thy ===== *)
theory Cio
  imports Prelude
begin

text \<open>
  Messages and C streams, \<open>libinotifytools/src/cio.rs\<close>. A message is assembled from pieces, each of
  a type that has a \<open>Piece\<close> implementation; the macros \<open>cat!\<close>, \<open>cprint!\<close> and \<open>ceprint!\<close> take a list
  of pieces. A \<open>FILE\<close> pointer is an option: \<open>None\<close> is the null pointer, \<open>Some\<close> a stream, given by
  the bytes written to it so far. \<open>cstring\<close> is in the prelude; \<open>flush_all\<close> is I/O, and \<open>errno\<close> is a
  result of the call that sets it.
\<close>

subsection \<open>Pieces\<close>

text \<open>
  The types with a \<open>Piece\<close> implementation: byte and text values (\<open>str\<close>, \<open>String\<close>, \<open>[u8]\<close>,
  \<open>[u8; N]\<close>, \<open>Vec<u8>\<close>), C strings (\<open>CStr\<close>, \<open>CString\<close>: memory that is read up to its NUL), and what
  is printed by \<open>to_string\<close>: signed and unsigned integers and characters.
\<close>

datatype piece =
    Bytes string
  | C_str string
  | Signed int
  | Unsigned nat
  | Scalar nat

text \<open>A character's \<open>to_string\<close> is its UTF-8 encoding.\<close>

definition utf8 :: "nat \<Rightarrow> string" where
  "utf8 c =
     map char_of
       (if c < 0x80 then [c]
        else if c < 0x800 then [0xC0 + c div 64, 0x80 + c mod 64]
        else if c < 0x10000 then [0xE0 + c div 4096, 0x80 + c div 64 mod 64, 0x80 + c mod 64]
        else [0xF0 + c div 262144, 0x80 + c div 4096 mod 64, 0x80 + c div 64 mod 64, 0x80 + c mod 64])"

fun put_piece :: "piece \<Rightarrow> string \<Rightarrow> string" where
  "put_piece (Bytes b) v = v @ b"
| "put_piece (C_str b) v = v @ cstring b"
| "put_piece (Signed i) v = v @ show_int i"
| "put_piece (Unsigned n) v = v @ show_nat n"
| "put_piece (Scalar c) v = v @ utf8 c"

text \<open>\<open>cat!\<close>\<close>

definition cat :: "piece list \<Rightarrow> string" where
  "cat ps = foldl (\<lambda>v p. put_piece p v) [] ps"

lemma put_piece_append: "put_piece p v = v @ put_piece p []"
  by (cases p) simp_all

lemma foldl_put_piece: "foldl (\<lambda>v p. put_piece p v) v ps = v @ concat (map (\<lambda>p. put_piece p []) ps)"
proof (induction ps arbitrary: v)
  case (Cons p ps)
  show ?case using put_piece_append [of p v] by (simp add: Cons.IH)
qed simp

lemma cat_concat: "cat ps = concat (map (\<lambda>p. put_piece p []) ps)"
  by (simp add: cat_def foldl_put_piece)

lemma cat_simps [simp]: "cat [] = []" "cat (p # ps) = put_piece p [] @ cat ps"
  by (simp_all add: cat_concat)

lemma cat_append: "cat (ps @ qs) = cat ps @ cat qs"
  by (simp add: cat_concat)

subsection \<open>Streams\<close>

type_synonym stream = "string option"

text \<open>\<open>write_to\<close>: nothing is written to a null stream, and \<open>fwrite\<close> is not called for no bytes.\<close>

definition write_to :: "stream \<Rightarrow> string \<Rightarrow> stream" where
  "write_to f b = (if b \<noteq> [] \<and> f \<noteq> None then map_option (\<lambda>w. w @ b) f else f)"

lemma write_to_append [simp]:
  "write_to None b = None" "write_to (Some w) b = Some (w @ b)"
  by (simp_all add: write_to_def)

lemma write_to_cat: "write_to (write_to f (cat ps)) (cat qs) = write_to f (cat (ps @ qs))"
  by (cases f) (simp_all add: cat_append)

end
