(* ===== verification/Machine.thy ===== *)
theory Machine
  imports Fid Stats Btree Cio
begin

text \<open>
  The state of the library (\<open>struct Inotifytools\<close>, \<open>inotify.rs\<close>) and the machine it runs in. The
  record \<open>inotifytools\<close> has the struct's fields; \<open>machine\<close> extends it with what the code affects
  outside the struct: the operating system's state \<open>'w\<close>, and the bytes written to the C streams.
  The operating system is a parameter, the record \<open>os\<close> of its calls: each takes the calls's
  arguments and the system's state and returns the call's results (with the \<open>errno\<close> it leaves)
  and the next state. Nothing is assumed of it.
\<close>

definition MAX_STRLEN :: nat where "MAX_STRLEN = 4096"
definition MAX_EVENTS :: nat where "MAX_EVENTS = 4096"
definition EVENT_SIZE :: nat where "EVENT_SIZE = 16"
definition PATH_MAX :: nat where "PATH_MAX = 4096"
definition FIDNAME_SIZE :: nat where "FIDNAME_SIZE = PATH_MAX + 512"

lemmas size_defs = MAX_STRLEN_def MAX_EVENTS_def EVENT_SIZE_def PATH_MAX_def FIDNAME_SIZE_def

text \<open>The \<open>errno\<close> values the code tests (Linux).\<close>

definition ENOENT :: int where "ENOENT = 2"
definition EINTR :: int where "EINTR = 4"
definition EACCES :: int where "EACCES = 13"
definition ENOTDIR :: int where "ENOTDIR = 20"
definition EINVAL :: int where "EINVAL = 22"
definition EMFILE :: int where "EMFILE = 24"
definition ENOSPC :: int where "ENOSPC = 28"
definition ELOOP :: int where "ELOOP = 40"
definition EMSGSIZE :: int where "EMSGSIZE = 90"
definition EPERM :: int where "EPERM = 1"

lemmas errno_defs = ENOENT_def EINTR_def EACCES_def ENOTDIR_def EINVAL_def EMFILE_def ENOSPC_def
  ELOOP_def EMSGSIZE_def EPERM_def

subsection \<open>The data of the library\<close>

text \<open>
  \<open>NString\<close>: a buffer of \<open>MAX_STRLEN\<close> bytes and a length; cells from \<open>MAX_STRLEN\<close> on do not
  exist, the operations check every index.
\<close>

record nstring =
  ns_buf :: "nat \<Rightarrow> char"
  ns_len :: nat

definition NString_new :: nstring where
  "NString_new = \<lparr>ns_buf = (\<lambda>_. NUL), ns_len = 0\<rparr>"

definition as_bytes :: "nstring \<Rightarrow> string" where
  "as_bytes n = map (ns_buf n) [0..<min (ns_len n) MAX_STRLEN]"

lemma length_as_bytes: "length (as_bytes n) = min (ns_len n) MAX_STRLEN"
  by (simp add: as_bytes_def)

text \<open>An event: \<open>ev_len\<close> is the raw length field, the name stops at its first NUL.\<close>

record event =
  ev_wd :: int
  ev_mask :: u32
  ev_cookie :: u32
  ev_len :: u32
  ev_name :: string

definition event_default :: event where
  "event_default = \<lparr>ev_wd = 0, ev_mask = 0, ev_cookie = 0, ev_len = 0, ev_name = []\<rparr>"

record event_path =
  ep_filename :: string
  ep_dirnamelen :: nat
  ep_eventname :: string

text \<open>\<open>EventPath::dirname\<close>.\<close>

definition ep_dirname :: "event_path \<Rightarrow> string" where
  "ep_dirname p = take (min (ep_dirnamelen p) (length (ep_filename p))) (ep_filename p)"

record watch =
  w_fid :: "fid option"
  w_filename :: string
  w_wd :: int
  w_dirf :: int
  w_stats :: watch_stats

text \<open>
  A compiled regular expression is what was given to \<open>regcomp\<close>: matching it is a call of the
  system's C library.
\<close>

record regex =
  re_pattern :: string
  re_flags :: int

text \<open>
  The struct. \<open>evbuf\<close> maps byte offsets below \<open>EVBUF_LEN\<close> to bytes (the first half raw kernel
  data, the second converted fanotify events); \<open>evstr\<close> and \<open>fidname\<close> are the buffers handed out
  through the C API, the latter by its contents up to the first NUL.
\<close>

record inotifytools =
  fd :: int
  recursive_watch :: int
  collect_stats :: bool
  error :: int
  initialized :: bool
  verbosity :: int
  fanotify_mode :: bool
  fanotify_mark_type :: u32
  self_pid :: int
  watches :: "nat \<rightharpoonup> watch"
  next_id :: nat
  next_fanotify_wd :: int
  by_wd :: "(int, nat) btree"
  by_fid :: "(fid_key, nat) btree"
  by_filename :: "(string, nat) btree"
  timefmt :: "string option"
  regex :: "regex option"
  invert_regexp :: bool
  totals :: watch_stats
  evbuf :: "nat \<Rightarrow> u8"
  first_byte :: int
  bytes :: int
  this_bytes :: int
  ret_off :: nat
  evstr :: string
  fidname :: string
  print_out :: "nstring option"

definition EVBUF_LEN :: nat where
  "EVBUF_LEN = 2 * MAX_EVENTS * EVENT_SIZE"

record 'w machine = inotifytools +
  world :: 'w
  c_stdout :: string
  c_stderr :: string

text \<open>\<open>Inotifytools::new\<close>.\<close>

definition lib_new :: inotifytools where
  "lib_new = \<lparr>fd = -1, recursive_watch = 0, collect_stats = False, error = 0, initialized = False,
     verbosity = 0, fanotify_mode = False, fanotify_mark_type = 0, self_pid = 0,
     watches = Map.empty, next_id = 1, next_fanotify_wd = 0, by_wd = [], by_fid = [],
     by_filename = [], timefmt = None, regex = None, invert_regexp = False,
     totals = stats_default, evbuf = (\<lambda>_. 0), first_byte = 0, bytes = 0, this_bytes = 0,
     ret_off = 0, evstr = replicate 1024 NUL, fidname = [], print_out = Some NString_new\<rparr>"

definition machine_new :: "'w \<Rightarrow> 'w machine" where
  "machine_new w = inotifytools.extend lib_new \<lparr>world = w, c_stdout = [], c_stderr = []\<rparr>"

lemma machine_new_sel [simp]:
  "watches (machine_new w) = Map.empty" "next_id (machine_new w) = 1"
  "next_fanotify_wd (machine_new w) = 0" "by_wd (machine_new w) = []"
  "by_fid (machine_new w) = []" "by_filename (machine_new w) = []"
  "initialized (machine_new w) = False" "collect_stats (machine_new w) = False"
  "regex (machine_new w) = None" "evstr (machine_new w) = replicate 1024 NUL"
  "first_byte (machine_new w) = 0" "bytes (machine_new w) = 0"
  "fanotify_mode (machine_new w) = False" "world (machine_new w) = w"
  "c_stdout (machine_new w) = []" "c_stderr (machine_new w) = []" "timefmt (machine_new w) = None"
  "print_out (machine_new w) = Some NString_new" "fanotify_mark_type (machine_new w) = 0"
  "totals (machine_new w) = stats_default" "error (machine_new w) = 0" "self_pid (machine_new w) = 0"
  by (simp_all add: machine_new_def lib_new_def inotifytools.extend_def inotifytools.defs machine.defs)

subsection \<open>The operating system\<close>

record 'w os =
  os_getpid :: "'w \<Rightarrow> int \<times> 'w"
  os_inotify_init :: "'w \<Rightarrow> (int \<times> int) \<times> 'w"
  os_fanotify_init :: "u32 \<Rightarrow> 'w \<Rightarrow> (int \<times> int) \<times> 'w"
  os_close :: "int \<Rightarrow> 'w \<Rightarrow> 'w"
  os_inotify_add_watch :: "int \<Rightarrow> string \<Rightarrow> u32 \<Rightarrow> 'w \<Rightarrow> (int \<times> int) \<times> 'w"
  os_inotify_rm_watch :: "int \<Rightarrow> int \<Rightarrow> 'w \<Rightarrow> (int \<times> int) \<times> 'w"
  os_fanotify_mark :: "int \<Rightarrow> u32 \<Rightarrow> u64 \<Rightarrow> string \<Rightarrow> 'w \<Rightarrow> (int \<times> int) \<times> 'w"
  os_lstat :: "string \<Rightarrow> 'w \<Rightarrow> (int \<times> int \<times> u32) \<times> 'w"
  os_statfs :: "string \<Rightarrow> 'w \<Rightarrow> (int \<times> int \<times> u8 list) \<times> 'w"
  os_open :: "string \<Rightarrow> int \<Rightarrow> int \<Rightarrow> 'w \<Rightarrow> (int \<times> int) \<times> 'w"
  os_dup :: "int \<Rightarrow> 'w \<Rightarrow> int \<times> 'w"
  os_dup2 :: "int \<Rightarrow> int \<Rightarrow> 'w \<Rightarrow> 'w"
  os_readlink :: "string \<Rightarrow> nat \<Rightarrow> 'w \<Rightarrow> string option \<times> 'w"
  os_faccessat :: "int \<Rightarrow> string \<Rightarrow> 'w \<Rightarrow> (int \<times> int) \<times> 'w"
  os_name_to_handle :: "string \<Rightarrow> nat \<Rightarrow> 'w \<Rightarrow> (int \<times> int \<times> u32 \<times> u8 list) \<times> 'w"
  os_open_by_handle :: "int \<Rightarrow> u32 list \<Rightarrow> 'w \<Rightarrow> int \<times> 'w"
  os_opendir :: "string \<Rightarrow> 'w \<Rightarrow> (int option \<times> int) \<times> 'w"
  os_readdir :: "int \<Rightarrow> 'w \<Rightarrow> string option \<times> 'w"
  os_closedir :: "int \<Rightarrow> 'w \<Rightarrow> 'w"
  os_ppoll :: "int \<Rightarrow> int \<Rightarrow> 'w \<Rightarrow> (int \<times> int) \<times> 'w"
  os_fionread :: "int \<Rightarrow> 'w \<Rightarrow> (int \<times> int \<times> u32) \<times> 'w"
  os_read :: "int \<Rightarrow> nat \<Rightarrow> 'w \<Rightarrow> (int \<times> int \<times> u8 list) \<times> 'w"
  os_regcomp :: "string \<Rightarrow> int \<Rightarrow> int"
  os_regexec :: "regex \<Rightarrow> string \<Rightarrow> int"
  os_strftime :: "string \<Rightarrow> 'w \<Rightarrow> string \<times> 'w"
  os_strerror :: "int \<Rightarrow> string option"
  os_fopen :: "string \<Rightarrow> string \<Rightarrow> 'w \<Rightarrow> (int option \<times> int) \<times> 'w"
  os_fgets :: "int \<Rightarrow> nat \<Rightarrow> 'w \<Rightarrow> string option \<times> 'w"
  os_fscanf_int :: "int \<Rightarrow> 'w \<Rightarrow> (int option \<times> int) \<times> 'w"
  os_fclose :: "int \<Rightarrow> 'w \<Rightarrow> int \<times> 'w"
  os_strtol :: "string \<Rightarrow> int \<times> int \<times> nat"
  os_syslog :: "string \<Rightarrow> 'w \<Rightarrow> 'w"
  os_openlog :: "string \<Rightarrow> 'w \<Rightarrow> 'w"
  os_realpath :: "string \<Rightarrow> 'w \<Rightarrow> (string option \<times> int) \<times> 'w"
  os_daemon :: "'w \<Rightarrow> int \<times> 'w"
  os_alarm :: "u32 \<Rightarrow> 'w \<Rightarrow> 'w"
  os_signals :: "'w \<Rightarrow> int list \<times> 'w"

text \<open>
  A concrete system to evaluate the model on: every call succeeds, nothing is ever ready, no
  file can be read, and the C library's texts are fixed.
\<close>

definition quiet_os :: "'w os" where
  "quiet_os = \<lparr>os_getpid = (\<lambda>w. (1, w)), os_inotify_init = (\<lambda>w. ((3, 0), w)),
     os_fanotify_init = (\<lambda>_ w. ((3, 0), w)), os_close = (\<lambda>_ w. w),
     os_inotify_add_watch = (\<lambda>_ _ _ w. ((1, 0), w)), os_inotify_rm_watch = (\<lambda>_ _ w. ((0, 0), w)),
     os_fanotify_mark = (\<lambda>_ _ _ _ w. ((0, 0), w)), os_lstat = (\<lambda>_ w. ((-1, ENOENT, 0), w)),
     os_statfs = (\<lambda>_ w. ((-1, ENOENT, replicate 8 0), w)), os_open = (\<lambda>_ _ _ w. ((-1, ENOENT), w)),
     os_dup = (\<lambda>n w. (n, w)), os_dup2 = (\<lambda>_ _ w. w), os_readlink = (\<lambda>_ _ w. (None, w)),
     os_faccessat = (\<lambda>_ _ w. ((-1, ENOENT), w)), os_name_to_handle = (\<lambda>_ _ w. ((-1, ENOENT, 0, []), w)),
     os_open_by_handle = (\<lambda>_ _ w. (-1, w)), os_opendir = (\<lambda>_ w. ((None, ENOENT), w)),
     os_readdir = (\<lambda>_ w. (None, w)), os_closedir = (\<lambda>_ w. w), os_ppoll = (\<lambda>_ _ w. ((0, 0), w)),
     os_fionread = (\<lambda>_ w. ((0, 0, 0), w)), os_read = (\<lambda>_ _ w. ((0, 0, []), w)),
     os_regcomp = (\<lambda>_ _. 0), os_regexec = (\<lambda>_ _. 1), os_strftime = (\<lambda>f w. (f, w)),
     os_strerror = (\<lambda>_. Some ''error''), os_fopen = (\<lambda>_ _ w. ((None, ENOENT), w)),
     os_fgets = (\<lambda>_ _ w. (None, w)), os_fscanf_int = (\<lambda>_ w. ((None, EINVAL), w)),
     os_fclose = (\<lambda>_ w. (0, w)), os_strtol = (\<lambda>_. (0, 0, 0)),
     os_syslog = (\<lambda>_ w. w), os_openlog = (\<lambda>_ w. w), os_realpath = (\<lambda>_ w. ((None, ENOENT), w)),
     os_daemon = (\<lambda>w. (0, w)), os_alarm = (\<lambda>_ w. w), os_signals = (\<lambda>w. ([], w))\<rparr>"

text \<open>A call, and the two streams.\<close>

definition sys :: "('w \<Rightarrow> 'r \<times> 'w) \<Rightarrow> 'w machine \<Rightarrow> 'r \<times> 'w machine" where
  "sys call s = (case call (world s) of (r, w) \<Rightarrow> (r, s\<lparr>world := w\<rparr>))"

definition sysw :: "('w \<Rightarrow> 'w) \<Rightarrow> 'w machine \<Rightarrow> 'w machine" where
  "sysw call s = s\<lparr>world := call (world s)\<rparr>"

text \<open>\<open>out\<close>, \<open>err\<close>, and the macros that write pieces.\<close>

definition ceprint :: "string \<Rightarrow> 'w machine \<Rightarrow> 'w machine" where
  "ceprint msg s = s\<lparr>c_stderr := c_stderr s @ msg\<rparr>"

definition cprint :: "string \<Rightarrow> 'w machine \<Rightarrow> 'w machine" where
  "cprint msg s = s\<lparr>c_stdout := c_stdout s @ msg\<rparr>"

lemma streams_write_to:
  "Some (c_stderr (ceprint msg s)) = write_to (Some (c_stderr s)) msg"
  "Some (c_stdout (cprint msg s)) = write_to (Some (c_stdout s)) msg"
  by (simp_all add: ceprint_def cprint_def)

definition ceprint_pieces :: "piece list \<Rightarrow> 'w machine \<Rightarrow> 'w machine" where
  "ceprint_pieces ps s = ceprint (cat ps) s"

definition cprint_pieces :: "piece list \<Rightarrow> 'w machine \<Rightarrow> 'w machine" where
  "cprint_pieces ps s = cprint (cat ps) s"

declare ceprint_pieces_def [simp] cprint_pieces_def [simp]

text \<open>\<open>strerror\<close>: nothing when the C library has no text.\<close>

definition strerror :: "'w os \<Rightarrow> int \<Rightarrow> string" where
  "strerror os e = (case os_strerror os e of None \<Rightarrow> [] | Some t \<Rightarrow> cstring t)"

definition set_error :: "int \<Rightarrow> 'w machine \<Rightarrow> 'w machine" where
  "set_error e s = s\<lparr>error := e\<rparr>"

text \<open>\<open>nice_fail\<close> and \<open>assert_init\<close>: a diagnostic, no change of control.\<close>

definition nice_fail :: "nat \<Rightarrow> string \<Rightarrow> string \<Rightarrow> 'w machine \<Rightarrow> 'w machine" where
  "nice_fail line condstr msg =
     (let tail = (if msg = [] then ''.'' else '': '' @ msg)
      in ceprint_pieces [Bytes ''inotifytools.rs:'', Unsigned line, Bytes '' assertion ( '', Bytes condstr,
           Bytes '' ) failed'', Bytes tail, Bytes [CHR 0x0A]])"

definition niceassert :: "bool \<Rightarrow> nat \<Rightarrow> string \<Rightarrow> string \<Rightarrow> 'w machine \<Rightarrow> 'w machine" where
  "niceassert c line condstr msg s = (if c then s else nice_fail line condstr msg s)"

definition assert_init :: "'w machine \<Rightarrow> 'w machine" where
  "assert_init s = niceassert (initialized s) 396 ''initialized''
     ''inotifytools_initialize not called yet'' s"

lemma assert_init_id [simp]: "initialized s \<Longrightarrow> assert_init s = s"
  by (simp add: assert_init_def niceassert_def)

text \<open>
  Steps that touch only the world and the streams, or only \<open>error\<close>, are transparent for every
  other field: the frame rules used throughout.
\<close>

lemma sys_frame: "sys call s = (r, s') \<Longrightarrow> s' = s\<lparr>world := world s'\<rparr>"
  by (auto simp: sys_def split: prod.splits)

definition same_lib :: "'w machine \<Rightarrow> 'w machine \<Rightarrow> bool" where
  "same_lib s s' \<longleftrightarrow> inotifytools.truncate s' = inotifytools.truncate s"

lemma same_lib_refl [simp]: "same_lib s s"
  by (simp add: same_lib_def)

lemma same_lib_trans: "same_lib s t \<Longrightarrow> same_lib t u \<Longrightarrow> same_lib s u"
  by (simp add: same_lib_def)

lemma same_lib_effects [simp]:
  "same_lib s (t\<lparr>world := w\<rparr>) \<longleftrightarrow> same_lib s t"
  "same_lib s (t\<lparr>c_stderr := m\<rparr>) \<longleftrightarrow> same_lib s t"
  "same_lib s (t\<lparr>c_stdout := m\<rparr>) \<longleftrightarrow> same_lib s t"
  by (simp_all add: same_lib_def inotifytools.truncate_def)

end
