(* ===== verification/WatchTable.thy ===== *)
theory WatchTable
  imports Machine
begin

text \<open>
  The watch table of the library (\<open>inotify.rs\<close>, "Watch bookkeeping"): the watches, stored under
  an internal identifier, and the three indexes that lead to them, by watch descriptor, by fid
  and by filename. The table invariant says that no index entry dangles and that every entry
  leads to a watch with exactly that key; it is proved through one contract, \<open>keyed_index\<close>,
  interpreted for each of the three indexes.
\<close>

subsection \<open>Lookups\<close>

definition watch_from_wd :: "'w machine \<Rightarrow> int \<Rightarrow> nat option" where
  "watch_from_wd s wd = bt_get (by_wd s) wd"

definition watch_from_fid :: "'w machine \<Rightarrow> fid \<Rightarrow> nat option" where
  "watch_from_fid s f = bt_get (by_fid s) (FidKey_new f)"

definition watch_from_filename :: "'w machine \<Rightarrow> string \<Rightarrow> nat option" where
  "watch_from_filename s filename = bt_get (by_filename s) filename"

text \<open>\<open>self.watch(id)\<close> indexes the table and panics on an absent identifier.\<close>

definition watch_at :: "'w machine \<Rightarrow> nat \<Rightarrow> watch option" where
  "watch_at s n = watches s n"

subsection \<open>Registering a watch\<close>

text \<open>
  Fanotify has no watch descriptors: positive ones are handed out, skipping those in use. The
  fuel bounds the number of descriptors tried; one more than the number of entries in use is
  enough (\<open>fresh_wd_total\<close> below), so running out means that all descriptors are taken and the
  code would loop for ever.
\<close>

definition next_wd :: "int \<Rightarrow> int" where
  "next_wd n = (let n = wrap32 (n + 1) in if n \<le> 0 then 1 else n)"

fun fresh_wd :: "nat \<Rightarrow> (int, nat) btree \<Rightarrow> int \<Rightarrow> int option" where
  "fresh_wd 0 m n = None"
| "fresh_wd (Suc fuel) m n =
     (let n = next_wd n in if bt_get m n = None then Some n else fresh_wd fuel m n)"

text \<open>\<open>Drop for Watch\<close>.\<close>

definition drop_watch :: "'w os \<Rightarrow> watch \<Rightarrow> 'w machine \<Rightarrow> 'w machine" where
  "drop_watch os w s = (if w_dirf w \<noteq> 0 then sysw (os_close os (w_dirf w)) s else s)"

definition file_under_wd :: "int \<Rightarrow> nat \<Rightarrow> 'w machine \<Rightarrow> bool \<times> 'w machine" where
  "file_under_wd wd n s =
     (bt_get (by_wd s) wd = None, s\<lparr>by_wd := bt_insert wd n (by_wd s)\<rparr>)"

definition file_under_fid :: "fid option \<Rightarrow> nat \<Rightarrow> 'w machine \<Rightarrow> bool \<times> 'w machine" where
  "file_under_fid fid n s =
     (case fid of
        None \<Rightarrow> (False, s)
      | Some f \<Rightarrow> (bt_get (by_fid s) (FidKey_new f) = None,
                  s\<lparr>by_fid := bt_insert (FidKey_new f) n (by_fid s)\<rparr>))"

definition file_under_name :: "string \<Rightarrow> nat \<Rightarrow> 'w machine \<Rightarrow> bool \<times> 'w machine" where
  "file_under_name name n s =
     (bt_get (by_filename s) name = None, s\<lparr>by_filename := bt_insert name n (by_filename s)\<rparr>)"

definition create_watch ::
  "'w os \<Rightarrow> int \<Rightarrow> fid option \<Rightarrow> string \<Rightarrow> int \<Rightarrow> 'w machine \<Rightarrow> (int option \<times> 'w machine) option"
where
  "create_watch os wd fid filename dirf s =
     (if wd < 0 then Some (None, s)
      else do {
        (wd, s) \<leftarrow>
          (if wd \<noteq> 0 then Some (wd, s)
           else map_option (\<lambda>n. (n, s\<lparr>next_fanotify_wd := n\<rparr>))
                  (fresh_wd (Suc (length (by_wd s))) (by_wd s) (next_fanotify_wd s)));
        let n = next_id s;
        let s = s\<lparr>next_id := n + 1\<rparr>;
        let w = \<lparr>w_fid = fid, w_filename = cstring filename, w_wd = wd, w_dirf = dirf,
                 w_stats = stats_default\<rparr>;
        let (inserted1, s) = file_under_wd wd n s;
        let (inserted2, s) = file_under_fid (w_fid w) n s;
        let (inserted3, s) = file_under_name (w_filename w) n s;
        let s = (if inserted1 \<or> inserted2 \<or> inserted3
                 then s\<lparr>watches := (watches s)(n \<mapsto> w)\<rparr> else drop_watch os w s);
        Some (Some wd, s)
      })"

subsection \<open>Removing, renaming\<close>

definition destroy_watch :: "'w os \<Rightarrow> nat \<Rightarrow> 'w machine \<Rightarrow> 'w machine option" where
  "destroy_watch os n s = do {
     w \<leftarrow> watch_at s n;
     let s = s\<lparr>by_wd := bt_remove (w_wd w) (by_wd s)\<rparr>;
     let s = (case w_fid w of
                None \<Rightarrow> s
              | Some f \<Rightarrow> s\<lparr>by_fid := bt_remove (FidKey_new f) (by_fid s)\<rparr>);
     let s = s\<lparr>by_filename := bt_remove (w_filename w) (by_filename s)\<rparr>;
     Some (drop_watch os w (s\<lparr>watches := (watches s)(n := None)\<rparr>))
   }"

definition remove_inotify_watch ::
  "'w os \<Rightarrow> nat \<Rightarrow> 'w machine \<Rightarrow> (bool \<times> 'w machine) option" where
  "remove_inotify_watch os n s = do {
     let s = s\<lparr>error := 0\<rparr>;
     w \<leftarrow> watch_at s n;
     if w_fid w \<noteq> None then Some (False, s)
     else let ((status, e), s) = sys (os_inotify_rm_watch os (fd s) (w_wd w)) s
          in if status < 0
             then Some (False, (ceprint (''Failed to remove watch on '' @ w_filename w @ '': ''
                    @ strerror os status @ [CHR 0x0A]) s)\<lparr>error := status\<rparr>)
             else Some (True, s)
   }"

definition rename_watch :: "nat \<Rightarrow> string \<Rightarrow> 'w machine \<Rightarrow> 'w machine option" where
  "rename_watch n newname s = do {
     w \<leftarrow> watch_at s n;
     let old = w_filename w;
     let s = (if bt_get (by_filename s) old = Some n
              then s\<lparr>by_filename := bt_remove old (by_filename s)\<rparr> else s);
     let newname = cstring newname;
     let s = s\<lparr>by_filename := bt_insert newname n (by_filename s)\<rparr>;
     Some (s\<lparr>watches := (watches s)(n \<mapsto> w\<lparr>w_filename := newname\<rparr>)\<rparr>)
   }"

definition wd_from_filename :: "string \<Rightarrow> 'w machine \<Rightarrow> (int \<times> 'w machine) option" where
  "wd_from_filename filename s =
     (let s = assert_init s
      in if filename = [] then Some (-1, s)
         else case watch_from_filename s filename of
                None \<Rightarrow> Some (-1, s)
              | Some n \<Rightarrow> do { w \<leftarrow> watch_at s n; Some (w_wd w, s) })"

definition set_filename_by_wd :: "int \<Rightarrow> string \<Rightarrow> 'w machine \<Rightarrow> 'w machine option" where
  "set_filename_by_wd wd filename s =
     (let s = assert_init s
      in case watch_from_wd s wd of None \<Rightarrow> Some s | Some n \<Rightarrow> rename_watch n filename s)"

definition set_filename_by_filename :: "string \<Rightarrow> string \<Rightarrow> 'w machine \<Rightarrow> 'w machine option" where
  "set_filename_by_filename oldname newname s =
     (case watch_from_filename s oldname of None \<Rightarrow> Some s | Some n \<Rightarrow> rename_watch n newname s)"

fun replace_entries :: "nat list \<Rightarrow> string \<Rightarrow> string \<Rightarrow> 'w machine \<Rightarrow> 'w machine option" where
  "replace_entries [] oldname newname s = Some s"
| "replace_entries (n # ns) oldname newname s =
     (case watches s n of
        None \<Rightarrow> replace_entries ns oldname newname s
      | Some w \<Rightarrow>
          let cur = w_filename w
          in if starts_with cur oldname \<and> cur \<noteq> newname
             then do {
               s \<leftarrow> rename_watch n (newname @ drop (length oldname) cur) s;
               replace_entries ns oldname newname s
             }
             else replace_entries ns oldname newname s)"

definition replace_filename :: "string \<Rightarrow> string \<Rightarrow> 'w machine \<Rightarrow> 'w machine option" where
  "replace_filename oldname newname s =
     (if oldname = [] \<or> newname = [] then Some s
      else replace_entries (bt_values (by_filename s)) oldname newname s)"

definition remove_watch :: "'w os \<Rightarrow> nat option \<Rightarrow> 'w machine \<Rightarrow> (bool \<times> 'w machine) option" where
  "remove_watch os i s =
     (let s = assert_init s
      in case i of
           None \<Rightarrow> Some (True, s)
         | Some n \<Rightarrow> do {
             (ok, s) \<leftarrow> remove_inotify_watch os n s;
             if \<not> ok then Some (False, s)
             else do { s \<leftarrow> destroy_watch os n s; Some (True, s) }
           })"

definition remove_watch_by_wd :: "'w os \<Rightarrow> int \<Rightarrow> 'w machine \<Rightarrow> (bool \<times> 'w machine) option" where
  "remove_watch_by_wd os wd s = remove_watch os (watch_from_wd s wd) s"

definition remove_watch_by_filename ::
  "'w os \<Rightarrow> string \<Rightarrow> 'w machine \<Rightarrow> (bool \<times> 'w machine) option" where
  "remove_watch_by_filename os filename s = remove_watch os (watch_from_filename s filename) s"

definition get_num_watches :: "'w machine \<Rightarrow> int" where
  "get_num_watches s = wrap32 (int (length (by_filename s)))"

subsection \<open>The table invariant\<close>

interpretation wd_ix: keyed_index bt_get bt_insert bt_remove bt_values bt_wf "\<lambda>w. Some (w_wd w)"
  by unfold_locales

interpretation fid_ix: keyed_index bt_get bt_insert bt_remove bt_values bt_wf
  "\<lambda>w. map_option FidKey_new (w_fid w)"
  by unfold_locales

interpretation name_ix: keyed_index bt_get bt_insert bt_remove bt_values bt_wf
  "\<lambda>w. Some (w_filename w)"
  by unfold_locales

definition watch_ok :: "watch \<Rightarrow> bool" where
  "watch_ok w \<longleftrightarrow> 0 < w_wd w \<and> NUL \<notin> set (w_filename w)"

definition table_inv :: "'w machine \<Rightarrow> bool" where
  "table_inv s \<longleftrightarrow>
     wd_ix.points (by_wd s) (watches s) \<and> fid_ix.points (by_fid s) (watches s) \<and>
     name_ix.points (by_filename s) (watches s) \<and>
     (\<forall>n w. watches s n = Some w \<longrightarrow> n < next_id s \<and> watch_ok w) \<and>
     0 \<le> next_fanotify_wd s \<and> next_fanotify_wd s < 2 ^ 31"

lemma table_inv_new [simp]: "table_inv (machine_new w)"
  by (simp add: table_inv_def wd_ix.points_def fid_ix.points_def name_ix.points_def)

text \<open>The invariant depends on the table's fields only.\<close>

lemma table_inv_frame [simp]:
  "table_inv (s\<lparr>error := e\<rparr>) = table_inv s"
  "table_inv (s\<lparr>world := x\<rparr>) = table_inv s"
  "table_inv (s\<lparr>c_stderr := m\<rparr>) = table_inv s"
  "table_inv (s\<lparr>c_stdout := m\<rparr>) = table_inv s"
  by (simp_all add: table_inv_def)

lemma table_invD:
  assumes "table_inv s"
  shows "wd_ix.points (by_wd s) (watches s)" "fid_ix.points (by_fid s) (watches s)"
    "name_ix.points (by_filename s) (watches s)"
    "watches s n = Some w \<Longrightarrow> n < next_id s \<and> watch_ok w"
    "0 \<le> next_fanotify_wd s" "next_fanotify_wd s < 2 ^ 31"
    "watches s (next_id s) = None"
  using assms by (auto simp: table_inv_def) (metis not_None_eq less_irrefl)

text \<open>Every lookup leads to a stored watch, filed under the key that was looked up.\<close>

lemma watch_from_wd_found:
  assumes "table_inv s" and "watch_from_wd s wd = Some n"
  obtains w where "watches s n = Some w" and "w_wd w = wd"
  using wd_ix.points_get [OF table_invD(1) [OF assms(1)]] assms(2)
  by (auto simp: watch_from_wd_def)

lemma watch_from_filename_found:
  assumes "table_inv s" and "watch_from_filename s f = Some n"
  obtains w where "watches s n = Some w" and "w_filename w = f"
  using name_ix.points_get [OF table_invD(3) [OF assms(1)]] assms(2)
  by (auto simp: watch_from_filename_def)

lemma watch_from_fid_found:
  assumes "table_inv s" and "watch_from_fid s f = Some n"
  obtains w g where "watches s n = Some w" and "w_fid w = Some g" and "FidKey_new g = FidKey_new f"
  using fid_ix.pointsD [OF table_invD(2) [OF assms(1)], of "FidKey_new f" n] assms(2)
  by (auto simp: watch_from_fid_def)

subsection \<open>Fresh watch descriptors\<close>

abbreviation wd_limit :: int where
  "wd_limit \<equiv> 2 ^ 31 - 1"

lemma next_wd_eq: "0 \<le> n \<Longrightarrow> n < 2 ^ 31 \<Longrightarrow> next_wd n = n mod wd_limit + 1"
proof (cases "n = wd_limit")
  case True
  then show ?thesis by (simp add: next_wd_def wrap32_def)
next
  case False
  assume "0 \<le> n" "n < 2 ^ 31"
  with False have "wrap32 (n + 1) = n + 1" "n mod wd_limit = n"
    by (simp_all add: wrap32_id)
  with \<open>0 \<le> n\<close> show ?thesis by (simp add: next_wd_def)
qed

lemma next_wd_iter:
  assumes "0 \<le> n" and "n < 2 ^ 31"
  shows "(next_wd ^^ Suc i) n = (n + int i) mod wd_limit + 1"
proof (induction i)
  case 0
  with assms show ?case by (simp add: next_wd_eq)
next
  case (Suc i)
  have "0 \<le> (n + int i) mod wd_limit" "(n + int i) mod wd_limit < wd_limit" by simp_all
  then have "next_wd ((n + int i) mod wd_limit + 1) = ((n + int i) mod wd_limit + 1) mod wd_limit + 1"
    by (intro next_wd_eq) simp_all
  also have "\<dots> = (n + int (Suc i)) mod wd_limit + 1"
    by (simp only: mod_add_left_eq) (simp add: algebra_simps)
  finally show ?case using Suc by simp
qed

lemma next_wd_iter_inj:
  assumes "0 \<le> n" and "n < 2 ^ 31" and "i < nat wd_limit" and "j < nat wd_limit"
    and "(next_wd ^^ Suc i) n = (next_wd ^^ Suc j) n"
  shows "i = j"
proof -
  have "(n + int i) mod wd_limit = (n + int j) mod wd_limit"
    using assms(5) by (simp only: next_wd_iter [OF assms(1,2)])
  then have "wd_limit dvd int i - int j"
    by (simp add: mod_eq_dvd_iff)
  moreover have "\<bar>int i - int j\<bar> < wd_limit"
    using assms(3,4) by simp
  ultimately have "int i - int j = 0"
    using dvd_imp_le_int [of "int i - int j" wd_limit] by linarith
  then show ?thesis by simp
qed

lemma fresh_wd_None:
  "fresh_wd fuel m n = None \<Longrightarrow> i < fuel \<Longrightarrow> bt_get m ((next_wd ^^ Suc i) n) \<noteq> None"
proof (induction fuel arbitrary: n i)
  case 0
  then show ?case by simp
next
  case (Suc fuel)
  then have "bt_get m (next_wd n) \<noteq> None" "fresh_wd fuel m (next_wd n) = None"
    by (auto simp: Let_def split: if_splits)
  with Suc show ?case
    by (cases i) (simp_all add: funpow_swap1)
qed

lemma fresh_wd_Some:
  "fresh_wd fuel m n = Some k \<Longrightarrow> 0 \<le> n \<Longrightarrow> n < 2 ^ 31 \<Longrightarrow> 0 < k \<and> k < 2 ^ 31 \<and> bt_get m k = None"
proof (induction fuel arbitrary: n)
  case 0
  then show ?case by simp
next
  case (Suc fuel)
  have "0 \<le> n mod wd_limit" "n mod wd_limit < wd_limit" by simp_all
  with Suc.prems have "0 < next_wd n" "next_wd n < 2 ^ 31" by (simp_all add: next_wd_eq)
  with Suc show ?case by (auto simp: Let_def split: if_splits)
qed

lemma fresh_wd_total:
  assumes "0 \<le> n" and "n < 2 ^ 31" and "length m < nat wd_limit"
  shows "\<exists>k. fresh_wd (Suc (length m)) m n = Some k"
proof (rule ccontr)
  assume "\<nexists>k. fresh_wd (Suc (length m)) m n = Some k"
  then have none: "fresh_wd (Suc (length m)) m n = None" by (metis not_Some_eq)
  let ?c = "\<lambda>i. (next_wd ^^ Suc i) n"
  have "?c ` {..length m} \<subseteq> fst ` set m"
    using fresh_wd_None [OF none] by (force simp: bt_get_def map_of_eq_None_iff less_Suc_eq_le)
  moreover have "inj_on ?c {..length m}"
    using assms by (intro inj_onI next_wd_iter_inj [of n]) auto
  ultimately have "Suc (length m) \<le> card (fst ` set m)"
    using card_mono [of "fst ` set m" "?c ` {..length m}"] by (simp add: card_image)
  also have "\<dots> \<le> length m"
    using card_image_le [of "set m" fst] card_length [of m] by simp
  finally show False by simp
qed

subsection \<open>What registering a watch does\<close>

text \<open>The identifier a new watch gets, and the index entry it leaves behind.\<close>

definition filed :: "('k \<Rightarrow> nat option) \<Rightarrow> 'k \<Rightarrow> nat \<Rightarrow> ('k \<Rightarrow> nat option)" where
  "filed get k n = (if get k = None then get(k \<mapsto> n) else get)"

lemma bt_get_insert_filed: "bt_wf m \<Longrightarrow> bt_get (bt_insert k n m) = filed (bt_get m) k n"
  by (simp add: bt_get_insert filed_def)

definition new_watch :: "int \<Rightarrow> fid option \<Rightarrow> string \<Rightarrow> int \<Rightarrow> watch" where
  "new_watch wd fid filename dirf =
     \<lparr>w_fid = fid, w_filename = cstring filename, w_wd = wd, w_dirf = dirf,
      w_stats = stats_default\<rparr>"

lemma new_watch_sel [simp]:
  "w_fid (new_watch wd fid f d) = fid" "w_filename (new_watch wd fid f d) = cstring f"
  "w_wd (new_watch wd fid f d) = wd" "w_dirf (new_watch wd fid f d) = d"
  "w_stats (new_watch wd fid f d) = stats_default"
  by (simp_all add: new_watch_def)

text \<open>The table part of \<open>create_watch\<close>, once the descriptor is known.\<close>

definition register :: "'w os \<Rightarrow> int \<Rightarrow> fid option \<Rightarrow> string \<Rightarrow> int \<Rightarrow> 'w machine \<Rightarrow> 'w machine" where
  "register os wd fid filename dirf s =
     (let n = next_id s; w = new_watch wd fid filename dirf;
          ins = (bt_get (by_wd s) wd = None \<or>
                 (\<exists>f. fid = Some f \<and> bt_get (by_fid s) (FidKey_new f) = None) \<or>
                 bt_get (by_filename s) (cstring filename) = None);
          s' = s\<lparr>next_id := n + 1, by_wd := bt_insert wd n (by_wd s),
                 by_fid := (case fid of None \<Rightarrow> by_fid s
                            | Some f \<Rightarrow> bt_insert (FidKey_new f) n (by_fid s)),
                 by_filename := bt_insert (cstring filename) n (by_filename s)\<rparr>
      in if ins then s'\<lparr>watches := (watches s)(n \<mapsto> w)\<rparr> else drop_watch os w s')"

lemma create_watch_register:
  assumes "0 < wd"
  shows "create_watch os wd fid filename dirf s = Some (Some wd, register os wd fid filename dirf s)"
  using assms
  by (cases fid) (auto simp: create_watch_def register_def new_watch_def file_under_wd_def
      file_under_fid_def file_under_name_def Let_def)

lemma create_watch_fresh:
  assumes "fresh_wd (Suc (length (by_wd s))) (by_wd s) (next_fanotify_wd s) = Some wd"
  shows "create_watch os 0 fid filename dirf s =
    Some (Some wd, register os wd fid filename dirf (s\<lparr>next_fanotify_wd := wd\<rparr>))"
  using assms
  by (cases fid) (auto simp: create_watch_def register_def new_watch_def file_under_wd_def
      file_under_fid_def file_under_name_def Let_def simp del: fresh_wd.simps)

lemma create_watch_negative: "wd < 0 \<Longrightarrow> create_watch os wd fid filename dirf s = Some (None, s)"
  by (simp add: create_watch_def)

lemma drop_watch_table [simp]:
  "watches (drop_watch os w s) = watches s" "next_id (drop_watch os w s) = next_id s"
  "by_wd (drop_watch os w s) = by_wd s" "by_fid (drop_watch os w s) = by_fid s"
  "by_filename (drop_watch os w s) = by_filename s"
  "next_fanotify_wd (drop_watch os w s) = next_fanotify_wd s"
  by (simp_all add: drop_watch_def sysw_def)

lemma register_table:
  assumes "table_inv s"
  shows "bt_get (by_wd (register os wd fid filename dirf s)) =
      filed (bt_get (by_wd s)) wd (next_id s)"
    and "bt_get (by_filename (register os wd fid filename dirf s)) =
      filed (bt_get (by_filename s)) (cstring filename) (next_id s)"
    and "bt_get (by_fid (register os wd fid filename dirf s)) =
      (case fid of None \<Rightarrow> bt_get (by_fid s)
       | Some f \<Rightarrow> filed (bt_get (by_fid s)) (FidKey_new f) (next_id s))"
    and "next_id (register os wd fid filename dirf s) = next_id s + 1"
    and "n \<noteq> next_id s \<Longrightarrow> watches (register os wd fid filename dirf s) n = watches s n"
  using table_invD(1-3) [OF assms]
  by (auto simp: register_def Let_def bt_get_insert_filed wd_ix.points_def name_ix.points_def
      fid_ix.points_def split: option.splits)

lemma register_stored:
  assumes "bt_get (by_wd s) wd = None \<or> bt_get (by_filename s) (cstring filename) = None"
  shows "watches (register os wd fid filename dirf s) (next_id s) =
    Some (new_watch wd fid filename dirf)"
  using assms by (auto simp: register_def Let_def)

lemma register_inv:
  assumes inv: "table_inv s" and wd: "0 < wd"
  shows "table_inv (register os wd fid filename dirf s)"
proof -
  note i = table_invD [OF inv]
  let ?w = "new_watch wd fid filename dirf" and ?n = "next_id s"
  let ?ws = "(watches s)(?n \<mapsto> ?w)"
  let ?r = "register os wd fid filename dirf s"
  have ok: "watch_ok ?w" using wd by (simp add: watch_ok_def)
  have fid_key: "map_option FidKey_new (w_fid ?w) = map_option FidKey_new fid" by simp
  show ?thesis
  proof (cases "watches ?r = ?ws")
    case True
    have 1: "wd_ix.points (by_wd ?r) ?ws"
      using wd_ix.points_add [OF i(1) i(7), of ?w wd] by (simp add: register_def Let_def)
    have 2: "name_ix.points (by_filename ?r) ?ws"
      using name_ix.points_add [OF i(3) i(7), of ?w "cstring filename"]
      by (simp add: register_def Let_def)
    have 3: "fid_ix.points (by_fid ?r) ?ws"
      using fid_ix.points_add [OF i(2) i(7), of ?w] fid_ix.points_store [OF i(2) i(7), of ?w]
      by (cases fid) (simp_all add: register_def Let_def)
    have 4: "0 \<le> next_fanotify_wd ?r \<and> next_fanotify_wd ?r < 2 ^ 31"
      using i(5,6) by (simp add: register_def Let_def)
    show ?thesis
      using 1 2 3 4 i(4) ok True by (auto simp: table_inv_def register_def Let_def less_Suc_eq)
  next
    case False
    then have no: "bt_get (by_wd s) wd \<noteq> None" "bt_get (by_filename s) (cstring filename) \<noteq> None"
      "\<And>f. fid = Some f \<Longrightarrow> bt_get (by_fid s) (FidKey_new f) \<noteq> None"
      by (auto simp: register_def Let_def split: if_splits)
    then have ws: "watches ?r = watches s" by (auto simp: register_def Let_def)
    have 1: "wd_ix.points (by_wd ?r) (watches s)"
      using wd_ix.points_add_present [OF i(1) no(1)] by (simp add: register_def Let_def)
    have 2: "name_ix.points (by_filename ?r) (watches s)"
      using name_ix.points_add_present [OF i(3) no(2)] by (simp add: register_def Let_def)
    have 3: "fid_ix.points (by_fid ?r) (watches s)"
      using fid_ix.points_add_present [OF i(2)] no(3) i(2)
      by (cases fid) (simp_all add: register_def Let_def)
    have 4: "0 \<le> next_fanotify_wd ?r \<and> next_fanotify_wd ?r < 2 ^ 31"
      using i(5,6) by (simp add: register_def Let_def)
    show ?thesis
      using 1 2 3 4 i(4) ws by (auto simp: table_inv_def register_def Let_def less_Suc_eq)
  qed
qed

text \<open>
  A table with room for one more watch without a descriptor; with an inotify descriptor
  (\<open>wd \<noteq> 0\<close>) there is always room.
\<close>

definition room_for :: "'w machine \<Rightarrow> int \<Rightarrow> bool" where
  "room_for s wd \<longleftrightarrow> wd \<noteq> 0 \<or> length (by_wd s) < nat wd_limit"

lemma table_inv_next_wd:
  "table_inv s \<Longrightarrow> 0 \<le> k \<Longrightarrow> k < 2 ^ 31 \<Longrightarrow> table_inv (s\<lparr>next_fanotify_wd := k\<rparr>)"
  by (simp add: table_inv_def)

lemma create_watch_ex:
  assumes inv: "table_inv s" and wd: "0 \<le> wd" and room: "room_for s wd"
  shows "\<exists>wd' t. 0 < wd' \<and> table_inv t \<and> (wd \<noteq> 0 \<longrightarrow> wd' = wd) \<and>
    (wd = 0 \<longrightarrow> watch_from_wd s wd' = None) \<and>
    by_wd t = by_wd s \<and> by_fid t = by_fid s \<and> by_filename t = by_filename s \<and>
    watches t = watches s \<and> next_id t = next_id s \<and>
    t = s\<lparr>next_fanotify_wd := next_fanotify_wd t\<rparr> \<and>
    create_watch os wd fid f d s = Some (Some wd', register os wd' fid f d t)"
proof (cases "wd = 0")
  case True
  with room have "length (by_wd s) < nat wd_limit" by (simp add: room_for_def)
  with table_invD(5,6) [OF inv] obtain k where
    k: "fresh_wd (Suc (length (by_wd s))) (by_wd s) (next_fanotify_wd s) = Some k"
    using fresh_wd_total by blast
  with table_invD(5,6) [OF inv] have "0 < k" "k < 2 ^ 31" "bt_get (by_wd s) k = None"
    using fresh_wd_Some by blast+
  with True inv k show ?thesis
    by (intro exI [of _ k] exI [of _ "s\<lparr>next_fanotify_wd := k\<rparr>"])
      (simp add: create_watch_fresh watch_from_wd_def table_inv_next_wd del: fresh_wd.simps)
next
  case False
  with wd have "0 < wd" by simp
  with inv False show ?thesis
    by (intro exI [of _ wd] exI [of _ s]) (simp add: create_watch_register)
qed

text \<open>C11.
  Registering a watch never panics, keeps the table invariant, and changes each index at most at
  the new watch's own key, where an existing entry is kept: the descriptor is the one given, or,
  for a fanotify watch (0), a positive descriptor that was not in use.\<close>

theorem create_watch_correct:
  assumes inv: "table_inv s" and wd: "0 \<le> wd" and room: "room_for s wd"
  shows "\<exists>wd' s'. create_watch os wd fid filename dirf s = Some (Some wd', s') \<and> table_inv s' \<and>
    0 < wd' \<and> (if wd = 0 then watch_from_wd s wd' = None else wd' = wd) \<and>
    bt_get (by_wd s') = filed (bt_get (by_wd s)) wd' (next_id s) \<and>
    bt_get (by_filename s') = filed (bt_get (by_filename s)) (cstring filename) (next_id s) \<and>
    bt_get (by_fid s') = (case fid of None \<Rightarrow> bt_get (by_fid s)
      | Some f \<Rightarrow> filed (bt_get (by_fid s)) (FidKey_new f) (next_id s)) \<and>
    (\<forall>n. n \<noteq> next_id s \<longrightarrow> watches s' n = watches s n)"
proof -
  from create_watch_ex [OF inv wd room, of os fid filename dirf]
  obtain wd' t where t: "0 < wd'" "table_inv t" "wd \<noteq> 0 \<longrightarrow> wd' = wd"
    "wd = 0 \<longrightarrow> watch_from_wd s wd' = None" "by_wd t = by_wd s"
    "by_fid t = by_fid s" "by_filename t = by_filename s" "watches t = watches s"
    "next_id t = next_id s"
    "create_watch os wd fid filename dirf s = Some (Some wd', register os wd' fid filename dirf t)"
    by blast
  note r = register_table [OF t(2), where os = os and wd = wd' and fid = fid and filename = filename
    and dirf = dirf]
  have "table_inv (register os wd' fid filename dirf t)"
    by (rule register_inv [OF t(2,1)])
  with t r show ?thesis
    by (intro exI [of _ wd'] exI [of _ "register os wd' fid filename dirf t"])
      (simp split: option.splits)
qed

theorem create_watch_correct_witness:
  "table_inv (machine_new ()) \<and> (0 :: int) \<le> 0 \<and> room_for (machine_new ()) 0 \<and>
   (\<exists>wd' s'. create_watch quiet_os 0 (Some [1, 0, 2, 0]) ''/tmp'' 5 (machine_new ()) = Some (Some wd', s') \<and>
      table_inv s' \<and> 0 < wd' \<and> watch_from_wd (machine_new ()) wd' = None \<and>
      bt_get (by_filename s') = filed (bt_get (by_filename (machine_new ()))) (cstring ''/tmp'') 1)"
proof -
  have room: "room_for (machine_new ()) 0" by (simp add: room_for_def)
  show ?thesis
    using create_watch_correct [OF table_inv_new order.refl room,
        of quiet_os "Some [1, 0, 2, 0]" "''/tmp''" 5] room
    by auto
qed

text \<open>
  A watch that was just registered for a file is found again: when neither its descriptor nor its
  name was in use, looking up the name returns the descriptor, the descriptor leads to the new
  watch, and the number of named watches grew by one.
\<close>

lemma create_then_lookup:
  assumes inv: "table_inv s" and ini: "initialized s" and wd: "0 < wd"
    and name: "filename \<noteq> []" "NUL \<notin> set filename"
    and new: "watch_from_wd s wd = None" "watch_from_filename s filename = None"
  shows "\<exists>s'. create_watch os wd fid filename dirf s = Some (Some wd, s') \<and>
    wd_from_filename filename s' = Some (wd, s') \<and>
    (\<exists>n. watch_from_wd s' wd = Some n \<and> watch_at s' n = Some (new_watch wd fid filename dirf)) \<and>
    length (by_filename s') = Suc (length (by_filename s))"
proof -
  let ?s' = "register os wd fid filename dirf s"
  have c: "cstring filename = filename" using name by (simp add: cstring_id)
  have "initialized ?s'"
    using ini by (simp add: register_def Let_def drop_watch_def sysw_def)
  moreover have "watch_from_filename ?s' filename = Some (next_id s)"
    "watch_from_wd ?s' wd = Some (next_id s)"
    using new register_table [OF inv, where os = os and wd = wd and fid = fid and filename = filename
      and dirf = dirf]
    by (simp_all add: watch_from_filename_def watch_from_wd_def filed_def c)
  moreover have "watch_at ?s' (next_id s) = Some (new_watch wd fid filename dirf)"
    using new register_stored [of s wd filename os fid dirf]
    by (simp add: watch_at_def watch_from_wd_def)
  moreover have "length (by_filename ?s') = Suc (length (by_filename s))"
    using new table_invD(3) [OF inv]
    by (simp add: register_def Let_def c length_bt_insert watch_from_filename_def name_ix.points_wf)
  ultimately show ?thesis
    using create_watch_register [OF wd] name
    by (intro exI [of _ ?s']) (simp add: wd_from_filename_def)
qed

subsection \<open>Destroying and removing\<close>

lemma destroy_watch_fields:
  assumes "watches s n = Some w" and "destroy_watch os n s = Some s'"
  shows "watches s' = (watches s)(n := None)" "next_id s' = next_id s"
    "next_fanotify_wd s' = next_fanotify_wd s"
    "by_wd s' = bt_remove (w_wd w) (by_wd s)"
    "by_fid s' = (case w_fid w of None \<Rightarrow> by_fid s | Some f \<Rightarrow> bt_remove (FidKey_new f) (by_fid s))"
    "by_filename s' = bt_remove (w_filename w) (by_filename s)"
  using assms by (auto simp: destroy_watch_def watch_at_def Let_def split: option.splits)

lemma destroy_watch_total: "watches s n = Some w \<Longrightarrow> \<exists>s'. destroy_watch os n s = Some s'"
  by (simp add: destroy_watch_def watch_at_def Let_def)

lemma destroy_watch_inv:
  assumes inv: "table_inv s" and w: "watches s n = Some w" and d: "destroy_watch os n s = Some s'"
  shows "table_inv s'"
proof -
  note i = table_invD [OF inv] and f = destroy_watch_fields [OF w d]
  have "wd_ix.points (by_wd s') (watches s')"
    unfolding f by (rule wd_ix.points_del [OF i(1) w]) simp
  moreover have "name_ix.points (by_filename s') (watches s')"
    unfolding f by (rule name_ix.points_del [OF i(3) w]) simp
  moreover have "fid_ix.points (by_fid s') (watches s')"
    unfolding f using fid_ix.points_del [OF i(2) w] fid_ix.points_drop_unfiled [OF i(2) w]
    by (cases "w_fid w") simp_all
  ultimately show ?thesis
    using i(4-6) by (auto simp: table_inv_def f split: if_splits)
qed

text \<open>The system call that precedes the removal leaves the table alone.\<close>

lemma remove_inotify_watch_cases:
  assumes "watches s n = Some w"
  shows "\<exists>ok s'. remove_inotify_watch os n s = Some (ok, s') \<and> same_lib (s\<lparr>error := error s'\<rparr>) s' \<and>
    (ok \<longrightarrow> w_fid w = None \<and> error s' = 0) \<and> (\<not> ok \<longrightarrow> w_fid w \<noteq> None \<or> error s' < 0)"
proof (cases "w_fid w")
  case (Some f)
  with assms show ?thesis
    by (intro exI [of _ False] exI [of _ "s\<lparr>error := 0\<rparr>"])
      (simp add: remove_inotify_watch_def watch_at_def)
next
  case None
  obtain status e x where "os_inotify_rm_watch os (fd s) (w_wd w) (world s) = ((status, e), x)"
    by (metis surj_pair)
  with None assms show ?thesis
    by (intro exI [of _ "\<not> status < 0"] exI [of _ "if status < 0
          then (ceprint (''Failed to remove watch on '' @ w_filename w @ '': ''
                    @ strerror os status @ [CHR 0x0A]) (s\<lparr>world := x\<rparr>))\<lparr>error := status\<rparr>
          else s\<lparr>error := 0, world := x\<rparr>"])
      (simp add: remove_inotify_watch_def watch_at_def sys_def ceprint_def same_lib_def
        inotifytools.truncate_def)
qed

lemma same_lib_table:
  "same_lib s s' \<Longrightarrow> watches s' = watches s" "same_lib s s' \<Longrightarrow> by_wd s' = by_wd s"
  "same_lib s s' \<Longrightarrow> by_fid s' = by_fid s" "same_lib s s' \<Longrightarrow> by_filename s' = by_filename s"
  "same_lib s s' \<Longrightarrow> next_id s' = next_id s"
  "same_lib s s' \<Longrightarrow> next_fanotify_wd s' = next_fanotify_wd s"
  by (auto simp: same_lib_def inotifytools.truncate_def)

lemma same_lib_inv: "same_lib s s' \<Longrightarrow> table_inv s' = table_inv s"
  by (simp add: table_inv_def same_lib_table)

lemma remove_watch_cases:
  assumes inv: "table_inv s" and ini: "initialized s" and w: "watches s n = Some w"
  shows "\<exists>ok s'. remove_watch os (Some n) s = Some (ok, s') \<and> table_inv s' \<and>
    (if ok then w_fid w = None \<and> watches s' = (watches s)(n := None) \<and>
        bt_get (by_wd s') = (bt_get (by_wd s))(w_wd w := None) \<and>
        bt_get (by_filename s') = (bt_get (by_filename s))(w_filename w := None) \<and>
        by_fid s' = by_fid s
     else (w_fid w \<noteq> None \<or> error s' < 0) \<and> watches s' = watches s \<and> by_wd s' = by_wd s \<and>
        by_filename s' = by_filename s \<and> by_fid s' = by_fid s)"
proof -
  from remove_inotify_watch_cases [OF w, of os] obtain ok t where
    t: "remove_inotify_watch os n s = Some (ok, t)" "same_lib (s\<lparr>error := error t\<rparr>) t"
      "ok \<longrightarrow> w_fid w = None \<and> error t = 0" "\<not> ok \<longrightarrow> w_fid w \<noteq> None \<or> error t < 0" by blast
  note eq = same_lib_table [OF t(2), simplified]
  have invt: "table_inv t" using same_lib_inv [OF t(2)] inv by simp
  show ?thesis
  proof (cases ok)
    case False
    with t eq invt ini show ?thesis by (auto simp: remove_watch_def)
  next
    case True
    from w eq have wt: "watches t n = Some w" by simp
    from destroy_watch_total [OF wt] obtain s' where d: "destroy_watch os n t = Some s'" by blast
    from True t(1) d ini have "remove_watch os (Some n) s = Some (True, s')"
      by (simp add: remove_watch_def)
    then show ?thesis
      using True t(3) eq destroy_watch_fields [OF wt d] destroy_watch_inv [OF invt wt d]
      by (intro exI [of _ True] exI [of _ s']) (simp add: bt_get_remove)
  qed
qed

text \<open>What removing does, given the kernel's answer.\<close>

lemma remove_watch_status:
  assumes inv: "table_inv s" and ini: "initialized s" and w: "watches s n = Some w"
    and kernel: "os_inotify_rm_watch os (fd s) (w_wd w) (world s) = ((status, e), x)"
  shows "\<exists>s'. remove_watch os (Some n) s = Some (w_fid w = None \<and> 0 \<le> status, s') \<and> table_inv s' \<and>
    error s' = (if w_fid w = None \<and> status < 0 then status else 0) \<and>
    world s' = (if w_fid w \<noteq> None then world s
      else if 0 \<le> status \<and> w_dirf w \<noteq> 0 then os_close os (w_dirf w) x else x) \<and>
    by_fid s' = by_fid s \<and>
    (if w_fid w = None \<and> 0 \<le> status
     then watches s' = (watches s)(n := None) \<and>
        bt_get (by_wd s') = (bt_get (by_wd s))(w_wd w := None) \<and>
        bt_get (by_filename s') = (bt_get (by_filename s))(w_filename w := None)
     else watches s' = watches s \<and> by_wd s' = by_wd s \<and> by_filename s' = by_filename s)"
proof (cases "w_fid w = None \<and> 0 \<le> status")
  case False
  then show ?thesis
    using inv ini w kernel
    by (cases "w_fid w") (auto simp: remove_watch_def remove_inotify_watch_def watch_at_def sys_def ceprint_def table_inv_def)
next
  case True
  let ?t = "s\<lparr>error := 0, world := x\<rparr>"
  have t: "remove_inotify_watch os n s = Some (True, ?t)" "watches ?t n = Some w" "table_inv ?t"
    using True w kernel inv by (simp_all add: remove_inotify_watch_def watch_at_def sys_def)
  from destroy_watch_total [OF t(2)] obtain s' where d: "destroy_watch os n ?t = Some s'" by blast
  have "error s' = 0" "world s' = (if w_dirf w \<noteq> 0 then os_close os (w_dirf w) x else x)"
    using d t(2) by (auto simp: destroy_watch_def watch_at_def drop_watch_def sysw_def Let_def split: option.splits)
  then show ?thesis
    using True ini t(1) d destroy_watch_fields [OF t(2) d] destroy_watch_inv [OF t(3,2) d]
    by (intro exI [of _ s']) (simp add: remove_watch_def bt_get_remove)
qed

text \<open>C12.
  Removing a watch never panics and keeps the table invariant. It succeeds exactly when the watch is
  an inotify watch and the kernel's status is not negative: then the watch and its entries in the
  indexes are gone, its directory is closed, and nothing else has changed. When the kernel refuses,
  the table is untouched and \<open>error\<close> is the kernel's status. A fanotify watch is never removed: the
  call fails without asking the kernel, the table is untouched, and \<open>error\<close> is 0.\<close>

theorem remove_watch_correct:
  assumes inv: "table_inv s" and ini: "initialized s" and w: "watches s n = Some w"
    and kernel: "os_inotify_rm_watch os (fd s) (w_wd w) (world s) = ((status, e), x)"
  shows "\<exists>s'. remove_watch os (Some n) s = Some (w_fid w = None \<and> 0 \<le> status, s') \<and> table_inv s' \<and>
    error s' = (if w_fid w = None \<and> status < 0 then status else 0) \<and>
    world s' = (if w_fid w \<noteq> None then world s
      else if 0 \<le> status \<and> w_dirf w \<noteq> 0 then os_close os (w_dirf w) x else x) \<and>
    by_fid s' = by_fid s \<and>
    (if w_fid w = None \<and> 0 \<le> status
     then watches s' = (watches s)(n := None) \<and>
        bt_get (by_wd s') = (bt_get (by_wd s))(w_wd w := None) \<and>
        bt_get (by_filename s') = (bt_get (by_filename s))(w_filename w := None)
     else watches s' = watches s \<and> by_wd s' = by_wd s \<and> by_filename s' = by_filename s)"
  by (rule remove_watch_status [OF inv ini w kernel])

text \<open>A table with one watch, to evaluate the operations on.\<close>

definition one_watch :: "string \<Rightarrow> unit machine" where
  "one_watch f = register quiet_os 3 None f 0 ((machine_new ())\<lparr>initialized := True\<rparr>)"

lemma one_watch_facts:
  "table_inv (one_watch f)" "initialized (one_watch f)"
  "watches (one_watch f) = [1 \<mapsto> new_watch 3 None f 0]"
  "by_filename (one_watch f) = [(cstring f, 1)]" "by_wd (one_watch f) = [(3, 1)]"
proof -
  have "table_inv ((machine_new ())\<lparr>initialized := True\<rparr>)"
    using table_inv_new [of "()"] by (simp add: table_inv_def)
  then show "table_inv (one_watch f)"
    unfolding one_watch_def by (rule register_inv) simp
qed (simp_all add: one_watch_def register_def Let_def)

theorem remove_watch_correct_witness:
  "\<exists>s'. remove_watch quiet_os (Some 1) (one_watch ''/tmp'') = Some (True, s') \<and> table_inv s' \<and>
    error s' = 0 \<and> watches s' = Map.empty"
  using remove_watch_correct [OF one_watch_facts(1) [of "''/tmp''"] one_watch_facts(2),
    where n = 1 and os = quiet_os and w = "new_watch 3 None ''/tmp'' 0" and status = 0 and e = 0 and x = "()"]
  by (auto simp: one_watch_facts quiet_os_def)

subsection \<open>Renaming\<close>

lemma rename_watch_total: "watches s n = Some w \<Longrightarrow> \<exists>s'. rename_watch n name s = Some s'"
  by (simp add: rename_watch_def watch_at_def Let_def)

lemma rename_watch_fields:
  assumes "watches s n = Some w" and "rename_watch n name s = Some s'"
  shows "watches s' = (watches s)(n \<mapsto> w\<lparr>w_filename := cstring name\<rparr>)"
    and "by_filename s' = bt_insert (cstring name) n
      (if bt_get (by_filename s) (w_filename w) = Some n
       then bt_remove (w_filename w) (by_filename s) else by_filename s)"
    and "next_id s' = next_id s" "next_fanotify_wd s' = next_fanotify_wd s"
    and "by_wd s' = by_wd s" "by_fid s' = by_fid s"
  using assms by (auto simp: rename_watch_def watch_at_def Let_def)

lemma rename_watch_inv:
  assumes inv: "table_inv s" and w: "watches s n = Some w" and r: "rename_watch n name s = Some s'"
  shows "table_inv s'"
proof -
  note i = table_invD [OF inv] and f = rename_watch_fields [OF w r]
  have "name_ix.points (by_filename s') (watches s')"
    unfolding f by (rule name_ix.points_rekey [OF i(3) w]) simp_all
  moreover have "wd_ix.points (by_wd s') (watches s')"
    unfolding f by (rule wd_ix.points_update [OF i(1) w]) simp
  moreover have "fid_ix.points (by_fid s') (watches s')"
    unfolding f by (rule fid_ix.points_update [OF i(2) w]) simp
  ultimately show ?thesis
    using i(4-6) w by (auto simp: table_inv_def f watch_ok_def split: if_splits)
qed

text \<open>A filed watch moved to a free name: the one entry moves.\<close>

lemma rename_watch_moves:
  assumes inv: "table_inv s" and w: "watches s n = Some w"
    and filed: "bt_get (by_filename s) (w_filename w) = Some n"
    and free: "bt_get (by_filename s) (cstring name) = None"
    and r: "rename_watch n name s = Some s'"
  shows "bt_get (by_filename s') =
    (bt_get (by_filename s))(w_filename w := None, cstring name \<mapsto> n)"
proof -
  have "bt_wf (by_filename s)" using table_invD(3) [OF inv] by (rule name_ix.points_wf)
  with filed free show ?thesis
    by (auto simp: rename_watch_fields [OF w r] bt_get_insert bt_get_remove bt_wf_remove fun_eq_iff)
qed

text \<open>
  Renaming the watch of a name moves it: it keeps its identity, descriptor, fid and counters, the
  new name (if it was free) leads to it, the old one no longer does, and no other name changes.
\<close>

lemma set_filename_moves:
  assumes inv: "table_inv s" and old: "watch_from_filename s old = Some n"
    and free: "watch_from_filename s (cstring newname) = None"
  shows "\<exists>w s'. watches s n = Some w \<and> set_filename_by_filename old newname s = Some s' \<and>
    table_inv s' \<and> watches s' = (watches s)(n \<mapsto> w\<lparr>w_filename := cstring newname\<rparr>) \<and>
    watch_from_filename s' = (watch_from_filename s)(old := None, cstring newname \<mapsto> n) \<and>
    watch_from_wd s' = watch_from_wd s \<and> watch_from_fid s' = watch_from_fid s"
proof -
  from inv old obtain w where w: "watches s n = Some w" "w_filename w = old"
    by (rule watch_from_filename_found)
  from rename_watch_total [OF w(1)] obtain s' where r: "rename_watch n newname s = Some s'" by blast
  note f = rename_watch_fields [OF w(1) r]
  have "bt_get (by_filename s') = (bt_get (by_filename s))(old := None, cstring newname \<mapsto> n)"
    using rename_watch_moves [OF inv w(1) _ _ r] old free w(2) by (simp add: watch_from_filename_def)
  with w r old f rename_watch_inv [OF inv w(1) r] show ?thesis
    by (intro exI [of _ w] exI [of _ s'])
      (simp add: set_filename_by_filename_def watch_from_filename_def watch_from_wd_def
        watch_from_fid_def fun_eq_iff)
qed

subsection \<open>Moving a directory: \<open>replace_filename\<close>\<close>

text \<open>What the move does to one watch.\<close>

definition moved :: "string \<Rightarrow> string \<Rightarrow> watch \<Rightarrow> bool" where
  "moved old new w \<longleftrightarrow> starts_with (w_filename w) old \<and> w_filename w \<noteq> new"

definition move_name :: "string \<Rightarrow> string \<Rightarrow> watch \<Rightarrow> watch" where
  "move_name old new w =
     (if moved old new w
      then w\<lparr>w_filename := cstring (new @ drop (length old) (w_filename w))\<rparr> else w)"

lemma replace_entries_Cons:
  "watches s n = Some w \<Longrightarrow> moved old new w \<Longrightarrow>
     replace_entries (n # ns) old new s =
       Option.bind (rename_watch n (new @ drop (length old) (w_filename w)) s)
         (replace_entries ns old new)"
  "watches s n = Some w \<Longrightarrow> \<not> moved old new w \<Longrightarrow>
     replace_entries (n # ns) old new s = replace_entries ns old new s"
  "watches s n = None \<Longrightarrow> replace_entries (n # ns) old new s = replace_entries ns old new s"
  by (auto simp: moved_def Let_def)

lemma replace_entries_correct:
  "table_inv s \<Longrightarrow> distinct ns \<Longrightarrow>
     \<exists>s'. replace_entries ns old new s = Some s' \<and> table_inv s' \<and>
       by_wd s' = by_wd s \<and> by_fid s' = by_fid s \<and>
       (\<forall>n. watches s' n =
          (if n \<in> set ns then map_option (move_name old new) (watches s n) else watches s n))"
proof (induction ns arbitrary: s)
  case Nil
  then show ?case by simp
next
  case (Cons n ns)
  show ?case
  proof (cases "\<exists>w. watches s n = Some w \<and> moved old new w")
    case False
    then have "replace_entries (n # ns) old new s = replace_entries ns old new s"
      by (cases "watches s n") (auto simp: moved_def Let_def)
    with Cons False show ?thesis
      by (cases "watches s n") (fastforce simp: move_name_def simp del: replace_entries.simps)+
  next
    case True
    then obtain w where w: "watches s n = Some w" "moved old new w" by blast
    from rename_watch_total [OF w(1)] obtain t where
      t: "rename_watch n (new @ drop (length old) (w_filename w)) s = Some t" by blast
    note f = rename_watch_fields [OF w(1) t]
    from Cons.IH [OF rename_watch_inv [OF Cons.prems(1) w(1) t]] Cons.prems(2)
    obtain s' where s': "replace_entries ns old new t = Some s'" "table_inv s'"
      "by_wd s' = by_wd t" "by_fid s' = by_fid t"
      "\<forall>m. watches s' m =
        (if m \<in> set ns then map_option (move_name old new) (watches t m) else watches t m)"
      by auto
    have "replace_entries (n # ns) old new s = Some s'"
      using replace_entries_Cons(1) [OF w] t s'(1) by simp
    with s'(2-5) f Cons.prems(2) w show ?thesis
      by (auto simp: move_name_def)
  qed
qed

text \<open>The effect on the name index, when no target name is taken.\<close>

definition moving :: "'w machine \<Rightarrow> string \<Rightarrow> string \<Rightarrow> nat list \<Rightarrow> nat \<Rightarrow> string \<Rightarrow> bool" where
  "moving s old new ns n r \<longleftrightarrow>
     n \<in> set ns \<and> old @ r \<noteq> new \<and> map_option w_filename (watches s n) = Some (old @ r)"

lemma movingD:
  "moving s old new ns n r \<Longrightarrow> \<exists>w. watches s n = Some w \<and> w_filename w = old @ r"
  "moving s old new ns n r \<Longrightarrow> n \<in> set ns"
  by (auto simp: moving_def)

definition move_ready :: "'w machine \<Rightarrow> string \<Rightarrow> string \<Rightarrow> nat list \<Rightarrow> bool" where
  "move_ready s old new ns \<longleftrightarrow>
     (\<forall>n r. moving s old new ns n r \<longrightarrow>
        bt_get (by_filename s) (old @ r) = Some n \<and> bt_get (by_filename s) (new @ r) = None)"

lemma move_ready_skip:
  "move_ready s old new (n # ns) \<Longrightarrow> move_ready s old new ns"
proof -
  have "moving s old new ns k q \<Longrightarrow> moving s old new (n # ns) k q" for k q
    by (simp add: moving_def)
  then show "move_ready s old new (n # ns) \<Longrightarrow> move_ready s old new ns"
    unfolding move_ready_def by blast
qed

lemma rename_moving:
  assumes inv: "table_inv s" and m: "moving s old new ns n r" and ready: "move_ready s old new ns"
    and nul: "NUL \<notin> set new"
    and t: "rename_watch n (new @ r) s = Some t"
  shows "bt_get (by_filename t) = (bt_get (by_filename s))(old @ r := None, new @ r \<mapsto> n)"
    and "m \<noteq> n \<Longrightarrow> watches t m = watches s m"
proof -
  from movingD(1) [OF m] obtain w where w: "watches s n = Some w" "w_filename w = old @ r" by blast
  from table_invD(4) [OF inv w(1)] w(2) nul have c: "cstring (new @ r) = new @ r"
    by (simp add: watch_ok_def cstring_id)
  from ready m have "bt_get (by_filename s) (old @ r) = Some n" "bt_get (by_filename s) (new @ r) = None"
    by (auto simp: move_ready_def)
  then show "bt_get (by_filename t) = (bt_get (by_filename s))(old @ r := None, new @ r \<mapsto> n)"
    using rename_watch_moves [OF inv w(1) _ _ t] w(2) c by simp
  show "m \<noteq> n \<Longrightarrow> watches t m = watches s m"
    using rename_watch_fields(1) [OF w(1) t] by simp
qed

lemma move_ready_step:
  assumes inv: "table_inv s" and m: "moving s old new (n # ns) n r" and d: "n \<notin> set ns"
    and ready: "move_ready s old new (n # ns)" and nul: "NUL \<notin> set new"
    and t: "rename_watch n (new @ r) s = Some t"
  shows "move_ready t old new ns"
    and "moving t old new ns n' r' = moving s old new ns n' r'"
    and "moving s old new ns n' r' \<Longrightarrow> old @ r' \<noteq> old @ r \<and> new @ r' \<noteq> old @ r \<and> old @ r' \<noteq> new @ r"
proof -
  note f = rename_moving [OF inv m ready nul t]
  have eq: "moving t old new ns k q = moving s old new ns k q" for k q
    using d f(2) [of k] by (cases "k = n") (simp_all add: moving_def)
  have ne: "old @ q \<noteq> old @ r \<and> new @ q \<noteq> old @ r \<and> old @ q \<noteq> new @ r"
    if "moving s old new ns k q" for k q
  proof -
    from that have "moving s old new (n # ns) k q" "k \<noteq> n" using d by (auto simp: moving_def)
    with m ready have "bt_get (by_filename s) (old @ q) = Some k"
      "bt_get (by_filename s) (new @ q) = None" "bt_get (by_filename s) (old @ r) = Some n"
      "bt_get (by_filename s) (new @ r) = None" by (auto simp: move_ready_def)
    with \<open>k \<noteq> n\<close> show ?thesis by auto
  qed
  show "moving t old new ns n' r' = moving s old new ns n' r'" by (rule eq)
  show "moving s old new ns n' r' \<Longrightarrow> old @ r' \<noteq> old @ r \<and> new @ r' \<noteq> old @ r \<and> old @ r' \<noteq> new @ r"
    by (rule ne)
  show "move_ready t old new ns"
    unfolding move_ready_def eq f(1)
  proof (intro allI impI)
    fix k q
    assume k: "moving s old new ns k q"
    with ne [OF k] move_ready_skip [OF ready]
    show "((bt_get (by_filename s))(old @ r := None, new @ r \<mapsto> n)) (old @ q) = Some k \<and>
      ((bt_get (by_filename s))(old @ r := None, new @ r \<mapsto> n)) (new @ q) = None"
      by (auto simp: move_ready_def)
  qed
qed

lemma replace_entries_index:
  "table_inv s \<Longrightarrow> distinct ns \<Longrightarrow> move_ready s old new ns \<Longrightarrow> NUL \<notin> set new \<Longrightarrow>
     replace_entries ns old new s = Some s' \<Longrightarrow>
     (\<forall>n r. moving s old new ns n r \<longrightarrow>
        bt_get (by_filename s') (new @ r) = Some n \<and> bt_get (by_filename s') (old @ r) = None) \<and>
     (\<forall>k. (\<forall>n r. moving s old new ns n r \<longrightarrow> k \<noteq> old @ r \<and> k \<noteq> new @ r) \<longrightarrow>
        bt_get (by_filename s') k = bt_get (by_filename s) k)"
proof (induction ns arbitrary: s)
  case Nil
  then show ?case by (simp add: moving_def)
next
  case (Cons n ns)
  show ?case
  proof (cases "\<exists>r. moving s old new (n # ns) n r")
    case False
    then have "\<not> (\<exists>w. watches s n = Some w \<and> moved old new w)"
      by (auto simp: moving_def moved_def elim!: starts_withE)
    then have "replace_entries (n # ns) old new s = replace_entries ns old new s"
      by (cases "watches s n") (auto simp: moved_def Let_def)
    moreover from False have "moving s old new (n # ns) = moving s old new ns"
      by (auto simp: moving_def fun_eq_iff)
    ultimately show ?thesis
      using Cons.IH [of s] Cons.prems move_ready_skip [of s old new n ns] by simp
  next
    case True
    then obtain r where m: "moving s old new (n # ns) n r" by blast
    then obtain w where w: "watches s n = Some w" "w_filename w = old @ r" "old @ r \<noteq> new"
      by (auto simp: moving_def)
    from Cons.prems(5) w obtain t where t: "rename_watch n (new @ r) s = Some t"
      "replace_entries ns old new t = Some s'"
      by (auto simp: Let_def split: bind_splits)
    from Cons.prems(2) have d: "n \<notin> set ns" "distinct ns" by auto
    note f = rename_moving [OF Cons.prems(1) m Cons.prems(3,4) t(1)]
    note step = move_ready_step [OF Cons.prems(1) m d(1) Cons.prems(3,4) t(1)]
    have IH: "\<forall>n' r'. moving s old new ns n' r' \<longrightarrow>
        bt_get (by_filename s') (new @ r') = Some n' \<and> bt_get (by_filename s') (old @ r') = None"
      "\<forall>k. (\<forall>n' r'. moving s old new ns n' r' \<longrightarrow> k \<noteq> old @ r' \<and> k \<noteq> new @ r') \<longrightarrow>
        bt_get (by_filename s') k = bt_get (by_filename t) k"
      using Cons.IH [OF rename_watch_inv [OF Cons.prems(1) w(1) t(1)] d(2) step(1) Cons.prems(4) t(2)]
      by (auto simp: step(2))
    have head: "moving s old new (n # ns) k q \<longleftrightarrow> k = n \<and> q = r \<or> moving s old new ns k q" for k q
      using w m by (auto simp: moving_def)
    have "new @ r \<noteq> old @ r' \<and> new @ r \<noteq> new @ r' \<and> old @ r \<noteq> old @ r' \<and> old @ r \<noteq> new @ r'"
      if "moving s old new ns n' r'" for n' r'
      using step(3) [OF that] by (simp only: same_append_eq) (simp add: eq_commute)
    then have "bt_get (by_filename s') (new @ r) = bt_get (by_filename t) (new @ r)"
      "bt_get (by_filename s') (old @ r) = bt_get (by_filename t) (old @ r)"
      using IH(2) by blast+
    moreover from Cons.prems(3) m have "bt_get (by_filename s) (old @ r) \<noteq> bt_get (by_filename s) (new @ r)"
      by (auto simp: move_ready_def)
    ultimately have "bt_get (by_filename s') (new @ r) = Some n" "bt_get (by_filename s') (old @ r) = None"
      using f(1) by auto
    moreover have "bt_get (by_filename s') k = bt_get (by_filename s) k"
      if "\<forall>n' r'. moving s old new (n # ns) n' r' \<longrightarrow> k \<noteq> old @ r' \<and> k \<noteq> new @ r'" for k
      using that IH(2) f(1) by (auto simp: head)
    ultimately show ?thesis
      using IH(1) by (auto simp: head)
  qed
qed

lemma replace_filename_renames:
  assumes inv: "table_inv s" and ne: "oldname \<noteq> []" "newname \<noteq> []"
  shows "\<exists>s'. replace_filename oldname newname s = Some s' \<and> table_inv s' \<and>
    by_wd s' = by_wd s \<and> by_fid s' = by_fid s \<and>
    (\<forall>n. watches s' n =
       (if \<exists>name. watch_from_filename s name = Some n
        then map_option (move_name oldname newname) (watches s n) else watches s n))"
proof -
  note p = table_invD(3) [OF inv]
  have v: "n \<in> set (bt_values (by_filename s)) \<longleftrightarrow> (\<exists>name. watch_from_filename s name = Some n)" for n
    by (simp add: in_bt_values [OF name_ix.points_wf [OF p]] watch_from_filename_def)
  from replace_entries_correct [OF inv name_ix.points_distinct [OF p], of oldname newname] ne
  show ?thesis
    by (simp add: replace_filename_def v)
qed

text \<open>C13.
  Moving a directory renames exactly the named watches below it, and no watch twice: for every
  such watch the prefix \<open>oldname\<close> becomes \<open>newname\<close> (a watch already called \<open>newname\<close> is left),
  and no descriptor or fid entry changes.\<close>

theorem replace_filename_correct:
  assumes inv: "table_inv s" and ne: "oldname \<noteq> []" "newname \<noteq> []"
  shows "\<exists>s'. replace_filename oldname newname s = Some s' \<and> table_inv s' \<and>
    by_wd s' = by_wd s \<and> by_fid s' = by_fid s \<and>
    (\<forall>n. watches s' n =
       (if \<exists>name. watch_from_filename s name = Some n
        then map_option (move_name oldname newname) (watches s n) else watches s n))"
  using inv ne by (rule replace_filename_renames)

theorem replace_filename_correct_witness:
  "\<exists>s'. replace_filename ''/a/'' ''/b/'' (one_watch ''/a/x'') = Some s' \<and>
    watches s' 1 = Some (new_watch 3 None ''/b/x'' 0)"
proof -
  have "watch_from_filename (one_watch ''/a/x'') ''/a/x'' = Some 1"
    by (simp add: watch_from_filename_def one_watch_facts bt_get_def cstring_def)
  with replace_filename_correct [OF one_watch_facts(1), of "''/a/''" "''/b/''" "''/a/x''"]
  show ?thesis
    by (auto simp: one_watch_facts move_name_def moved_def new_watch_def starts_with_def cstring_def)
qed

lemma replace_filename_index:
  assumes inv: "table_inv s" and ne: "oldname \<noteq> []" "newname \<noteq> []" "NUL \<notin> set newname"
    and free: "\<And>r. watch_from_filename s (oldname @ r) \<noteq> None \<Longrightarrow>
      watch_from_filename s (newname @ r) = None"
    and s': "replace_filename oldname newname s = Some s'"
  shows "(\<forall>r n. watch_from_filename s (oldname @ r) = Some n \<and> oldname @ r \<noteq> newname \<longrightarrow>
      watch_from_filename s' (newname @ r) = Some n \<and> watch_from_filename s' (oldname @ r) = None) \<and>
    (\<forall>k. \<not> starts_with k oldname \<and> \<not> starts_with k newname \<longrightarrow>
      watch_from_filename s' k = watch_from_filename s k)"
proof -
  note p = table_invD(3) [OF inv]
  let ?ns = "bt_values (by_filename s)"
  have mv: "moving s oldname newname ?ns n r \<longleftrightarrow>
      watch_from_filename s (oldname @ r) = Some n \<and> oldname @ r \<noteq> newname" for n r
    using name_ix.pointsD [OF p]
    by (fastforce simp: moving_def in_bt_values [OF name_ix.points_wf [OF p]] watch_from_filename_def)
  have "move_ready s oldname newname ?ns"
    using free by (auto simp: move_ready_def mv) (simp_all add: watch_from_filename_def)
  moreover have "replace_entries ?ns oldname newname s = Some s'"
    using s' ne by (simp add: replace_filename_def)
  ultimately have idx: "(\<forall>n r. moving s oldname newname ?ns n r \<longrightarrow>
        bt_get (by_filename s') (newname @ r) = Some n \<and> bt_get (by_filename s') (oldname @ r) = None) \<and>
     (\<forall>k. (\<forall>n r. moving s oldname newname ?ns n r \<longrightarrow> k \<noteq> oldname @ r \<and> k \<noteq> newname @ r) \<longrightarrow>
        bt_get (by_filename s') k = bt_get (by_filename s) k)"
    using replace_entries_index [OF inv name_ix.points_distinct [OF p]] ne(3) by blast
  have other: "watch_from_filename s' k = watch_from_filename s k"
    if "\<not> starts_with k oldname" "\<not> starts_with k newname" for k
  proof -
    from that have "k \<noteq> oldname @ r" "k \<noteq> newname @ r" for r by auto
    with idx show ?thesis by (simp add: watch_from_filename_def)
  qed
  from idx have "watch_from_filename s' (newname @ r) = Some n \<and> watch_from_filename s' (oldname @ r) = None"
    if "watch_from_filename s (oldname @ r) = Some n" "oldname @ r \<noteq> newname" for r n
    using that by (simp add: mv) (simp add: watch_from_filename_def)
  with other show ?thesis by blast
qed

end
