(* ===== verification/Counters.thy ===== *)
theory Counters
  imports WatchTable "HOL-Library.Multiset"
begin

text \<open>
  Statistics on the watch table (\<open>inotify.rs\<close>, "Statistics"): counting an event on its watch and
  in the totals, resetting, reading counters, and the list of watches sorted by a counter.
\<close>

subsection \<open>Counting and reading\<close>

definition record_stats :: "int \<Rightarrow> u32 \<Rightarrow> 'w machine \<Rightarrow> 'w machine" where
  "record_stats wd m s =
     (case watch_from_wd s wd of
        None \<Rightarrow> s
      | Some n \<Rightarrow>
          let s = (case watches s n of
                     None \<Rightarrow> s
                   | Some w \<Rightarrow> s\<lparr>watches := (watches s)
                       (n \<mapsto> w\<lparr>w_stats := stats_record (w_stats w) m\<rparr>)\<rparr>)
          in s\<lparr>totals := stats_record (totals s) m\<rparr>)"

fun reset_all :: "nat list \<Rightarrow> (nat \<rightharpoonup> watch) \<Rightarrow> (nat \<rightharpoonup> watch)" where
  "reset_all [] ws = ws"
| "reset_all (n # ns) ws =
     reset_all ns (case ws n of None \<Rightarrow> ws | Some w \<Rightarrow> ws(n \<mapsto> w\<lparr>w_stats := stats_default\<rparr>))"

definition initialize_stats :: "'w machine \<Rightarrow> 'w machine" where
  "initialize_stats s =
     (let s = assert_init s;
          s = (if collect_stats s then s\<lparr>watches := reset_all (bt_values (by_wd s)) (watches s)\<rparr> else s)
      in s\<lparr>totals := stats_default, collect_stats := True\<rparr>)"

text \<open>A counter as the C \<open>int\<close> the API returns.\<close>

definition stat_int :: "u32 option \<Rightarrow> int" where
  "stat_int v = (case v of Some v \<Rightarrow> sint v | None \<Rightarrow> -1)"

definition get_stat_by_wd :: "int \<Rightarrow> u32 \<Rightarrow> 'w machine \<Rightarrow> int option" where
  "get_stat_by_wd wd event s =
     (if \<not> collect_stats s then Some (-1)
      else case watch_from_wd s wd of
             None \<Rightarrow> Some (-1)
           | Some n \<Rightarrow> do { w \<leftarrow> watch_at s n; Some (stat_int (stats_get (w_stats w) event)) })"

definition get_stat_total :: "u32 \<Rightarrow> 'w machine \<Rightarrow> int" where
  "get_stat_total event s =
     (if \<not> collect_stats s then -1 else stat_int (stats_get (totals s) event))"

definition get_stat_by_filename :: "string \<Rightarrow> u32 \<Rightarrow> 'w machine \<Rightarrow> (int \<times> 'w machine) option" where
  "get_stat_by_filename filename event s = do {
     (wd, s) \<leftarrow> wd_from_filename filename s;
     v \<leftarrow> get_stat_by_wd wd event s;
     Some (v, s)
   }"

subsection \<open>Sorting by a counter\<close>

text \<open>A stable sort by a comparison, as \<open>slice::sort_by\<close> is.\<close>

fun insert_by :: "('a \<Rightarrow> 'a \<Rightarrow> bool) \<Rightarrow> 'a \<Rightarrow> 'a list \<Rightarrow> 'a list" where
  "insert_by le x [] = [x]"
| "insert_by le x (y # ys) = (if le x y then x # y # ys else y # insert_by le x ys)"

definition sort_by :: "('a \<Rightarrow> 'a \<Rightarrow> bool) \<Rightarrow> 'a list \<Rightarrow> 'a list" where
  "sort_by le xs = foldr (insert_by le) xs []"

text \<open>The event and the direction that the argument stands for (\<open>wrapping_neg\<close> on \<open>i32\<close>).\<close>

definition sort_order :: "int \<Rightarrow> u32 \<times> bool" where
  "sort_order sort_event =
     (if sort_event = -1 then (0, False)
      else if sort_event < 0 then (word_of_int (wrap32 (- sort_event)), False)
      else (word_of_int sort_event, True))"

definition stat_or_0 :: "u32 \<Rightarrow> watch \<Rightarrow> u32" where
  "stat_or_0 event w = (case stats_get (w_stats w) event of Some v \<Rightarrow> v | None \<Rightarrow> 0)"

text \<open>The comparison: less or equal.\<close>

definition watch_le :: "u32 \<Rightarrow> bool \<Rightarrow> nat \<times> watch \<Rightarrow> nat \<times> watch \<Rightarrow> bool" where
  "watch_le event asc a b =
     (let i1 = stat_or_0 event (snd a); i2 = stat_or_0 event (snd b)
      in if i1 = i2 then w_wd (snd a) \<le> w_wd (snd b)
         else if asc then i1 \<le> i2 else i2 \<le> i1)"

fun watches_at :: "'w machine \<Rightarrow> nat list \<Rightarrow> (nat \<times> watch) list option" where
  "watches_at s [] = Some []"
| "watches_at s (n # ns) = do {
     w \<leftarrow> watch_at s n;
     ws \<leftarrow> watches_at s ns;
     Some ((n, w) # ws)
   }"

definition watches_sorted_by_event :: "int \<Rightarrow> 'w machine \<Rightarrow> (nat \<times> watch_stats) list option" where
  "watches_sorted_by_event sort_event s = do {
     let (event, asc) = sort_order sort_event;
     ws \<leftarrow> watches_at s (bt_values (by_wd s));
     Some (map (\<lambda>(n, w). (n, w_stats w)) (sort_by (watch_le event asc) ws))
   }"

subsection \<open>Lemmas\<close>

lemma record_stats_fields [simp]:
  "by_wd (record_stats wd m s) = by_wd s" "by_fid (record_stats wd m s) = by_fid s"
  "by_filename (record_stats wd m s) = by_filename s" "next_id (record_stats wd m s) = next_id s"
  "next_fanotify_wd (record_stats wd m s) = next_fanotify_wd s"
  "initialized (record_stats wd m s) = initialized s" "evstr (record_stats wd m s) = evstr s"
  "evbuf (record_stats wd m s) = evbuf s" "first_byte (record_stats wd m s) = first_byte s"
  "bytes (record_stats wd m s) = bytes s" "ret_off (record_stats wd m s) = ret_off s"
  "world (record_stats wd m s) = world s" "fanotify_mode (record_stats wd m s) = fanotify_mode s"
  "regex (record_stats wd m s) = regex s" "collect_stats (record_stats wd m s) = collect_stats s"
  "self_pid (record_stats wd m s) = self_pid s"
  by (simp_all add: record_stats_def Let_def split: option.splits)

lemma record_stats_inv:
  assumes inv: "table_inv s"
  shows "table_inv (record_stats wd m s)"
proof (cases "watch_from_wd s wd")
  case None
  with inv show ?thesis by (simp add: record_stats_def)
next
  case (Some n)
  with inv obtain w where w: "watches s n = Some w" by (rule watch_from_wd_found)
  let ?w = "w\<lparr>w_stats := stats_record (w_stats w) m\<rparr>"
  note i = table_invD [OF inv]
  have ws: "watches (record_stats wd m s) = (watches s)(n \<mapsto> ?w)"
    using Some w by (simp add: record_stats_def)
  have "wd_ix.points (by_wd s) ((watches s)(n \<mapsto> ?w))"
    by (rule wd_ix.points_update [OF i(1) w]) simp
  moreover have "fid_ix.points (by_fid s) ((watches s)(n \<mapsto> ?w))"
    by (rule fid_ix.points_update [OF i(2) w]) simp
  moreover have "name_ix.points (by_filename s) ((watches s)(n \<mapsto> ?w))"
    by (rule name_ix.points_update [OF i(3) w]) simp
  ultimately show ?thesis
    using i(4-6) w by (auto simp: table_inv_def ws watch_ok_def split: if_splits)
qed

lemma reset_all_eq:
  "reset_all ns ws n =
     (if n \<in> set ns then map_option (\<lambda>w. w\<lparr>w_stats := stats_default\<rparr>) (ws n) else ws n)"
  by (induction ns arbitrary: ws) (auto split: option.splits)

lemma insert_by_mset: "mset (insert_by le x xs) = add_mset x (mset xs)"
  by (induction xs) auto

lemma sort_by_mset: "mset (sort_by le xs) = mset xs"
  by (induction xs) (auto simp: sort_by_def insert_by_mset)

lemma insert_by_sorted:
  assumes total: "\<And>a b. le a b \<or> le b a" and trans: "\<And>a b c. le a b \<Longrightarrow> le b c \<Longrightarrow> le a c"
  shows "sorted_wrt le xs \<Longrightarrow> sorted_wrt le (insert_by le x xs)"
proof (induction xs)
  case Nil
  then show ?case by simp
next
  case (Cons y ys)
  have "set (insert_by le x ys) = insert x (set ys)"
    using insert_by_mset [of le x ys] by (metis set_mset_add_mset_insert set_mset_mset)
  with Cons total show ?case
    by (auto intro: trans)
qed

lemma sort_by_sorted:
  assumes "\<And>a b. le a b \<or> le b a" and "\<And>a b c. le a b \<Longrightarrow> le b c \<Longrightarrow> le a c"
  shows "sorted_wrt le (sort_by le xs)"
proof (induction xs)
  case Nil
  then show ?case by (simp add: sort_by_def)
next
  case (Cons x xs)
  from insert_by_sorted [of le, OF assms Cons] show ?case by (simp add: sort_by_def)
qed

lemma watch_le_total: "watch_le event asc a b \<or> watch_le event asc b a"
  by (auto simp: watch_le_def Let_def)

lemma watch_le_trans: "watch_le event asc a b \<Longrightarrow> watch_le event asc b c \<Longrightarrow> watch_le event asc a c"
  by (auto simp: watch_le_def Let_def split: if_splits)

lemma watches_at_total:
  "(\<And>n. n \<in> set ns \<Longrightarrow> watches s n \<noteq> None) \<Longrightarrow>
     watches_at s ns = Some (map (\<lambda>n. (n, the (watches s n))) ns)"
proof (induction ns)
  case Nil
  then show ?case by simp
next
  case (Cons n ns)
  then obtain w where "watches s n = Some w" by fastforce
  with Cons show ?case by (simp add: watch_at_def)
qed

lemma sorted_wrt_weaken: "sorted_wrt P xs \<Longrightarrow> (\<And>x y. P x y \<Longrightarrow> Q x y) \<Longrightarrow> sorted_wrt Q xs"
  by (induction xs) auto

subsection \<open>Sorted listings\<close>

lemma watches_sorted_lemma:
  assumes inv: "table_inv s" and order: "sort_order sort_event = (event, asc)"
  shows "\<exists>ws. watches_sorted_by_event sort_event s = Some (map (\<lambda>(n, w). (n, w_stats w)) ws) \<and>
    distinct (map fst ws) \<and>
    (\<forall>n w. (n, w) \<in> set ws \<longleftrightarrow> watches s n = Some w \<and> watch_from_wd s (w_wd w) = Some n) \<and>
    sorted_wrt (\<lambda>(_, a) (_, b). if asc then stat_or_0 event a \<le> stat_or_0 event b
      else stat_or_0 event b \<le> stat_or_0 event a) ws \<and>
    sorted_wrt (\<lambda>(_, a) (_, b). stat_or_0 event a = stat_or_0 event b \<longrightarrow> w_wd a \<le> w_wd b) ws"
proof -
  note p = table_invD(1) [OF inv]
  let ?ns = "bt_values (by_wd s)"
  let ?xs = "map (\<lambda>n. (n, the (watches s n))) ?ns"
  let ?ws = "sort_by (watch_le event asc) ?xs"
  have at: "watches_at s ?ns = Some ?xs"
    by (rule watches_at_total) (rule wd_ix.points_vals [OF p])
  have mset: "mset ?ws = mset ?xs" by (rule sort_by_mset)
  have set: "set ?ws = set ?xs" by (rule mset_eq_setD [OF mset])
  have "distinct (map fst ?xs)"
    using wd_ix.points_distinct [OF p] by (simp add: comp_def)
  moreover have "mset (map fst ?ws) = mset (map fst ?xs)"
    by (simp only: mset_map mset)
  ultimately have distinct: "distinct (map fst ?ws)"
    using mset_eq_imp_distinct_iff [of "map fst ?ws" "map fst ?xs"] by blast
  have in_ws: "(n, w) \<in> set ?ws \<longleftrightarrow> watches s n = Some w \<and> watch_from_wd s (w_wd w) = Some n" for n w
  proof -
    have ns: "n \<in> set ?ns \<longleftrightarrow> (\<exists>wd. bt_get (by_wd s) wd = Some n)"
      by (rule in_bt_values [OF wd_ix.points_wf [OF p]])
    have "(n, w) \<in> set ?ws \<longleftrightarrow> n \<in> set ?ns \<and> w = the (watches s n)"
      unfolding set by auto
    also have "\<dots> \<longleftrightarrow> watches s n = Some w \<and> bt_get (by_wd s) (w_wd w) = Some n"
    proof
      assume *: "n \<in> set ?ns \<and> w = the (watches s n)"
      then obtain wd where wd: "bt_get (by_wd s) wd = Some n" using ns by blast
      with wd_ix.pointsD [OF p wd] * show "watches s n = Some w \<and> bt_get (by_wd s) (w_wd w) = Some n"
        by auto
    next
      assume "watches s n = Some w \<and> bt_get (by_wd s) (w_wd w) = Some n"
      with ns show "n \<in> set ?ns \<and> w = the (watches s n)" by auto
    qed
    finally show ?thesis by (simp only: watch_from_wd_def)
  qed
  have sorted: "sorted_wrt (watch_le event asc) ?ws"
    by (rule sort_by_sorted) (rule watch_le_total, rule watch_le_trans)
  have "sorted_wrt (\<lambda>(_, a) (_, b). if asc then stat_or_0 event a \<le> stat_or_0 event b
      else stat_or_0 event b \<le> stat_or_0 event a) ?ws"
    by (rule sorted_wrt_weaken [OF sorted]) (auto simp: watch_le_def Let_def split: if_splits)
  moreover have "sorted_wrt (\<lambda>(_, a) (_, b). stat_or_0 event a = stat_or_0 event b \<longrightarrow> w_wd a \<le> w_wd b) ?ws"
    by (rule sorted_wrt_weaken [OF sorted]) (auto simp: watch_le_def Let_def split: if_splits)
  moreover have "watches_sorted_by_event sort_event s = Some (map (\<lambda>(n, w). (n, w_stats w)) ?ws)"
    by (simp add: watches_sorted_by_event_def order at)
  ultimately show ?thesis using distinct in_ws by blast
qed

text \<open>C23.
  The listing holds every watch that has a descriptor entry exactly once, with its counters, in
  the order asked for: ascending or descending by the chosen counter, equal counters by
  descriptor.\<close>

theorem watches_sorted_correct:
  assumes inv: "table_inv s" and order: "sort_order sort_event = (event, asc)"
  shows "\<exists>ws. watches_sorted_by_event sort_event s = Some (map (\<lambda>(n, w). (n, w_stats w)) ws) \<and>
    distinct (map fst ws) \<and>
    (\<forall>n w. (n, w) \<in> set ws \<longleftrightarrow> watches s n = Some w \<and> watch_from_wd s (w_wd w) = Some n) \<and>
    sorted_wrt (\<lambda>(_, a) (_, b). if asc then stat_or_0 event a \<le> stat_or_0 event b
      else stat_or_0 event b \<le> stat_or_0 event a) ws \<and>
    sorted_wrt (\<lambda>(_, a) (_, b). stat_or_0 event a = stat_or_0 event b \<longrightarrow> w_wd a \<le> w_wd b) ws"
  using inv order by (rule watches_sorted_lemma)

theorem watches_sorted_correct_witness:
  "\<exists>ws. watches_sorted_by_event (-1) (one_watch ''/a'') = Some (map (\<lambda>(n, w). (n, w_stats w)) ws) \<and>
    (1, new_watch 3 None ''/a'' 0) \<in> set ws"
proof -
  have "sort_order (-1) = (0, False)" by (simp add: sort_order_def)
  from watches_sorted_correct [OF one_watch_facts(1) this, of "''/a''"] show ?thesis
    by (auto simp: one_watch_facts watch_from_wd_def bt_get_def)
qed

subsection \<open>Counting a sequence of events\<close>

definition record_all :: "(int \<times> u32) list \<Rightarrow> 'w machine \<Rightarrow> 'w machine" where
  "record_all evs s = foldl (\<lambda>s (wd, m). record_stats wd m s) s evs"

definition masks_of :: "int \<Rightarrow> (int \<times> u32) list \<Rightarrow> u32 list" where
  "masks_of wd evs = map snd (filter (\<lambda>e. fst e = wd) evs)"

lemma record_all_Cons: "record_all ((wd, m) # evs) s = record_all evs (record_stats wd m s)"
  by (simp add: record_all_def)

lemma record_all_fields:
  "by_wd (record_all evs s) = by_wd s" "collect_stats (record_all evs s) = collect_stats s"
  by (induction evs arbitrary: s) (auto simp: record_all_def)

text \<open>Counting looks at the table and the counters only.\<close>

definition same_counts :: "'w machine \<Rightarrow> 'w machine \<Rightarrow> bool" where
  "same_counts s t \<longleftrightarrow>
     watches t = watches s \<and> by_wd t = by_wd s \<and> totals t = totals s \<and> collect_stats t = collect_stats s"

lemma same_counts_refl [simp]: "same_counts s s"
  by (simp add: same_counts_def)

lemma same_counts_trans: "same_counts s t \<Longrightarrow> same_counts t u \<Longrightarrow> same_counts s u"
  by (simp add: same_counts_def)

lemma same_counts_record: "same_counts s t \<Longrightarrow> same_counts (record_stats wd m s) (record_stats wd m t)"
  by (auto simp: same_counts_def record_stats_def watch_from_wd_def Let_def split: option.splits)

lemma same_counts_record_all: "same_counts s t \<Longrightarrow> same_counts (record_all evs s) (record_all evs t)"
proof (induction evs arbitrary: s t)
  case Nil
  then show ?case by (simp add: record_all_def)
next
  case (Cons e evs)
  then show ?case by (cases e) (simp add: record_all_Cons same_counts_record)
qed

lemma record_stats_watch:
  assumes inv: "table_inv s" and n: "watch_from_wd s wd = Some n" and w: "watches s n = Some w"
  shows "watches (record_stats wd' m s) n =
    Some (if wd' = wd then w\<lparr>w_stats := stats_record (w_stats w) m\<rparr> else w)"
proof (cases "wd' = wd")
  case True
  with n w show ?thesis by (simp add: record_stats_def)
next
  case False
  have "n' \<noteq> n" if "watch_from_wd s wd' = Some n'" for n'
    using wd_ix.points_inj [OF table_invD(1) [OF inv]] n that False
    by (auto simp: watch_from_wd_def)
  with False w show ?thesis
    by (auto simp: record_stats_def Let_def split: option.splits)
qed

lemma record_all_watch:
  "table_inv s \<Longrightarrow> watch_from_wd s wd = Some n \<Longrightarrow> watches s n = Some w \<Longrightarrow>
     \<exists>w'. watches (record_all evs s) n = Some w' \<and>
       w_stats w' = stats_replay (w_stats w) (masks_of wd evs)"
proof (induction evs arbitrary: s w)
  case Nil
  then show ?case by (simp add: record_all_def masks_of_def)
next
  case (Cons e evs)
  obtain wd' m where e: "e = (wd', m)" by (cases e)
  have "watch_from_wd (record_stats wd' m s) wd = Some n"
    using Cons.prems(2) by (simp add: watch_from_wd_def)
  from Cons.IH [OF record_stats_inv [OF Cons.prems(1)] this record_stats_watch [OF Cons.prems]]
  show ?case
    by (auto simp: e record_all_Cons masks_of_def split: if_splits)
qed

lemma record_all_totals:
  "totals (record_all evs s) =
     stats_replay (totals s) (map snd (filter (\<lambda>e. watch_from_wd s (fst e) \<noteq> None) evs))"
proof (induction evs arbitrary: s)
  case Nil
  then show ?case by (simp add: record_all_def)
next
  case (Cons e evs)
  obtain wd m where e: "e = (wd, m)" by (cases e)
  have "watch_from_wd (record_stats wd m s) = watch_from_wd s"
    by (simp add: watch_from_wd_def fun_eq_iff)
  with Cons show ?case
    by (auto simp: e record_all_Cons record_stats_def Let_def split: option.splits)
qed

lemma initialize_stats_watch:
  assumes "table_inv s" and "initialized s" and "collect_stats s"
    and "watch_from_wd s wd = Some n" and "watches s n = Some w"
  shows "watches (initialize_stats s) n = Some (w\<lparr>w_stats := stats_default\<rparr>)"
proof -
  have "n \<in> set (bt_values (by_wd s))"
    using assms(4) in_bt_values [OF wd_ix.points_wf [OF table_invD(1) [OF assms(1)]]]
    by (auto simp: watch_from_wd_def)
  with assms show ?thesis
    by (simp add: initialize_stats_def Let_def reset_all_eq)
qed

lemma initialize_stats_inv:
  assumes inv: "table_inv s" and ini: "initialized s"
  shows "table_inv (initialize_stats s)"
proof -
  note i = table_invD [OF inv]
  have eq: "watches (initialize_stats s) n = map_option (\<lambda>w. if collect_stats s \<and>
      n \<in> set (bt_values (by_wd s)) then w\<lparr>w_stats := stats_default\<rparr> else w) (watches s n)" for n
    using ini by (cases "watches s n") (simp_all add: initialize_stats_def Let_def reset_all_eq)
  have f: "by_wd (initialize_stats s) = by_wd s" "by_fid (initialize_stats s) = by_fid s"
    "by_filename (initialize_stats s) = by_filename s" "next_id (initialize_stats s) = next_id s"
    "next_fanotify_wd (initialize_stats s) = next_fanotify_wd s"
    using ini by (simp_all add: initialize_stats_def Let_def)
  have "wd_ix.points (by_wd s) (watches (initialize_stats s))"
    by (rule wd_ix.points_change [OF i(1)]) (simp add: eq)
  moreover have "fid_ix.points (by_fid s) (watches (initialize_stats s))"
    by (rule fid_ix.points_change [OF i(2)]) (simp add: eq)
  moreover have "name_ix.points (by_filename s) (watches (initialize_stats s))"
    by (rule name_ix.points_change [OF i(3)]) (simp add: eq)
  ultimately show ?thesis
    using i(4-6) by (auto simp: table_inv_def f eq watch_ok_def)
qed

text \<open>C22.
  Statistics are exact per watch: after a reset and a sequence of events, the counter of an event
  on a watched descriptor is the number of the events of that descriptor that have its bit, and
  the overall counter is the number of those of all watched descriptors (as 32-bit values read as
  C integers); events of unknown descriptors count nowhere.\<close>

theorem stats_per_watch:
  assumes inv: "table_inv s" and ini: "initialized s" and on: "collect_stats s"
    and n: "watch_from_wd s wd = Some n" and e: "e \<in> set counted_events"
  shows "get_stat_by_wd wd e (record_all evs (initialize_stats s)) =
      Some (sint (of_nat (length (filter (\<lambda>(d, m). d = wd \<and> m AND e \<noteq> 0) evs)) :: u32)) \<and>
    get_stat_total e (record_all evs (initialize_stats s)) =
      sint (of_nat (length (filter (\<lambda>(d, m). watch_from_wd s d \<noteq> None \<and> m AND e \<noteq> 0) evs)) :: u32)"
proof -
  let ?i = "initialize_stats s"
  from inv n obtain w where w: "watches s n = Some w" by (rule watch_from_wd_found)
  have same: "watch_from_wd ?i = watch_from_wd s" "totals ?i = stats_default" "collect_stats ?i"
    by (simp_all add: initialize_stats_def Let_def watch_from_wd_def fun_eq_iff assert_init_def
        niceassert_def nice_fail_def ceprint_def)
  from record_all_watch [OF initialize_stats_inv [OF inv ini], of wd n _ evs]
    initialize_stats_watch [OF inv ini on n w] n same
  obtain w' where w': "watches (record_all evs ?i) n = Some w'"
    "w_stats w' = stats_replay stats_default (masks_of wd evs)" by fastforce
  have zero: "stats_get stats_default e = Some 0"
    using e by (intro stats_get_default) simp
  have "watch_from_wd (record_all evs ?i) wd = Some n"
    using n fun_cong [OF same(1), of wd] by (simp add: watch_from_wd_def record_all_fields)
  moreover have "stats_get (w_stats w') e =
      Some (of_nat (length (filter (\<lambda>(d, m). d = wd \<and> m AND e \<noteq> 0) evs)))"
    using stats_replay_counted [OF e zero]
    by (simp add: w'(2) masks_of_def filter_map comp_def case_prod_unfold conj_commute)
  moreover have "stats_get (totals (record_all evs ?i)) e =
      Some (of_nat (length (filter (\<lambda>(d, m). watch_from_wd s d \<noteq> None \<and> m AND e \<noteq> 0) evs)))"
    using stats_replay_counted [OF e zero]
    by (simp add: record_all_totals same filter_map comp_def case_prod_unfold conj_commute)
  ultimately show ?thesis
    using w' same(3)
    by (simp add: get_stat_by_wd_def get_stat_total_def record_all_fields watch_at_def stat_int_def)
qed

theorem stats_per_watch_witness:
  "get_stat_by_wd 3 IN_OPEN (record_all [(3, IN_OPEN), (9, IN_OPEN), (3, IN_CLOSE_WRITE)]
     (initialize_stats ((one_watch ''/a'')\<lparr>collect_stats := True\<rparr>))) = Some 1"
proof -
  let ?s = "(one_watch ''/a'')\<lparr>collect_stats := True\<rparr>"
  have "table_inv ?s" "initialized ?s" "collect_stats ?s" "watch_from_wd ?s 3 = Some 1"
    using one_watch_facts [of "''/a''"] by (simp_all add: table_inv_def watch_from_wd_def bt_get_def)
  moreover have "IN_OPEN \<in> set counted_events" by (simp add: counted_events_def)
  ultimately show ?thesis
    using stats_per_watch [of ?s 3 1 IN_OPEN "[(3, IN_OPEN), (9, IN_OPEN), (3, IN_CLOSE_WRITE)]"]
    by (simp add: in_defs)
qed

end
