(* ===== verification/Paths.thy ===== *)
theory Paths
  imports WatchTable
begin

text \<open>
  From a watch descriptor or an event to paths (\<open>inotify.rs\<close>, "Watch bookkeeping" and the
  fanotify part): the name a watch was established with, the path the kernel resolves for the
  fid of a fanotify watch, and the split of an event's path into directory and name. A pointer
  into the library's buffers is modelled by the bytes up to the NUL it points at.
\<close>

definition AT_FDCWD :: int where "AT_FDCWD = -100"

subsection \<open>Resolving a fid\<close>

text \<open>The length of the name stored after the file handle, 0 if there is none.\<close>

definition fid_name_off :: "fid \<Rightarrow> nat" where
  "fid_name_off f = FID_HDR + unat (handle_bytes f)"

definition fid_name_len :: "fid \<Rightarrow> int" where
  "fid_name_len f =
     (if info_type f = FAN_EVENT_INFO_TYPE_DFID_NAME
      then let fid_len = wrap32 (int (fid_name_off f));
               name_len = wrap32 (int (unat (hdr_len f)) - fid_len)
           in if name_len \<noteq> 0 \<and> fid_get f (fid_name_off f) = 0 then 0 else name_len
      else 0)"

text \<open>The descriptor of the fid's mount, if one was registered.\<close>

definition fid_mount_fd :: "fid \<Rightarrow> 'w machine \<Rightarrow> int option" where
  "fid_mount_fd f s = do {
     fsk \<leftarrow> fsid_key f;
     case watch_from_fid s fsk of
       None \<Rightarrow> Some AT_FDCWD
     | Some n \<Rightarrow> map_option w_dirf (watch_at s n)
   }"

text \<open>
  The descriptor of the directory (or file): opened by handle, or duplicated from the watch
  whose fid is this one without the name. The inner \<open>None\<close> is the early return.
\<close>

definition fid_directory ::
  "'w os \<Rightarrow> fid \<Rightarrow> 'w machine \<Rightarrow> (int option \<times> 'w machine) option" where
  "fid_directory os f s = do {
     mount_fd \<leftarrow> fid_mount_fd f s;
     let name_len = fid_name_len f;
     let (dirf, s) = sys (os_open_by_handle os mount_fd (aligned_handle f)) s;
     if dirf > 0 then Some (Some dirf, s)
     else if fanotify_mark_type s = FAN_MARK_FILESYSTEM
     then Some (None, ceprint (''Failed to decode directory fid.'' @ [CHR 0x0A]) s)
     else if name_len \<noteq> 0
     then do {
       let key = f @ replicate (FID_HDR - length f) 0;
       key \<leftarrow> set_info_type key FAN_EVENT_INFO_TYPE_DFID;
       key \<leftarrow> set_hdr_len key (word_of_int (int (unat (hdr_len f)) - name_len));
       case watch_from_fid s key of
         None \<Rightarrow> Some (None, ceprint (''Failed to lookup path by directory fid.'' @ [CHR 0x0A]) s)
       | Some n \<Rightarrow> do {
           w \<leftarrow> watch_at s n;
           let (dirf, s) = (if w_dirf w \<noteq> 0 then sys (os_dup os (w_dirf w)) s else (-1, s));
           if dirf < 0
           then Some (None, ceprint (''Failed to get directory fd.'' @ [CHR 0x0A]) s)
           else Some (Some dirf, s)
         }
     }
     else Some (None, s)
   }"

text \<open>
  The name appended to the directory's path: at most what the buffer has room for, cut at the
  first NUL, and marked when the file is gone.
\<close>

definition append_fid_name :: "fid \<Rightarrow> string \<Rightarrow> bool \<Rightarrow> string" where
  "append_fid_name f dir deleted =
     (let room = FIDNAME_SIZE - 16 - length dir;
          n = min (nat (fid_name_len f)) room;
          buf = cstring (dir @ map (\<lambda>i. byte_char (fid_get f (fid_name_off f + i))) [0..<n]);
          suffix = '' (deleted)''
      in if deleted \<and> length buf + length suffix + 1 \<le> FIDNAME_SIZE then buf @ suffix else buf)"

definition filename_from_fid ::
  "'w os \<Rightarrow> fid \<Rightarrow> 'w machine \<Rightarrow> (string option \<times> 'w machine) option" where
  "filename_from_fid os f s = do {
     (dir, s) \<leftarrow> fid_directory os f s;
     case dir of
       None \<Rightarrow> Some (None, s)
     | Some dirf \<Rightarrow>
         let (link, s) = sys (os_readlink os (''/proc/self/fd/'' @ show_int dirf) (PATH_MAX - 2)) s
         in case link of
              None \<Rightarrow> Some (None, ceprint (''Failed to resolve path from directory fd.'' @ [CHR 0x0A])
                               (sysw (os_close os dirf) s))
            | Some target \<Rightarrow>
                let buf = take (PATH_MAX - 2) target @ ''/'';
                    s = s\<lparr>fidname := cstring buf\<rparr>
                in if fid_name_len f > 0
                   then let name = map byte_char (takeWhile (\<lambda>c. c \<noteq> 0) (drop (fid_name_off f) f));
                            ((deleted, e), s) = sys (os_faccessat os dirf (cstring name)) s
                        in if deleted \<noteq> 0 \<and> e \<noteq> ENOENT
                           then Some (None, sysw (os_close os dirf)
                                  (ceprint (''Failed to access file '' @ name @ '' ('' @
                                     strerror os e @ '').'' @ [CHR 0x0A]) s))
                           else let buf = append_fid_name f buf (deleted \<noteq> 0)
                                in Some (Some buf, sysw (os_close os dirf) (s\<lparr>fidname := buf\<rparr>))
                   else Some (Some (cstring buf), sysw (os_close os dirf) s)
   }"

subsection \<open>Names of watches\<close>

definition filename_from_watch_id ::
  "'w os \<Rightarrow> nat \<Rightarrow> 'w machine \<Rightarrow> (string \<times> 'w machine) option" where
  "filename_from_watch_id os n s = do {
     w \<leftarrow> watch_at s n;
     case w_fid w of
       None \<Rightarrow> Some (w_filename w, s)
     | Some f \<Rightarrow>
         if fanotify_mark_type s = 0 then Some (w_filename w, s)
         else do {
           (p, s) \<leftarrow> filename_from_fid os f s;
           case p of
             Some p \<Rightarrow> Some (p, s)
           | None \<Rightarrow> do { w \<leftarrow> watch_at s n; Some (w_filename w, s) }
         }
   }"

definition filename_from_wd :: "'w os \<Rightarrow> int \<Rightarrow> 'w machine \<Rightarrow> (string \<times> 'w machine) option" where
  "filename_from_wd os wd s =
     (let s = assert_init s
      in if wd = 0 then Some ([], s)
         else case watch_from_wd s wd of
                Some n \<Rightarrow> filename_from_watch_id os n s
              | None \<Rightarrow> Some ([], s))"

definition filename_from_watch :: "'w os \<Rightarrow> nat \<Rightarrow> 'w machine \<Rightarrow> (string \<times> 'w machine) option" where
  "filename_from_watch os n s =
     (if watches s n = None then Some ([], s) else filename_from_watch_id os n s)"

text \<open>
  The same for a pointer to a watch, which may be null: the watch it points at is searched in the
  table. A pointer is the identifier of the watch it was taken of.
\<close>

definition filename_from_watch_ptr ::
  "'w os \<Rightarrow> nat option \<Rightarrow> 'w machine \<Rightarrow> (string \<times> 'w machine) option" where
  "filename_from_watch_ptr os p s =
     (case p of
        None \<Rightarrow> Some ([], s)
      | Some n \<Rightarrow> if watches s n \<noteq> None then filename_from_watch_id os n s else Some ([], s))"

subsection \<open>Paths of events\<close>

definition dirname_from_event ::
  "'w os \<Rightarrow> int \<Rightarrow> 'w machine \<Rightarrow> ((string \<times> nat) \<times> 'w machine) option" where
  "dirname_from_event os wd s = do {
     (filename, s) \<leftarrow> filename_from_wd os wd s;
     let dirsep = (if fanotify_mode s then rposition (\<lambda>c. c = CHR ''/'') filename else None);
     Some ((filename, case dirsep of None \<Rightarrow> length filename | Some i \<Rightarrow> i + 1), s)
   }"

definition filename_from_event_ptr ::
  "'w os \<Rightarrow> int \<Rightarrow> 'w machine \<Rightarrow> ((string \<times> nat \<times> nat option) \<times> 'w machine) option" where
  "filename_from_event_ptr os wd s = do {
     ((f, dl), s) \<leftarrow> dirname_from_event os wd s;
     Some ((f, dl, if length f > dl then Some dl else None), s)
   }"

definition filename_from_event ::
  "'w os \<Rightarrow> event \<Rightarrow> 'w machine \<Rightarrow> (event_path \<times> 'w machine) option" where
  "filename_from_event os ev s = do {
     ((filename, dirnamelen, off), s) \<leftarrow> filename_from_event_ptr os (ev_wd ev) s;
     let eventname = (case off of Some k \<Rightarrow> drop k filename
                      | None \<Rightarrow> if ev_len ev > 0 then ev_name ev else []);
     Some (\<lparr>ep_filename = filename, ep_dirnamelen = dirnamelen, ep_eventname = eventname\<rparr>, s)
   }"

definition dirpath_from_event ::
  "'w os \<Rightarrow> event \<Rightarrow> 'w machine \<Rightarrow> (string option \<times> 'w machine) option" where
  "dirpath_from_event os ev s = do {
     (filename, s) \<leftarrow> filename_from_wd os (ev_wd ev) s;
     if filename = [] \<or> ev_mask ev AND IN_ISDIR = 0 then Some (None, s)
     else let name = (if fanotify_mode s then [] else ev_name ev)
          in Some (Some (filename @ name @ ''/''), s)
   }"

subsection \<open>Resolution never panics and leaves the library alone\<close>

lemma fid_mount_fd_total:
  assumes "table_inv s"
  shows "\<exists>m. fid_mount_fd f s = Some m"
proof -
  have "watches s n \<noteq> None" if "watch_from_fid s g = Some n" for g n
    using watch_from_fid_found [OF assms that] by blast
  then show ?thesis
    by (force simp: fid_mount_fd_def fsid_key_eq watch_at_def split: option.splits)
qed

lemma fid_directory_total:
  assumes "table_inv s"
  shows "\<exists>d s'. fid_directory os f s = Some (d, s') \<and> same_lib s s'"
proof -
  from fid_mount_fd_total [OF assms] obtain mount_fd where m: "fid_mount_fd f s = Some mount_fd"
    by blast
  obtain dirf x where o: "os_open_by_handle os mount_fd (aligned_handle f) (world s) = (dirf, x)"
    by fastforce
  let ?k = "f @ replicate (FID_HDR - length f) 0"
  have len: "0 < length ?k" "4 \<le> length ?k" by (auto simp: FID_HDR_def)
  then obtain k1 where k1: "set_info_type ?k FAN_EVENT_INFO_TYPE_DFID = Some k1"
    unfolding set_info_type_def by auto
  with len have "4 \<le> length k1" by (simp only: length_set_info_type)
  then obtain k2 where k2:
    "set_hdr_len k1 (word_of_int (int (unat (hdr_len f)) - fid_name_len f)) = Some k2"
    by (simp add: set_hdr_len_def)
  note k = k1 k2
  have t: "same_lib s (s\<lparr>world := x\<rparr>)" by simp
  have wf: "watch_from_fid (s\<lparr>world := x\<rparr>) = watch_from_fid s" by (simp add: watch_from_fid_def fun_eq_iff)
  show ?thesis
  proof (cases "watch_from_fid s k2")
    case None
    with m o k wf show ?thesis
      by (simp add: fid_directory_def sys_def Let_def ceprint_def)
  next
    case (Some n)
    with assms obtain w where w: "watches s n = Some w"
      by (blast elim: watch_from_fid_found)
    obtain d y where d: "os_dup os (w_dirf w) x = (d, y)" by fastforce
    from m o k wf w d Some show ?thesis
      by (simp add: fid_directory_def sys_def Let_def ceprint_def watch_at_def)
  qed
qed

lemma same_lib_fidname:
  "same_lib s t \<Longrightarrow> same_lib (s\<lparr>fidname := x\<rparr>) (t\<lparr>fidname := x\<rparr>)"
  by (auto simp: same_lib_def inotifytools.truncate_def)

text \<open>Resolution writes only the buffer the result is handed out from.\<close>

definition resolves :: "'w machine \<Rightarrow> 'w machine \<Rightarrow> bool" where
  "resolves s s' \<longleftrightarrow> same_lib (s\<lparr>fidname := fidname s'\<rparr>) s'"

lemma resolves_refl [simp]: "resolves s s"
  by (simp add: resolves_def)

lemma resolves_effects [simp]:
  "resolves s (t\<lparr>world := w\<rparr>) \<longleftrightarrow> resolves s t"
  "resolves s (t\<lparr>c_stderr := m\<rparr>) \<longleftrightarrow> resolves s t"
  "resolves s (t\<lparr>fidname := m\<rparr>) \<longleftrightarrow> resolves s t"
  by (auto simp: resolves_def same_lib_def inotifytools.truncate_def)

lemma same_lib_resolves: "same_lib s t \<Longrightarrow> resolves s t"
  by (auto simp: resolves_def same_lib_def inotifytools.truncate_def)

lemma resolves_fields:
  assumes "resolves s s'"
  shows "watches s' = watches s" "by_wd s' = by_wd s" "by_fid s' = by_fid s"
    "by_filename s' = by_filename s" "next_id s' = next_id s"
    "next_fanotify_wd s' = next_fanotify_wd s" "fanotify_mode s' = fanotify_mode s"
    "initialized s' = initialized s" "fanotify_mark_type s' = fanotify_mark_type s"
    "fd s' = fd s" "self_pid s' = self_pid s" "regex s' = regex s"
    "invert_regexp s' = invert_regexp s" "timefmt s' = timefmt s" "error s' = error s"
    "first_byte s' = first_byte s" "bytes s' = bytes s" "evbuf s' = evbuf s"
    "collect_stats s' = collect_stats s" "totals s' = totals s" "evstr s' = evstr s"
    "verbosity s' = verbosity s" "print_out s' = print_out s" "ret_off s' = ret_off s"
    "this_bytes s' = this_bytes s" "recursive_watch s' = recursive_watch s"
  using assms by (auto simp: resolves_def same_lib_def inotifytools.truncate_def)

lemma resolves_trans: "resolves s t \<Longrightarrow> resolves t u \<Longrightarrow> resolves s u"
  by (simp add: resolves_def same_lib_def inotifytools.truncate_def)

lemma resolves_inv: "resolves s s' \<Longrightarrow> table_inv s' = table_inv s"
  by (simp add: table_inv_def resolves_fields)

lemma append_fid_name_props:
  assumes "length dir < PATH_MAX"
  shows "NUL \<notin> set (append_fid_name f dir deleted)"
    and "length (append_fid_name f dir deleted) < FIDNAME_SIZE"
proof -
  let ?n = "min (nat (fid_name_len f)) (FIDNAME_SIZE - 16 - length dir)"
  let ?buf = "cstring (dir @ map (\<lambda>i. byte_char (fid_get f (fid_name_off f + i))) [0..<?n])"
  have "length ?buf \<le> length dir + ?n"
    by (rule order_trans [OF length_cstring_le]) simp
  with assms have "length ?buf < FIDNAME_SIZE - 15"
    by (simp add: FIDNAME_SIZE_def PATH_MAX_def)
  then show "length (append_fid_name f dir deleted) < FIDNAME_SIZE"
    by (auto simp: append_fid_name_def Let_def FIDNAME_SIZE_def PATH_MAX_def)
  show "NUL \<notin> set (append_fid_name f dir deleted)"
    by (auto simp: append_fid_name_def Let_def)
qed

lemma filename_from_fid_total:
  assumes inv: "table_inv s"
  shows "\<exists>p s'. filename_from_fid os f s = Some (p, s') \<and> resolves s s' \<and>
    (\<forall>q. p = Some q \<longrightarrow> fidname s' = q \<and> NUL \<notin> set q \<and> length q < FIDNAME_SIZE)"
proof -
  from fid_directory_total [OF inv, of os f] obtain d t where
    d: "fid_directory os f s = Some (d, t)" "same_lib s t" by blast
  note r = same_lib_resolves [OF d(2)]
  show ?thesis
  proof (cases d)
    case None
    with d(1) r show ?thesis by (simp add: filename_from_fid_def)
  next
    case (Some dirf)
    obtain link x where l: "os_readlink os (''/proc/self/fd/'' @ show_int dirf) (PATH_MAX - 2)
        (world t) = (link, x)" by fastforce
    show ?thesis
    proof (cases link)
      case None
      with d(1) r Some l show ?thesis
        by (simp add: filename_from_fid_def sys_def sysw_def ceprint_def)
    next
      case (Some target)
      let ?buf = "take (PATH_MAX - 2) target @ ''/''"
      have len: "length ?buf < PATH_MAX" by (simp add: PATH_MAX_def)
      have c: "length (cstring ?buf) < FIDNAME_SIZE"
        using length_cstring_le [of ?buf] len by (simp add: FIDNAME_SIZE_def)
      obtain del e y where a: "os_faccessat os dirf
          (cstring (map byte_char (takeWhile (\<lambda>c. c \<noteq> 0) (drop (fid_name_off f) f)))) x = ((del, e), y)"
        by (metis surj_pair)
      from d(1) r \<open>d = Some dirf\<close> l Some a c append_fid_name_props [OF len] show ?thesis
        by (auto simp: filename_from_fid_def sys_def sysw_def ceprint_def Let_def)
    qed
  qed
qed

lemma filename_from_watch_id_total:
  assumes inv: "table_inv s" and w: "watches s n = Some w"
  shows "\<exists>p s'. filename_from_watch_id os n s = Some (p, s') \<and> resolves s s' \<and> NUL \<notin> set p \<and>
    (w_fid w = None \<or> fanotify_mark_type s = 0 \<longrightarrow> p = w_filename w \<and> s' = s)"
proof (cases "w_fid w = None \<or> fanotify_mark_type s = 0")
  case True
  with table_invD(4) [OF inv w] w show ?thesis
    by (auto simp: filename_from_watch_id_def watch_at_def watch_ok_def split: option.splits)
next
  case False
  then obtain f where f: "w_fid w = Some f" by auto
  from filename_from_fid_total [OF inv, of os f] obtain p t where
    p: "filename_from_fid os f s = Some (p, t)" "resolves s t" "\<forall>q. p = Some q \<longrightarrow> NUL \<notin> set q"
    by blast
  from p w f False table_invD(4) [OF inv w] show ?thesis
    by (cases p) (auto simp: filename_from_watch_id_def watch_at_def watch_ok_def resolves_fields)
qed

lemma filename_from_wd_total:
  assumes inv: "table_inv s" and ini: "initialized s"
  shows "\<exists>p s'. filename_from_wd os wd s = Some (p, s') \<and> resolves s s' \<and> NUL \<notin> set p"
proof (cases "watch_from_wd s wd")
  case None
  with ini show ?thesis by (simp add: filename_from_wd_def)
next
  case (Some n)
  with inv obtain w where "watches s n = Some w" by (rule watch_from_wd_found)
  from filename_from_watch_id_total [OF inv this, of os] Some ini show ?thesis
    by (cases "wd = 0") (auto simp: filename_from_wd_def)
qed

text \<open>Splitting a string behind the last match.\<close>

lemma rposition_split:
  assumes "rposition P xs = Some i"
  shows "take (Suc i) xs \<noteq> []" "P (last (take (Suc i) xs))" "x \<in> set (drop (Suc i) xs) \<Longrightarrow> \<not> P x"
proof -
  from rposition_SomeD [OF assms] have i: "i < length xs" "P (xs ! i)" "\<forall>x\<in>set (drop (Suc i) xs). \<not> P x" by auto
  then show "take (Suc i) xs \<noteq> []" "P (last (take (Suc i) xs))" "x \<in> set (drop (Suc i) xs) \<Longrightarrow> \<not> P x"
    by (auto simp: take_Suc_conv_app_nth)
qed

subsection \<open>Properties\<close>

text \<open>C35.
  Asking for the path of an event never panics and never changes a watch. The path is that of the
  event's watch. In fanotify mode it is split after its last slash, if it has one, into the
  directory part and the last component \<open>rest\<close>; else, and under inotify, the whole path is the
  directory part. The event's name is \<open>rest\<close> if that is not empty, or else the name the event
  carries. The path of a watch without a fid is the name it was established with.\<close>

theorem event_path_correct:
  assumes inv: "table_inv s" and ini: "initialized s"
  shows "\<exists>p s' rest. filename_from_event os ev s = Some (p, s') \<and> resolves s s' \<and>
    filename_from_wd os (ev_wd ev) s = Some (ep_filename p, s') \<and>
    ep_filename p = ep_dirname p @ rest \<and>
    (if fanotify_mode s \<and> CHR ''/'' \<in> set (ep_filename p)
     then ep_dirname p \<noteq> [] \<and> last (ep_dirname p) = CHR ''/'' \<and> CHR ''/'' \<notin> set rest else rest = []) \<and>
    ep_eventname p = (if rest \<noteq> [] then rest else if ev_len ev > 0 then ev_name ev else []) \<and>
    (\<forall>n w. ev_wd ev \<noteq> 0 \<and> watch_from_wd s (ev_wd ev) = Some n \<and> watches s n = Some w \<and>
       w_fid w = None \<longrightarrow> ep_filename p = w_filename w)"
proof -
  from filename_from_wd_total [OF inv ini, of os "ev_wd ev"] obtain f s' where
    f: "filename_from_wd os (ev_wd ev) s = Some (f, s')" "resolves s s'" by blast
  have name: "f = w_filename w" if "ev_wd ev \<noteq> 0" "watch_from_wd s (ev_wd ev) = Some n"
    "watches s n = Some w" "w_fid w = None" for n w
    using f(1) that ini by (simp add: filename_from_wd_def filename_from_watch_id_def watch_at_def)
  have mode: "fanotify_mode s' = fanotify_mode s" using f(2) by (rule resolves_fields)
  define dl where "dl = (case if fanotify_mode s then rposition (\<lambda>c. c = CHR ''/'') f else None of
      None \<Rightarrow> length f | Some i \<Rightarrow> i + 1)"
  define p where "p = \<lparr>ep_filename = f, ep_dirnamelen = dl, ep_eventname =
      (if length f > dl then drop dl f else if ev_len ev > 0 then ev_name ev else [])\<rparr>"
  have run: "filename_from_event os ev s = Some (p, s')"
    using f(1) mode by (auto simp: filename_from_event_def filename_from_event_ptr_def
        dirname_from_event_def dl_def p_def Let_def)
  have dir: "ep_dirname p = take dl f"
    by (simp add: ep_dirname_def p_def min_def)
  have split: "if fanotify_mode s \<and> CHR ''/'' \<in> set f
    then ep_dirname p \<noteq> [] \<and> last (ep_dirname p) = CHR ''/'' \<and> CHR ''/'' \<notin> set (drop dl f) else drop dl f = []"
  proof (cases "rposition (\<lambda>c. c = CHR ''/'') f")
    case None
    then have "dl = length f" by (simp only: dl_def if_cancel option.case split: if_split)
    moreover have "CHR ''/'' \<notin> set f" using None unfolding rposition_None by blast
    ultimately show ?thesis by simp
  next
    case (Some i)
    have "CHR ''/'' \<notin> set (drop (Suc i) f)" using rposition_split(3) [OF Some] by blast
    moreover have "CHR ''/'' \<in> set f" using rposition_split(1,2) [OF Some] by (metis in_set_takeD last_in_set)
    ultimately show ?thesis
      using rposition_split(1,2) [OF Some] by (cases "fanotify_mode s") (auto simp: dir dl_def Some)
  qed
  have pf: "ep_filename p = f" "ep_filename p = ep_dirname p @ drop dl f"
    "ep_eventname p = (if drop dl f \<noteq> [] then drop dl f else if ev_len ev > 0 then ev_name ev else [])"
    by (simp_all add: dir) (simp_all add: p_def)
  have "\<forall>n w. ev_wd ev \<noteq> 0 \<and> watch_from_wd s (ev_wd ev) = Some n \<and> watches s n = Some w \<and> w_fid w = None \<longrightarrow>
      ep_filename p = w_filename w"
    unfolding pf(1) using name by blast
  then show ?thesis
    using run f [folded pf(1)] split [folded pf(1)] pf(2,3) [unfolded pf(1) [symmetric]] unfolding pf(1) [symmetric]
    by (intro exI [of _ p] exI [of _ s'] exI [of _ "drop dl (ep_filename p)"] conjI) assumption+
qed

theorem event_path_correct_witness:
  "\<exists>p s'. filename_from_event quiet_os (event_default\<lparr>ev_wd := 3\<rparr>) ((one_watch ''/a/x'')\<lparr>fanotify_mode := True\<rparr>) =
      Some (p, s') \<and> ep_filename p = ''/a/x'' \<and> ep_dirname p = ''/a/'' \<and> ep_eventname p = ''x''"
proof -
  let ?s = "(one_watch ''/a/x'')\<lparr>fanotify_mode := True\<rparr>"
  have w: "table_inv ?s" "initialized ?s" "watch_from_wd ?s 3 = Some 1"
    "watches ?s 1 = Some (new_watch 3 None ''/a/x'' 0)" "fanotify_mode ?s"
    using one_watch_facts [of "''/a/x''"] by (simp_all add: table_inv_def watch_from_wd_def bt_get_def)
  obtain p s' rest where
    p: "filename_from_event quiet_os (event_default\<lparr>ev_wd := 3\<rparr>) ?s = Some (p, s')" "ep_filename p = ''/a/x''"
      "ep_filename p = ep_dirname p @ rest" "ep_dirname p \<noteq> []" "last (ep_dirname p) = CHR ''/''"
      "CHR ''/'' \<notin> set rest" "ep_eventname p = (if rest \<noteq> [] then rest else [])"
  proof -
    from event_path_correct [OF w(1,2), of quiet_os "event_default\<lparr>ev_wd := 3\<rparr>"] obtain p s' rest where
      q: "filename_from_event quiet_os (event_default\<lparr>ev_wd := 3\<rparr>) ?s = Some (p, s')"
        "ep_filename p = ep_dirname p @ rest"
        "if fanotify_mode ?s \<and> CHR ''/'' \<in> set (ep_filename p)
         then ep_dirname p \<noteq> [] \<and> last (ep_dirname p) = CHR ''/'' \<and> CHR ''/'' \<notin> set rest else rest = []"
        "ep_eventname p = (if rest \<noteq> [] then rest else
           if ev_len (event_default\<lparr>ev_wd := 3\<rparr>) > 0 then ev_name (event_default\<lparr>ev_wd := 3\<rparr>) else [])"
        "\<forall>n w. ev_wd (event_default\<lparr>ev_wd := 3\<rparr>) \<noteq> 0 \<and> watch_from_wd ?s (ev_wd (event_default\<lparr>ev_wd := 3\<rparr>)) = Some n \<and>
           watches ?s n = Some w \<and> w_fid w = None \<longrightarrow> ep_filename p = w_filename w"
      by blast
    from q(5) w(3,4) have f: "ep_filename p = ''/a/x''" by (simp add: cstring_def)
    from q(3) have "ep_dirname p \<noteq> []" "last (ep_dirname p) = CHR ''/''" "CHR ''/'' \<notin> set rest"
      by (simp_all add: f w(5))
    moreover have "ep_eventname p = (if rest \<noteq> [] then rest else [])" using q(4) by (simp add: event_default_def)
    ultimately show thesis using q(1,2) f by (intro that)
  qed
  from p(4,5) obtain d where d: "ep_dirname p = d @ ''/''" by (metis append_butlast_last_id)
  with p(2,3) have "''/a/x'' = d @ CHR ''/'' # rest" by simp
  with p(6) have "d = ''/a'' \<and> rest = ''x''" by (auto simp: Cons_eq_append_conv)
  with p d show ?thesis by auto
qed

text \<open>A directory fid followed by a NUL-terminated name, as the kernel reports it.\<close>

definition names_entry :: "fid \<Rightarrow> string \<Rightarrow> bool" where
  "names_entry f name \<longleftrightarrow>
     info_type f = FAN_EVENT_INFO_TYPE_DFID_NAME \<and> unat (hdr_len f) = length f \<and>
     (\<exists>pad. drop (fid_name_off f) f = map char_byte name @ 0 # pad) \<and>
     name \<noteq> [] \<and> NUL \<notin> set name"

lemma names_entry_name_len:
  assumes "names_entry f name"
  shows "fid_name_len f = int (length f) - int (fid_name_off f)"
    and "int (length name) < fid_name_len f"
    and "i \<le> length name \<Longrightarrow> byte_char (fid_get f (fid_name_off f + i)) = (name @ [NUL]) ! i"
    and "map byte_char (takeWhile (\<lambda>c. c \<noteq> 0) (drop (fid_name_off f) f)) = name"
proof -
  from assms obtain pad where p: "drop (fid_name_off f) f = map char_byte name @ 0 # pad"
    "name \<noteq> []" "NUL \<notin> set name" "info_type f = FAN_EVENT_INFO_TYPE_DFID_NAME"
    "unat (hdr_len f) = length f"
    by (auto simp: names_entry_def)
  from arg_cong [OF p(1), of length] have len: "length f - fid_name_off f = length name + Suc (length pad)"
    by simp
  have small: "length f < 2 ^ 16"
    using unat_less_power [of "hdr_len f"] p(5) by simp
  have off: "fid_get f (fid_name_off f + i) = (map char_byte name @ 0 # pad) ! i"
    if "i \<le> length name" for i
  proof -
    from that len have "i < length (drop (fid_name_off f) f)" by simp
    then have "fid_get f (fid_name_off f + i) = drop (fid_name_off f) f ! i"
      by (auto simp: fid_get_def)
    then show ?thesis by (simp only: p(1))
  qed
  show "byte_char (fid_get f (fid_name_off f + i)) = (name @ [NUL]) ! i" if "i \<le> length name" for i
    using off [OF that] that by (auto simp: nth_append)
  have "fid_get f (fid_name_off f) \<noteq> 0"
    using off [of 0] p(2,3) by (cases name) auto
  moreover have "wrap32 (int (fid_name_off f)) = int (fid_name_off f)"
    "wrap32 (int (length f) - int (fid_name_off f)) = int (length f) - int (fid_name_off f)"
    using small len by (auto intro!: wrap32_id)
  ultimately show l: "fid_name_len f = int (length f) - int (fid_name_off f)"
    using p(4,5) by (simp add: fid_name_len_def Let_def)
  show "int (length name) < fid_name_len f" using l len by simp
  have "takeWhile (\<lambda>c. c \<noteq> 0) (map char_byte name @ 0 # pad) = map char_byte name"
    using p(3) by (subst takeWhile_append2) auto
  then show "map byte_char (takeWhile (\<lambda>c. c \<noteq> 0) (drop (fid_name_off f) f)) = name"
    by (simp add: p(1) comp_def)
qed

lemma append_fid_name_entry:
  assumes e: "names_entry f name" and dir: "NUL \<notin> set dir"
    and fits: "length dir + length name + 16 < FIDNAME_SIZE"
  shows "append_fid_name f dir deleted = dir @ name @ (if deleted then '' (deleted)'' else [])"
proof -
  note n = names_entry_name_len [OF e]
  let ?n = "min (nat (fid_name_len f)) (FIDNAME_SIZE - 16 - length dir)"
  let ?bs = "map (\<lambda>i. byte_char (fid_get f (fid_name_off f + i))) [0..<?n]"
  have le: "length name < ?n" using n(2) fits by linarith
  have "take (Suc (length name)) ?bs = name @ [NUL]"
  proof (rule nth_equalityI)
    show "length (take (Suc (length name)) ?bs) = length (name @ [NUL])" using le by simp
    fix i assume "i < length (take (Suc (length name)) ?bs)"
    then have "i < Suc (length name)" by simp
    with le n(3) [of i] show "take (Suc (length name)) ?bs ! i = (name @ [NUL]) ! i" by simp
  qed
  then have "?bs = name @ NUL # drop (Suc (length name)) ?bs"
    by (metis append_take_drop_id append.assoc append_Cons append_Nil)
  then have "cstring (dir @ ?bs) = dir @ name"
    using dir e cstring_at_NUL [of name] by (metis cstring_append names_entry_def)
  with fits show ?thesis
    by (simp add: append_fid_name_def Let_def FIDNAME_SIZE_def PATH_MAX_def)
qed

text \<open>C36.
  When the kernel can open the directory of a fid and tell its path, the fid of an entry resolves
  to that path, a slash and the entry's name, marked \<open>(deleted)\<close> exactly when the entry is no
  longer there; the descriptor is closed again and nothing is printed.\<close>

theorem fid_resolves_to_path:
  assumes f: "names_entry f name"
    and m: "fid_mount_fd f s = Some m"
    and opened: "os_open_by_handle os m (aligned_handle f) (world s) = (dirf, w1)" "0 < dirf"
    and link: "os_readlink os (''/proc/self/fd/'' @ show_int dirf) (PATH_MAX - 2) w1 = (Some target, w2)"
      "length target \<le> PATH_MAX - 2" "NUL \<notin> set target" "length name \<le> 255"
    and acc: "os_faccessat os dirf name w2 = ((deleted, e), w3)" "deleted = 0 \<or> e = ENOENT"
  shows "filename_from_fid os f s =
    (let path = target @ ''/'' @ name @ (if deleted \<noteq> 0 then '' (deleted)'' else [])
     in Some (Some path, s\<lparr>world := os_close os dirf w3, fidname := path\<rparr>))"
proof -
  note n = names_entry_name_len [OF f]
  have "fid_directory os f s = Some (Some dirf, s\<lparr>world := w1\<rparr>)"
    using m opened by (simp add: fid_directory_def sys_def)
  moreover have "append_fid_name f (target @ ''/'') d =
      (target @ ''/'') @ name @ (if d then '' (deleted)'' else [])" for d
    using link by (intro append_fid_name_entry [OF f]) (auto simp: FIDNAME_SIZE_def PATH_MAX_def)
  moreover have "cstring name = name"
    using f by (simp add: names_entry_def cstring_id)
  moreover have "0 < fid_name_len f" using n(2) by simp
  ultimately show ?thesis
    using link acc n(4) by (auto simp: filename_from_fid_def sys_def sysw_def Let_def)
qed

definition hello_fid :: fid where
  "hello_fid = [2, 0, 27, 0, 7, 7, 7, 7, 7, 7, 7, 7, 0, 0, 0, 0, 1, 0, 0, 0] @
     map char_byte ''hello'' @ [0, 0]"

definition path_os :: "'w os" where
  "path_os = quiet_os\<lparr>os_open_by_handle := (\<lambda>_ _ w. (5, w)),
     os_readlink := (\<lambda>_ _ w. (Some ''/home'', w))\<rparr>"

lemma hello_fid_entry: "names_entry hello_fid ''hello''"
proof -
  have hb: "handle_bytes hello_fid = 0"
    by (simp add: handle_bytes_def fid_get_def hello_fid_def le32_def)
  have "length hello_fid = 27" by (simp add: hello_fid_def)
  moreover have "hdr_len hello_fid = 27"
    by (simp add: hdr_len_def fid_get_def hello_fid_def le16_def)
  moreover have "drop (fid_name_off hello_fid) hello_fid = map char_byte ''hello'' @ 0 # [0]"
    unfolding fid_name_off_def hb by (simp add: hello_fid_def FID_HDR_def)
  ultimately show ?thesis
    unfolding names_entry_def
    by (auto simp: info_type_def hello_fid_def fid_get_def fid_consts)
qed

theorem fid_resolves_to_path_witness:
  "\<exists>s'. filename_from_fid path_os hello_fid (machine_new ()) = Some (Some ''/home/hello (deleted)'', s')"
proof -
  have "fid_mount_fd hello_fid (machine_new ()) = Some AT_FDCWD"
    by (simp add: fid_mount_fd_def fsid_key_eq watch_from_fid_def)
  then show ?thesis
    using fid_resolves_to_path [OF hello_fid_entry, where s = "machine_new ()" and m = AT_FDCWD
        and os = path_os and dirf = 5 and target = "''/home''" and deleted = "-1" and e = ENOENT
        and ?w1.0 = "()" and ?w2.0 = "()" and ?w3.0 = "()"]
    by (simp add: path_os_def quiet_os_def PATH_MAX_def Let_def)
qed

end
