(* ===== verification/Setup.thy ===== *)
theory Setup
  imports Counters Paths
begin

text \<open>
  Setting up (\<open>inotify.rs\<close>, "Initialisation", "Setting up watches", "Kernel limits"): initialising
  and cleaning up the library, and watching files and whole filesystems. Watching only ever adds
  to the table: \<open>grown\<close> says so, and every operation here satisfies it.
\<close>

subsection \<open>Initialisation and clean-up\<close>

definition init :: "'w os \<Rightarrow> bool \<Rightarrow> bool \<Rightarrow> int \<Rightarrow> 'w machine \<Rightarrow> bool \<times> 'w machine" where
  "init os fanotify watch_filesystem verbose s =
     (if initialized s then (True, s)
      else let s = s\<lparr>error := 0, verbosity := verbose\<rparr>;
               ((fdv, e), s) =
                 (if fanotify
                  then let (pid, s) = sys (os_getpid os) s;
                           s = s\<lparr>self_pid := pid, fanotify_mode := True,
                                 fanotify_mark_type := (if watch_filesystem then FAN_MARK_FILESYSTEM
                                                        else FAN_MARK_INODE)\<rparr>
                       in sys (os_fanotify_init os (FAN_REPORT_FID OR FAN_REPORT_DFID_NAME)) s
                  else sys (os_inotify_init os) (s\<lparr>fanotify_mode := False\<rparr>));
               s = s\<lparr>fd := fdv\<rparr>
           in if fdv < 0 then (False, s\<lparr>error := e\<rparr>)
              else (True, s\<lparr>collect_stats := False, initialized := True, by_wd := [], by_fid := [],
                           by_filename := [], timefmt := None\<rparr>))"

definition initialize :: "'w os \<Rightarrow> 'w machine \<Rightarrow> bool \<times> 'w machine" where
  "initialize os s = init os False False 0 s"

text \<open>
  \<open>watches.clear()\<close> drops every watch. The order of a hash map is unspecified; the model drops
  in the order of the identifiers.
\<close>

fun drop_all :: "'w os \<Rightarrow> nat list \<Rightarrow> 'w machine \<Rightarrow> 'w machine" where
  "drop_all os [] s = s"
| "drop_all os (n # ns) s =
     drop_all os ns (case watches s n of None \<Rightarrow> s | Some w \<Rightarrow> drop_watch os w s)"

definition cleanup :: "'w os \<Rightarrow> 'w machine \<Rightarrow> 'w machine" where
  "cleanup os s =
     (if \<not> initialized s then s
      else let s = s\<lparr>initialized := False\<rparr>;
               s = sysw (os_close os (fd s)) s;
               s = s\<lparr>collect_stats := False, error := 0, timefmt := None, regex := None,
                     by_wd := [], by_fid := [], by_filename := []\<rparr>;
               s = drop_all os [0..<next_id s] s
           in s\<lparr>watches := Map.empty\<rparr>)"

subsection \<open>Directories\<close>

definition S_IFMT :: u32 where "S_IFMT = 0xF000"
definition S_IFDIR :: u32 where "S_IFDIR = 0x4000"

definition isdir :: "'w os \<Rightarrow> string \<Rightarrow> 'w machine \<Rightarrow> bool \<times> 'w machine" where
  "isdir os path s =
     (let cpath = cstring path;
          ((r, e, mode), s) = sys (os_lstat os cpath) s
      in if r = -1
         then (False, if e \<noteq> ENOENT
                      then ceprint (''Stat failed on '' @ cpath @ '': '' @ strerror os e @ [CHR 0x0A]) s
                      else s)
         else (mode AND S_IFMT = S_IFDIR, s))"

subsection \<open>The fid of a marked file\<close>

definition O_RDONLY :: int where "O_RDONLY = 0"
definition O_PATH :: int where "O_PATH = 0x200000"

text \<open>
  The file handle the kernel returns: its size, and its type and bytes (the rest of the caller's
  buffer is zero).
\<close>

definition handle_struct :: "u32 \<Rightarrow> u8 list \<Rightarrow> u8 list" where
  "handle_struct hb bs =
     take (8 + unat hb) (map (\<lambda>i. byte_of i hb) [0..<4] @ bs @ replicate (4 + MAX_FID_LEN) 0)"

definition copy_into :: "nat \<Rightarrow> u8 list \<Rightarrow> u8 list \<Rightarrow> u8 list option" where
  "copy_into off bs f =
     (if off + length bs \<le> length f then Some (take off f @ bs @ drop (off + length bs) f) else None)"

text \<open>Registering the descriptor of the mount; \<open>False\<close> is an early return.\<close>

definition register_mount ::
  "'w os \<Rightarrow> fid \<Rightarrow> string option \<Rightarrow> 'w machine \<Rightarrow> (bool \<times> 'w machine) option" where
  "register_mount os f dirname s =
     (let mnt = (if dirname \<noteq> None then watch_from_fid s f else None)
      in case (dirname, mnt) of
           (Some d, None) \<Rightarrow> do {
             fsidk \<leftarrow> fsid_key f;
             let ((mntid, e), s) = sys (os_open os (cstring d) O_RDONLY 0) s;
             if mntid < 0
             then Some (False, ceprint (''Failed to open '' @ d @ '': '' @ strerror os e @ [CHR 0x0A]) s)
             else do {
               (_, s) \<leftarrow> create_watch os 0 (Some fsidk) (butlast d) mntid s;
               Some (True, s)
             }
           }
         | _ \<Rightarrow> Some (True, s))"

definition fanotify_encode_fid ::
  "'w os \<Rightarrow> string \<Rightarrow> string option \<Rightarrow> 'w machine \<Rightarrow> ((fid \<times> int) option \<times> 'w machine) option" where
  "fanotify_encode_fid os fname dirname s = do {
     let f = replicate (FID_HDR + MAX_FID_LEN) 0;
     let ((r, e, fsid), s) = sys (os_statfs os fname) s;
     if r \<noteq> 0
     then Some (None, ceprint (''Statfs failed on '' @ fname @ '': '' @ strerror os e @ [CHR 0x0A]) s)
     else do {
       f \<leftarrow> copy_into 4 (take 8 (fsid @ replicate 8 0)) f;
       (ok, s) \<leftarrow> register_mount os f dirname s;
       if \<not> ok then Some (None, s)
       else let ((ret, e, hb, bs), s) = sys (os_name_to_handle os fname MAX_FID_LEN) s
            in if ret \<noteq> 0 \<or> unat hb > MAX_FID_LEN
               then Some (None, ceprint (''Encode fid failed on '' @ fname @ '': '' @
                                  strerror os e @ [CHR 0x0A]) s)
               else do {
                 f \<leftarrow> copy_into HANDLE_OFF (handle_struct hb bs) f;
                 f \<leftarrow> set_info_type f (if dirname \<noteq> None then FAN_EVENT_INFO_TYPE_DFID
                                      else FAN_EVENT_INFO_TYPE_FID);
                 f \<leftarrow> set_hdr_len f (of_nat (FID_HDR + unat hb));
                 case dirname of
                   None \<Rightarrow> Some (Some (f, 0), s)
                 | Some d \<Rightarrow>
                     let ((dirf, e), s) = sys (os_open os (cstring d) O_PATH 0) s
                     in if dirf < 0
                        then Some (None, ceprint (''Failed to open '' @ d @ '': '' @
                                           strerror os e @ [CHR 0x0A]) s)
                        else Some (Some (f, dirf), s)
               }
     }
   }"

subsection \<open>Watching files\<close>

text \<open>The call that adds the watch in the kernel; \<open>IN_DONT_FOLLOW\<close> is used up by the first file.\<close>

definition add_kernel_watch ::
  "'w os \<Rightarrow> string \<Rightarrow> u32 \<Rightarrow> 'w machine \<Rightarrow> ((int \<times> int) \<times> u32) \<times> 'w machine" where
  "add_kernel_watch os fname events s =
     (if fanotify_mode s
      then let flags = FAN_MARK_ADD OR fanotify_mark_type s;
               (events, flags) = (if events AND IN_DONT_FOLLOW \<noteq> 0
                                  then (events AND NOT IN_DONT_FOLLOW, flags OR FAN_MARK_DONT_FOLLOW)
                                  else (events, flags));
               m = (word_of_int (sint (events OR FAN_EVENT_ON_CHILD)) :: u64);
               (r, s) = sys (os_fanotify_mark os (fd s) flags m fname) s
           in ((r, events), s)
      else let (r, s) = sys (os_inotify_add_watch os (fd s) fname events) s in ((r, events), s))"

text \<open>One file of the list: \<open>None\<close> stops the loop with failure, \<open>Some\<close> has the remaining flags.\<close>

definition watch_one ::
  "'w os \<Rightarrow> string \<Rightarrow> u32 \<Rightarrow> 'w machine \<Rightarrow> (u32 option \<times> 'w machine) option" where
  "watch_one os fname events s =
     (let fname = cstring fname;
          (((wd, e), events), s) = add_kernel_watch os fname events s
      in if wd < 0
         then Some (None, if wd = -1 then s\<lparr>error := e\<rparr>
                          else ceprint (''Failed to watch '' @ fname @ '': returned wd was '' @
                                 show_int wd @ '' (expected -1 or >0 )'') s)
         else let (dir, s) = isdir os fname s;
                  (filename, dirname) =
                    (if \<not> dir then (fname, None)
                     else if fname \<noteq> [] \<and> last fname = CHR ''/'' then (fname, Some fname)
                     else (fname @ ''/'', Some (fname @ ''/'')))
              in do {
                   (fd', s) \<leftarrow> (if wd = 0
                     then do {
                       (r, s) \<leftarrow> fanotify_encode_fid os fname dirname s;
                       Some (map_option (\<lambda>(f, d). (Some f, d)) r, s)
                     }
                     else Some (Some (None, 0), s));
                   case fd' of
                     None \<Rightarrow> Some (None, s)
                   | Some (fidv, dirf) \<Rightarrow> do {
                       (_, s) \<leftarrow> create_watch os wd fidv filename dirf s;
                       Some (Some events, s)
                     }
                 })"

fun watch_each ::
  "'w os \<Rightarrow> string list \<Rightarrow> u32 \<Rightarrow> 'w machine \<Rightarrow> (bool \<times> 'w machine) option" where
  "watch_each os [] events s = Some (True, s)"
| "watch_each os (f # fs) events s =
     (case watch_one os f events s of
        None \<Rightarrow> None
      | Some (None, s) \<Rightarrow> Some (False, s)
      | Some (Some events, s) \<Rightarrow> watch_each os fs events s)"

definition watch_files ::
  "'w os \<Rightarrow> string list \<Rightarrow> u32 \<Rightarrow> 'w machine \<Rightarrow> (bool \<times> 'w machine) option" where
  "watch_files os filenames events s = watch_each os filenames events ((assert_init s)\<lparr>error := 0\<rparr>)"

definition watch_file :: "'w os \<Rightarrow> string \<Rightarrow> u32 \<Rightarrow> 'w machine \<Rightarrow> (bool \<times> 'w machine) option" where
  "watch_file os filename events s = watch_files os [filename] events s"

subsection \<open>Kernel limits\<close>

definition WATCHES_SIZE_PATH :: string where
  "WATCHES_SIZE_PATH = ''/proc/sys/fs/inotify/max_user_watches''"

definition QUEUE_SIZE_PATH :: string where
  "QUEUE_SIZE_PATH = ''/proc/sys/fs/inotify/max_queued_watches''"

definition INSTANCES_PATH :: string where
  "INSTANCES_PATH = ''/proc/sys/fs/inotify/max_user_instances''"

definition read_num_from_file :: "'w os \<Rightarrow> string \<Rightarrow> 'w machine \<Rightarrow> int option \<times> 'w machine" where
  "read_num_from_file os path s =
     (let ((f, e), s) = sys (os_fopen os path ''r'') s
      in case f of
           None \<Rightarrow> (None, s\<lparr>error := e\<rparr>)
         | Some f \<Rightarrow>
             let ((num, e), s) = sys (os_fscanf_int os f) s
             in case num of
                  None \<Rightarrow>
                    let (r, s) = sys (os_fclose os f) (s\<lparr>error := e\<rparr>)
                    in (None, niceassert (r = 0) 1793 ''!fclose_ret'' [] s)
                | Some num \<Rightarrow>
                    let (r, s) = sys (os_fclose os f) s
                    in (Some num, niceassert (r = 0) 1797 ''!fclose_ret'' [] s))"

definition num_or_fail :: "int option \<times> 'w machine \<Rightarrow> int \<times> 'w machine" where
  "num_or_fail r = (case r of (Some n, s) \<Rightarrow> (n, s) | (None, s) \<Rightarrow> (-1, s))"

definition get_max_queued_events :: "'w os \<Rightarrow> 'w machine \<Rightarrow> int \<times> 'w machine" where
  "get_max_queued_events os s = num_or_fail (read_num_from_file os QUEUE_SIZE_PATH s)"

definition get_max_user_instances :: "'w os \<Rightarrow> 'w machine \<Rightarrow> int \<times> 'w machine" where
  "get_max_user_instances os s = num_or_fail (read_num_from_file os INSTANCES_PATH s)"

definition get_max_user_watches :: "'w os \<Rightarrow> 'w machine \<Rightarrow> int \<times> 'w machine" where
  "get_max_user_watches os s = num_or_fail (read_num_from_file os WATCHES_SIZE_PATH s)"

subsection \<open>The table only grows\<close>

text \<open>Everything but the table and \<open>error\<close>.\<close>

definition settings :: "'w machine \<Rightarrow> inotifytools" where
  "settings s = (inotifytools.truncate s)\<lparr>error := 0, watches := Map.empty, next_id := 0,
     next_fanotify_wd := 0, by_wd := [], by_fid := [], by_filename := []\<rparr>"

text \<open>
  From \<open>s\<close> to \<open>s'\<close> at most \<open>k\<close> watch descriptors were added; nothing that was in the table was
  lost or changed, and neither was any other part of the library's state.
\<close>

definition grown :: "nat \<Rightarrow> 'w machine \<Rightarrow> 'w machine \<Rightarrow> bool" where
  "grown k s s' \<longleftrightarrow> table_inv s' \<and> watches s \<subseteq>\<^sub>m watches s' \<and>
     bt_get (by_wd s) \<subseteq>\<^sub>m bt_get (by_wd s') \<and> bt_get (by_fid s) \<subseteq>\<^sub>m bt_get (by_fid s') \<and>
     bt_get (by_filename s) \<subseteq>\<^sub>m bt_get (by_filename s') \<and>
     length (by_wd s') \<le> length (by_wd s) + k \<and> settings s' = settings s"

named_theorems grown_simps \<open>steps that do not touch the table\<close>

lemma settings_effects [grown_simps]:
  "settings (s\<lparr>world := x\<rparr>) = settings s" "settings (s\<lparr>error := e\<rparr>) = settings s"
  "settings (s\<lparr>c_stderr := m\<rparr>) = settings s" "settings (s\<lparr>c_stdout := m\<rparr>) = settings s"
  by (simp_all add: settings_def inotifytools.truncate_def)

lemma settings_sel:
  assumes "settings s' = settings s"
  shows "initialized s' = initialized s" "fanotify_mode s' = fanotify_mode s" "fd s' = fd s"
    "evstr s' = evstr s" "collect_stats s' = collect_stats s" "regex s' = regex s"
    "first_byte s' = first_byte s" "self_pid s' = self_pid s" "invert_regexp s' = invert_regexp s"
    "recursive_watch s' = recursive_watch s" "timefmt s' = timefmt s"
  using assms by (auto simp: settings_def inotifytools.truncate_def)

lemma grown_refl: "table_inv s \<Longrightarrow> grown 0 s s"
  by (simp add: grown_def)

lemma grown_trans: "grown j s t \<Longrightarrow> grown k t u \<Longrightarrow> grown (j + k) s u"
  unfolding grown_def by (auto intro: map_le_trans)

lemma grown_mono: "grown j s t \<Longrightarrow> j \<le> k \<Longrightarrow> grown k s t"
  unfolding grown_def by auto

lemma grown_effects [grown_simps]:
  "grown k s (t\<lparr>world := x\<rparr>) = grown k s t" "grown k s (t\<lparr>error := e\<rparr>) = grown k s t"
  "grown k s (t\<lparr>c_stderr := m\<rparr>) = grown k s t" "grown k (s\<lparr>error := e\<rparr>) t = grown k s t"
  "grown k (s\<lparr>world := x\<rparr>) t = grown k s t" "grown k (s\<lparr>c_stderr := m\<rparr>) t = grown k s t"
  by (simp_all add: grown_def grown_simps)

lemma grownD:
  assumes "grown k s t"
  shows "table_inv t" "length (by_wd t) \<le> length (by_wd s) + k" "settings t = settings s"
  using assms by (auto simp: grown_def)

lemma grown_keeps:
  assumes "grown k s t"
  shows "watch_from_filename s f = Some n \<Longrightarrow> watch_from_filename t f = Some n"
    and "watch_from_wd s wd = Some n \<Longrightarrow> watch_from_wd t wd = Some n"
    and "watches s n = Some w \<Longrightarrow> watches t n = Some w"
  using assms
  by (auto simp: grown_def watch_from_filename_def watch_from_wd_def map_le_def dom_def)

lemma sys_grown: "sys call t = (r, t') \<Longrightarrow> grown k s t' = grown k s t"
  by (auto simp: sys_def grown_simps split: prod.splits)

lemma map_le_filed: "m \<subseteq>\<^sub>m filed m k n"
  by (auto simp: filed_def map_le_def)

text \<open>Registering a watch adds one descriptor at most, and files its name.\<close>

lemma settings_table [grown_simps]:
  "settings (s\<lparr>next_id := a\<rparr>) = settings s" "settings (s\<lparr>by_wd := b\<rparr>) = settings s"
  "settings (s\<lparr>by_fid := c\<rparr>) = settings s" "settings (s\<lparr>by_filename := d\<rparr>) = settings s"
  "settings (s\<lparr>watches := ws\<rparr>) = settings s" "settings (s\<lparr>next_fanotify_wd := i\<rparr>) = settings s"
  by (simp_all add: settings_def inotifytools.truncate_def)

lemma drop_watch_settings [grown_simps]: "settings (drop_watch os w s) = settings s"
  by (simp add: drop_watch_def sysw_def grown_simps)

lemma register_grown:
  assumes inv: "table_inv s" and wd: "0 < wd"
  shows "grown 1 s (register os wd fid f d s)"
proof -
  note r = register_table [OF inv, where os = os and wd = wd and fid = fid and filename = f and dirf = d]
  let ?r = "register os wd fid f d s"
  have "length (by_wd ?r) \<le> length (by_wd s) + 1"
    using wd_ix.points_wf [OF table_invD(1) [OF inv]]
    by (auto simp: register_def Let_def length_bt_insert)
  moreover have "watches s \<subseteq>\<^sub>m watches ?r"
    unfolding map_le_def using r(5) table_invD(7) [OF inv] by (metis domIff)
  moreover have "settings ?r = settings s"
    by (simp add: register_def Let_def grown_simps)
  ultimately show ?thesis
    using register_inv [OF inv wd] r(1-3)
    by (auto simp: grown_def map_le_filed split: option.splits)
qed

lemma create_watch_grown:
  assumes inv: "table_inv s" and wd: "0 \<le> wd" and room: "room_for s wd"
  shows "\<exists>wd' s'. create_watch os wd fid f d s = Some (Some wd', s') \<and> grown 1 s s' \<and>
    dom (bt_get (by_filename s')) = insert (cstring f) (dom (bt_get (by_filename s)))"
proof -
  from create_watch_ex [OF inv wd room, of os fid f d]
  obtain wd' t where t: "0 < wd'" "table_inv t" "by_wd t = by_wd s" "by_fid t = by_fid s"
      "by_filename t = by_filename s" "watches t = watches s"
      "t = s\<lparr>next_fanotify_wd := next_fanotify_wd t\<rparr>"
      "create_watch os wd fid f d s = Some (Some wd', register os wd' fid f d t)"
    by blast
  have st: "settings t = settings s"
    by (subst t(7)) (simp only: settings_table)
  have "grown 1 t (register os wd' fid f d t)" by (rule register_grown [OF t(2,1)])
  with t st have "grown 1 s (register os wd' fid f d t)" by (simp add: grown_def)
  moreover have "dom (bt_get (by_filename (register os wd' fid f d t))) =
    insert (cstring f) (dom (bt_get (by_filename s)))"
    using register_table(2) [OF t(2)] t(5) by (auto simp: filed_def)
  ultimately show ?thesis using t(8) by blast
qed

subsection \<open>Watching files\<close>

abbreviation room :: "nat \<Rightarrow> 'w machine \<Rightarrow> bool" where
  "room k s \<equiv> length (by_wd s) + k < nat wd_limit"

lemma room_grown: "grown j s t \<Longrightarrow> room (j + k) s \<Longrightarrow> room k t"
  using grownD(2) by fastforce

lemma isdir_grown: "isdir os path t = (d, t') \<Longrightarrow> grown k s t' = grown k s t"
  by (auto simp: isdir_def sys_def Let_def ceprint_def grown_simps split: prod.splits if_splits)

lemma isdir_keeps:
  "isdir os path t = (d, t') \<Longrightarrow> by_wd t' = by_wd t \<and> by_filename t' = by_filename t \<and>
     error t' = error t \<and> table_inv t' = table_inv t \<and> settings t' = settings t"
  by (auto simp: isdir_def sys_def Let_def ceprint_def grown_simps split: prod.splits if_splits)

lemma register_mount_grown:
  assumes inv: "table_inv s" and room: "room 1 s"
  shows "\<exists>ok s'. register_mount os f dirname s = Some (ok, s') \<and> grown 1 s s'"
proof (cases "\<exists>d. dirname = Some d \<and> watch_from_fid s f = None")
  case False
  then have "register_mount os f dirname s = Some (True, s)"
    by (auto simp: register_mount_def Let_def split: option.splits)
  then show ?thesis using grown_mono [OF grown_refl [OF inv], of 1] by blast
next
  case True
  then obtain d where d: "dirname = Some d" "watch_from_fid s f = None" by blast
  obtain mnt e t where o': "sys (os_open os (cstring d) O_RDONLY 0) s = ((mnt, e), t)"
    by (metis surj_pair)
  then have t: "grown 0 s t" using sys_grown [OF o', of 0 s] grown_refl [OF inv] by simp
  then have "room_for t 0" using room grownD(2) [OF t] by (simp add: room_for_def)
  with t obtain wd t' where "create_watch os 0 (Some (fsid_key_bytes f)) (butlast d) mnt t = Some (wd, t')"
    "grown 1 t t'"
    using create_watch_grown [of t 0 os "Some (fsid_key_bytes f)" "butlast d" mnt] grownD(1) [OF t]
    by fastforce
  moreover from this t have "grown 1 s t'" using grown_trans [OF t] by fastforce
  moreover have "grown 1 s (ceprint m t)" for m
    using grown_mono [OF t] by (simp add: ceprint_def grown_simps)
  ultimately show ?thesis
    using d o' by (cases "mnt < 0") (auto simp: register_mount_def fsid_key_eq)
qed

lemma length_handle_struct: "length (handle_struct hb bs) \<le> 8 + unat hb"
  by (simp add: handle_struct_def)

lemma copy_into_fits: "off + length bs \<le> length f \<Longrightarrow> \<exists>g. copy_into off bs f = Some g \<and> length g = length f"
  by (simp add: copy_into_def)

lemma encode_fid_grown:
  assumes inv: "table_inv s" and room: "room 1 s"
  shows "\<exists>r s'. fanotify_encode_fid os fname dirname s = Some (r, s') \<and> grown 1 s s'"
proof -
  let ?f = "replicate (FID_HDR + MAX_FID_LEN) (0 :: u8)"
  obtain r e fsid t where 1: "sys (os_statfs os fname) s = ((r, e, fsid), t)" by (metis surj_pair)
  have t: "grown 0 s t" using sys_grown [OF 1, of 0 s] grown_refl [OF inv] by simp
  then have "room 1 t" using room_grown [OF t, of 1] room by simp
  have fsid8: "length (take 8 (fsid @ replicate 8 0)) = 8" by simp
  obtain f2 where f2: "copy_into 4 (take 8 (fsid @ replicate 8 0)) ?f = Some f2" "length f2 = length ?f"
    using copy_into_fits [of 4 "take 8 (fsid @ replicate 8 0)" ?f] fsid8
    unfolding FID_HDR_def by (auto simp del: take_append)
  obtain ok u where u: "register_mount os f2 dirname t = Some (ok, u)" "grown 1 t u"
    using register_mount_grown [OF grownD(1) [OF t] \<open>room 1 t\<close>] by blast
  have su: "grown 1 s u" using grown_trans [OF t u(2)] by simp
  obtain ret e2 hb bs v where v: "sys (os_name_to_handle os fname MAX_FID_LEN) u = ((ret, e2, hb, bs), v)"
    by (metis surj_pair)
  have sv: "grown 1 s v" using sys_grown [OF v, of 1 s] su by simp
  have ceprint: "grown k s (ceprint m x) = grown k s x" for k m x
    by (simp add: ceprint_def grown_simps)
  show ?thesis
  proof (cases "r = 0 \<and> ok \<and> ret = 0 \<and> \<not> unat hb > MAX_FID_LEN")
    case False
    then show ?thesis
      using 1 t u su v sv f2 grown_mono [OF t, of 1]
      by (auto simp: fanotify_encode_fid_def ceprint Let_def)
  next
    case True
    obtain f3 where f3: "copy_into HANDLE_OFF (handle_struct hb bs) f2 = Some f3" "length f3 = length ?f"
      using copy_into_fits [of HANDLE_OFF "handle_struct hb bs" f2] f2(2) True
        length_handle_struct [of hb bs] by (auto simp: FID_HDR_def HANDLE_OFF_def)
    define ty where "ty = (if dirname \<noteq> None then FAN_EVENT_INFO_TYPE_DFID else FAN_EVENT_INFO_TYPE_FID)"
    obtain f4 where f4: "set_info_type f3 ty = Some f4" "length f4 = length ?f"
      using f3(2) by (auto simp: set_info_type_def FID_HDR_def)
    obtain f5 where f5: "set_hdr_len f4 (of_nat (FID_HDR + unat hb)) = Some f5"
      using f4(2) by (auto simp: set_hdr_len_def FID_HDR_def)
    show ?thesis
    proof (cases dirname)
      case None
      then show ?thesis
        using True 1 u v sv f2 f3 f4 f5 by (simp add: fanotify_encode_fid_def ty_def)
    next
      case (Some d)
      obtain dirf e3 x where x: "sys (os_open os (cstring d) O_PATH 0) v = ((dirf, e3), x)"
        by (metis surj_pair)
      have "grown 1 s x" using sys_grown [OF x, of 1 s] sv by simp
      then show ?thesis
        using Some True 1 u v f2 f3 f4 f5 x
        by (auto simp: fanotify_encode_fid_def ty_def ceprint)
    qed
  qed
qed

text \<open>A file is watched under its name, a directory under its name with a slash at the end.\<close>

definition is_watched :: "'w machine \<Rightarrow> string \<Rightarrow> bool" where
  "is_watched s f \<longleftrightarrow> watch_from_filename s (cstring f) \<noteq> None \<or>
     watch_from_filename s (cstring f @ ''/'') \<noteq> None"

lemma is_watched_grown: "grown k s t \<Longrightarrow> is_watched s f \<Longrightarrow> is_watched t f"
  by (auto simp: is_watched_def dest: grown_keeps(1))

lemma in_dom_names: "f \<in> dom (bt_get (by_filename s)) \<longleftrightarrow> watch_from_filename s f \<noteq> None"
  by (auto simp: watch_from_filename_def)

lemma add_kernel_watch_grown:
  "add_kernel_watch os f events s = (r, t) \<Longrightarrow> grown k u t = grown k u s"
  by (auto simp: add_kernel_watch_def sys_def Let_def grown_simps split: prod.splits if_splits)

lemma watch_one_grown:
  assumes inv: "table_inv s" and room: "room 2 s"
  shows "\<exists>r s'. watch_one os f events s = Some (r, s') \<and> grown 2 s s' \<and>
    (r \<noteq> None \<longrightarrow> is_watched s' f)"
proof -
  let ?f = "cstring f"
  obtain wd e ev t where t: "add_kernel_watch os ?f events s = (((wd, e), ev), t)" by (metis surj_pair)
  have st: "grown 0 s t" using add_kernel_watch_grown [OF t] grown_refl [OF inv] by simp
  obtain dir u where u: "isdir os ?f t = (dir, u)" by (metis surj_pair)
  have su: "grown 0 s u" using isdir_grown [OF u] st by simp
  then have ru: "room 2 u" using room_grown [OF su, of 2] room by simp
  define name where "name = (if \<not> dir then ?f else if ?f \<noteq> [] \<and> last ?f = CHR ''/'' then ?f else ?f @ ''/'')"
  define dn where "dn = (if dir then Some name else None)"
  have names: "(if \<not> dir then (?f, None) else if ?f \<noteq> [] \<and> last ?f = CHR ''/'' then (?f, Some ?f)
      else (?f @ ''/'', Some (?f @ ''/''))) = (name, dn)"
    by (simp add: name_def dn_def)
  have NUL: "cstring name = name" by (simp add: name_def cstring_id)
  show ?thesis
  proof (cases "wd < 0")
    case True
    then show ?thesis
      using t grown_mono [OF st, of 2] by (simp add: watch_one_def ceprint_def grown_simps)
  next
    case False
    obtain r v where v: "(if wd = 0 then do {
          (r, s) \<leftarrow> fanotify_encode_fid os ?f dn u;
          Some (map_option (\<lambda>(f, d). (Some f, d)) r, s)
        } else Some (Some (None, 0), u)) = Some (r, v)" "grown 1 u v"
    proof (cases "wd = 0")
      case True
      from encode_fid_grown [OF grownD(1) [OF su], of os ?f dn] ru
      obtain q v where "fanotify_encode_fid os ?f dn u = Some (q, v)" "grown 1 u v" by fastforce
      with True show ?thesis by (intro that) simp_all
    next
      case False
      then show ?thesis
        using grown_mono [OF grown_refl [OF grownD(1) [OF su]], of 1] by (intro that) simp_all
    qed
    have sv: "grown 1 s v" using grown_trans [OF su v(2)] by simp
    have rv: "room 1 v" using room_grown [OF sv, of 1] room by simp
    have def: "watch_one os f events s = (case r of None \<Rightarrow> Some (None, v) | Some (fidv, dirf) \<Rightarrow> do {
        (_, s) \<leftarrow> create_watch os wd fidv name dirf v; Some (Some ev, s) })"
      using False v(1) by (simp add: watch_one_def t u names Let_def)
    show ?thesis
    proof (cases r)
      case None
      then show ?thesis using def grown_mono [OF sv, of 2] by simp
    next
      case (Some p)
      obtain fidv dirf where p: "p = (fidv, dirf)" by fastforce
      have "0 \<le> wd" "room_for v wd" using False rv by (auto simp: room_for_def)
      then obtain wd' s' where c: "create_watch os wd fidv name dirf v = Some (wd', s')" "grown 1 v s'"
        "dom (bt_get (by_filename s')) = insert (cstring name) (dom (bt_get (by_filename v)))"
        using create_watch_grown [OF grownD(1) [OF sv]] by metis
      have "grown 2 s s'" using grown_trans [OF sv c(2)] by (simp add: numeral_2_eq_2)
      moreover have "watch_from_filename s' name \<noteq> None"
        using c(3) NUL by (metis in_dom_names insertI1)
      ultimately show ?thesis
        using def Some p c(1) by (auto simp: is_watched_def name_def split: if_splits)
    qed
  qed
qed

lemma watch_each_grown:
  "table_inv s \<Longrightarrow> room (2 * length fs) s \<Longrightarrow>
    \<exists>ok s' k. watch_each os fs events s = Some (ok, s') \<and> grown (2 * length fs) s s' \<and>
      (ok \<longleftrightarrow> k = length fs) \<and> k \<le> length fs \<and> (\<forall>f\<in>set (take k fs). is_watched s' f)"
proof (induction fs arbitrary: s events)
  case Nil
  then show ?case using grown_refl by fastforce
next
  case (Cons f fs)
  from Cons.prems obtain r t where t: "watch_one os f events s = Some (r, t)" "grown 2 s t"
    "r \<noteq> None \<longrightarrow> is_watched t f"
    using watch_one_grown [of s os f events] by fastforce
  show ?case
  proof (cases r)
    case None
    with t grown_mono [OF t(2), of "2 * length (f # fs)"] show ?thesis
      by (intro exI [of _ False] exI [of _ t] exI [of _ 0]) simp
  next
    case (Some ev)
    have "room (2 * length fs) t" using room_grown [OF t(2)] Cons.prems(2) by simp
    from Cons.IH [OF grownD(1) [OF t(2)] this, of ev] obtain ok s' k where
      *: "watch_each os fs ev t = Some (ok, s')" "grown (2 * length fs) t s'" "ok \<longleftrightarrow> k = length fs"
        "k \<le> length fs" "\<forall>f\<in>set (take k fs). is_watched s' f"
      by blast
    have "grown (2 * length (f # fs)) s s'" using grown_trans [OF t(2) *(2)] by simp
    moreover have "is_watched s' f" using t(3) Some is_watched_grown [OF *(2)] by simp
    ultimately show ?thesis
      using t(1) Some *
      by (intro exI [of _ ok] exI [of _ s'] exI [of _ "Suc k"]) simp
  qed
qed

text \<open>C14.
  Watching a list of files never panics when the table has room for two descriptors per file
  (the mark and the mount of a fanotify watch): whatever the kernel answers, the table invariant
  is kept, nothing that was watched is lost, and exactly a prefix of the list is handled, each
  file of it being watched under its name; the call returns true just when that prefix is the
  whole list.\<close>

theorem watch_files_correct:
  assumes inv: "table_inv s" and ini: "initialized s" and room: "room (2 * length fs) s"
  shows "\<exists>ok s' k. watch_files os fs events s = Some (ok, s') \<and> table_inv s' \<and>
    k \<le> length fs \<and> (ok \<longleftrightarrow> k = length fs) \<and> (\<forall>f\<in>set (take k fs). is_watched s' f) \<and>
    (\<forall>f n. watch_from_filename s f = Some n \<longrightarrow> watch_from_filename s' f = Some n) \<and>
    (\<forall>n w. watches s n = Some w \<longrightarrow> watches s' n = Some w) \<and>
    length (by_wd s') \<le> length (by_wd s) + 2 * length fs \<and> settings s' = settings s"
proof -
  have "room (2 * length fs) (s\<lparr>error := 0\<rparr>)" using room by simp
  from watch_each_grown [OF _ this, of os events] inv obtain ok s' k where
    *: "watch_each os fs events (s\<lparr>error := 0\<rparr>) = Some (ok, s')" "grown (2 * length fs) s s'"
      "ok \<longleftrightarrow> k = length fs" "k \<le> length fs" "\<forall>f\<in>set (take k fs). is_watched s' f"
    by (auto simp: grown_simps)
  have "watch_files os fs events s = Some (ok, s')"
    using *(1) ini by (simp add: watch_files_def)
  with *(3-5) grownD [OF *(2)] grown_keeps [OF *(2)] show ?thesis
    by (intro exI [of _ ok] exI [of _ s'] exI [of _ k]) simp
qed

definition ready :: "'w machine \<Rightarrow> 'w machine" where
  "ready s = s\<lparr>initialized := True\<rparr>"

lemma ready_sel [simp]:
  "table_inv (ready s) = table_inv s" "initialized (ready s)" "by_wd (ready s) = by_wd s"
  "fanotify_mode (ready s) = fanotify_mode s" "world (ready s) = world s" "fd (ready s) = fd s"
  "watch_from_filename (ready s) f = watch_from_filename s f" "error (ready s) = error s"
  "watch_from_wd (ready s) wd = watch_from_wd s wd" "by_filename (ready s) = by_filename s"
  by (simp_all add: ready_def table_inv_def watch_from_filename_def watch_from_wd_def)

theorem watch_files_correct_witness:
  "table_inv (ready (machine_new ())) \<and> initialized (ready (machine_new ())) \<and>
   room (2 * length [''a'', ''b'']) (ready (machine_new ())) \<and>
   (\<exists>ok s'. watch_files quiet_os [''a'', ''b''] IN_OPEN (ready (machine_new ())) = Some (ok, s') \<and>
      table_inv s')"
proof -
  have "room (2 * length [''a'', ''b'']) (ready (machine_new ()))" by simp
  moreover have "table_inv (ready (machine_new ()))" by simp
  ultimately show ?thesis
    using watch_files_correct [of "ready (machine_new ())" "[''a'', ''b'']" quiet_os IN_OPEN] by auto
qed

text \<open>
  One file in inotify mode, whose watch the kernel answers with \<open>wd\<close> and \<open>errno\<close>: the call
  succeeds exactly when \<open>wd\<close> is positive, and then the descriptor is in the table and the file is
  filed under its name, with a slash at the end exactly when it is a directory; when the kernel
  refuses (\<open>-1\<close>), \<open>error\<close> is the \<open>errno\<close> and the table is as it was.
\<close>

lemma watch_file_inotify:
  assumes inv: "table_inv s" and ini: "initialized s" and mode: "\<not> fanotify_mode s"
    and add: "os_inotify_add_watch os (fd s) (cstring f) events (world s) = ((wd, e), w')" "wd \<noteq> 0"
    and stat: "os_lstat os (cstring f) w' = ((r, e', mode), w'')"
  shows "\<exists>s'. watch_file os f events s = Some (0 < wd, s') \<and> table_inv s' \<and>
    (wd = -1 \<longrightarrow> error s' = e \<and> by_wd s' = by_wd s \<and> by_filename s' = by_filename s) \<and>
    (0 < wd \<longrightarrow> error s' = 0 \<and>
      bt_get (by_wd s') = filed (bt_get (by_wd s)) wd (next_id s) \<and>
      bt_get (by_filename s') = filed (bt_get (by_filename s))
        (cstring f @ (if r \<noteq> -1 \<and> mode AND S_IFMT = S_IFDIR \<and>
           (cstring f = [] \<or> last (cstring f) \<noteq> CHR ''/'') then ''/'' else []))
        (next_id s))"
proof (cases "wd < 0")
  case True
  with ini mode add inv show ?thesis
    by (auto simp: watch_file_def watch_files_def watch_one_def add_kernel_watch_def sys_def
        Let_def ceprint_def)
next
  case False
  let ?f = "cstring f"
  let ?t = "s\<lparr>error := 0, world := w'\<rparr>"
  obtain dir u where u: "isdir os ?f ?t = (dir, u)" by (metis surj_pair)
  then have dir: "dir \<longleftrightarrow> r \<noteq> -1 \<and> mode AND S_IFMT = S_IFDIR"
    using stat by (auto simp: isdir_def sys_def Let_def split: if_splits)
  have u': "table_inv u" "error u = 0" "by_wd u = by_wd s" "by_filename u = by_filename s" "next_id u = next_id s"
    using u inv stat by (auto simp: isdir_def sys_def Let_def ceprint_def split: if_splits)
  define name where "name = ?f @ (if r \<noteq> -1 \<and> mode AND S_IFMT = S_IFDIR \<and>
     (?f = [] \<or> last ?f \<noteq> CHR ''/'') then ''/'' else [])"
  have NUL: "cstring name = name" by (simp add: name_def cstring_id)
  have wd: "0 < wd" using False add(2) by simp
  let ?r = "register os wd None name 0 u"
  have "watch_file os f events s = Some (True, ?r)"
    using False ini mode add u dir wd
    by (auto simp: watch_file_def watch_files_def watch_one_def add_kernel_watch_def sys_def
        Let_def create_watch_register name_def)
  moreover have "error ?r = 0" using u'(2) by (simp add: register_def Let_def drop_watch_def)
  ultimately show ?thesis
    using wd register_inv [OF u'(1) wd] register_table(1,2) [OF u'(1)] u' NUL
    by (simp add: name_def)
qed

subsection \<open>Clean-up\<close>

text \<open>The directory handles the watches own, in the order they are dropped.\<close>

definition open_dirs :: "'w machine \<Rightarrow> nat list \<Rightarrow> int list" where
  "open_dirs s ns = filter (\<lambda>d. d \<noteq> 0) (map w_dirf (List.map_filter (watches s) ns))"

lemma drop_all_world:
  "drop_all os ns s = s\<lparr>world := fold (os_close os) (open_dirs s ns) (world s)\<rparr>"
proof (induction ns arbitrary: s)
  case Nil
  then show ?case by (simp add: open_dirs_def List.map_filter_simps)
next
  case (Cons n ns)
  then show ?case
    by (cases "watches s n") (auto simp: open_dirs_def drop_watch_def sysw_def map_filter_simps)
qed

lemma cleanup_eq:
  assumes "initialized s"
  shows "cleanup os s = s\<lparr>initialized := False, collect_stats := False, error := 0, timefmt := None,
      regex := None, by_wd := [], by_fid := [], by_filename := [], watches := Map.empty,
      world := fold (os_close os) (fd s # open_dirs s [0..<next_id s]) (world s)\<rparr>"
proof -
  have dirs: "open_dirs (t\<lparr>by_filename := m\<rparr>) ns = open_dirs t ns"
    "open_dirs (t\<lparr>by_wd := wm\<rparr>) ns = open_dirs t ns" "open_dirs (t\<lparr>by_fid := fm\<rparr>) ns = open_dirs t ns"
    "open_dirs (t\<lparr>regex := r\<rparr>) ns = open_dirs t ns" "open_dirs (t\<lparr>timefmt := tf\<rparr>) ns = open_dirs t ns"
    "open_dirs (t\<lparr>error := er\<rparr>) ns = open_dirs t ns" "open_dirs (t\<lparr>collect_stats := c\<rparr>) ns = open_dirs t ns"
    "open_dirs (t\<lparr>initialized := i\<rparr>) ns = open_dirs t ns" "open_dirs (t\<lparr>world := w\<rparr>) ns = open_dirs t ns"
    for t :: "'a machine" and m wm fm r tf er c i w ns
    by (simp_all add: open_dirs_def)
  show ?thesis using assms by (simp add: cleanup_def drop_all_world sysw_def dirs Let_def)
qed

text \<open>C28.
  Cleaning up closes the inotify descriptor and then every directory handle that a watch owns,
  each exactly once, and leaves an uninitialised library that watches nothing, filters nothing
  and has no error; initialising it again (with a kernel that grants a descriptor) gives a library
  that is ready and watches nothing.\<close>

theorem cleanup_correct:
  assumes inv: "table_inv s" and ini: "initialized s"
    and s': "s' = cleanup os s"
    and grant: "os_inotify_init os (world s') = ((d, e), w')" "0 \<le> d"
  shows "world s' = fold (os_close os) (fd s # open_dirs s [0..<next_id s]) (world s) \<and>
    \<not> initialized s' \<and> table_inv s' \<and> watches s' = Map.empty \<and> get_num_watches s' = 0 \<and>
    regex s' = None \<and> timefmt s' = None \<and> \<not> collect_stats s' \<and> error s' = 0 \<and>
    (\<exists>s''. initialize os s' = (True, s'') \<and> initialized s'' \<and> table_inv s'' \<and> fd s'' = d \<and>
       \<not> fanotify_mode s'' \<and> get_num_watches s'' = 0)"
proof -
  have range: "0 \<le> next_fanotify_wd s" "next_fanotify_wd s < 2 ^ 31"
    using table_invD(5,6) [OF inv] .
  note c = cleanup_eq [OF ini, of os]
  have i: "table_inv s'"
    using range unfolding s' c
    by (simp add: table_inv_def wd_ix.points_def fid_ix.points_def name_ix.points_def)
  have "\<exists>s''. initialize os s' = (True, s'') \<and> initialized s'' \<and> table_inv s'' \<and> fd s'' = d \<and>
       \<not> fanotify_mode s'' \<and> get_num_watches s'' = 0"
    using grant range unfolding s' c
    by (simp add: initialize_def init_def sys_def Let_def table_inv_def wd_ix.points_def
        fid_ix.points_def name_ix.points_def get_num_watches_def wrap32_def)
  with i show ?thesis
    unfolding s' c by (simp add: get_num_watches_def wrap32_def)
qed

theorem cleanup_correct_witness:
  "initialized (one_watch ''/tmp'') \<and>
   (let s' = cleanup quiet_os (one_watch ''/tmp'')
    in \<not> initialized s' \<and> get_num_watches s' = 0 \<and> fst (initialize quiet_os s'))"
proof -
  have "os_inotify_init quiet_os (world (cleanup quiet_os (one_watch ''/tmp''))) = ((3, 0), ())"
    by (simp add: quiet_os_def)
  from cleanup_correct [OF _ _ refl this] one_watch_facts [of "''/tmp''"] show ?thesis
    by (auto simp: cstring_def Let_def)
qed

end
