(* ===== verification/TreeWalk.thy ===== *)
theory TreeWalk
  imports Setup
begin

text \<open>
  Watching directory trees (\<open>inotify.rs\<close>, \<open>watch_recursively\<close>). The walk has fuel, one unit per
  directory entered and per entry read.
\<close>

definition is_excluded :: "string \<Rightarrow> string list \<Rightarrow> bool" where
  "is_excluded next_file exclude_list =
     list_ex (\<lambda>ex. let l = (if ex \<noteq> [] \<and> last ex = CHR ''/'' then length ex - 1 else length ex)
                   in length next_file = l + 1 \<and> take l ex = take l next_file) exclude_list"

subsection \<open>Watching directory trees\<close>

fun watch_recursively_with_exclude ::
  "'w os \<Rightarrow> nat \<Rightarrow> string \<Rightarrow> u32 \<Rightarrow> string list \<Rightarrow> 'w machine \<Rightarrow> (bool \<times> 'w machine) option"
and watch_entries ::
  "'w os \<Rightarrow> nat \<Rightarrow> int \<Rightarrow> string \<Rightarrow> u32 \<Rightarrow> string list \<Rightarrow> 'w machine \<Rightarrow> (bool \<times> 'w machine) option"
where
  "watch_recursively_with_exclude os 0 path events exclude_list s = None"
| "watch_recursively_with_exclude os (Suc fuel) path events exclude_list s =
     (let s = (assert_init s)\<lparr>error := 0\<rparr>;
          path = cstring path;
          ((dir, e), s) = sys (os_opendir os path) s
      in case dir of
           None \<Rightarrow> if e = ENOTDIR then watch_file os path events s else Some (False, s\<lparr>error := e\<rparr>)
         | Some dir \<Rightarrow>
             let my_path = (if path = [] \<or> last path \<noteq> CHR ''/'' then path @ ''/'' else path)
             in case watch_entries os fuel dir my_path events exclude_list s of
                  None \<Rightarrow> None
                | Some (ok, s) \<Rightarrow>
                    let s = sysw (os_closedir os dir) s
                    in if ok then watch_file os my_path events s else Some (False, s))"
| "watch_entries os 0 dir my_path events exclude_list s = None"
| "watch_entries os (Suc fuel) dir my_path events exclude_list s =
     (let (ent, s) = sys (os_readdir os dir) s
      in case ent of
           None \<Rightarrow> Some (True, s)
         | Some name \<Rightarrow>
             if name = ''.'' \<or> name = ''..''
             then watch_entries os fuel dir my_path events exclude_list (s\<lparr>error := 0\<rparr>)
             else let ((r, e, mode), s) = sys (os_lstat os (cstring (my_path @ name))) s
                  in if r = -1
                     then let s = s\<lparr>error := e\<rparr>
                          in if e \<noteq> EACCES then Some (False, s)
                             else watch_entries os fuel dir my_path events exclude_list (s\<lparr>error := 0\<rparr>)
                     else if mode AND S_IFMT = S_IFDIR \<and> \<not> is_excluded (my_path @ name @ ''/'') exclude_list
                     then case watch_recursively_with_exclude os fuel (my_path @ name @ ''/'') events
                                 exclude_list s of
                            None \<Rightarrow> None
                          | Some (status, s) \<Rightarrow>
                              if \<not> status \<and> error s \<noteq> EACCES \<and> error s \<noteq> ENOENT \<and> error s \<noteq> ELOOP
                              then Some (False, s)
                              else watch_entries os fuel dir my_path events exclude_list (s\<lparr>error := 0\<rparr>)
                     else watch_entries os fuel dir my_path events exclude_list (s\<lparr>error := 0\<rparr>))"

definition watch_recursively ::
  "'w os \<Rightarrow> nat \<Rightarrow> string \<Rightarrow> u32 \<Rightarrow> 'w machine \<Rightarrow> (bool \<times> 'w machine) option" where
  "watch_recursively os fuel path events s = watch_recursively_with_exclude os fuel path events [] s"

subsection \<open>Directory trees\<close>

text \<open>
  What a directory stream delivers: the entries of a directory in order, each with the node it
  names. The entries \<open>.\<close> and \<open>..\<close> may be among them.
\<close>

datatype node = Leaf | Dir entries
  and entries = No_more | Entry string node entries

fun is_dir :: "node \<Rightarrow> bool" where
  "is_dir Leaf = False"
| "is_dir (Dir es) = True"

fun entry_names :: "entries \<Rightarrow> string list" where
  "entry_names No_more = []"
| "entry_names (Entry n t es) = n # entry_names es"

definition slashed :: "string \<Rightarrow> string" where
  "slashed p = (if p = [] \<or> last p \<noteq> CHR ''/'' then p @ ''/'' else p)"

text \<open>A directory is excluded when the list has its path, with or without the final slash.\<close>

definition excluded :: "string \<Rightarrow> string list \<Rightarrow> bool" where
  "excluded d ex \<longleftrightarrow> d \<in> set ex \<or> d @ ''/'' \<in> set ex"

text \<open>The directories to watch, below \<open>p\<close> and \<open>p\<close> itself, children before their parents.\<close>

fun tree_dirs :: "string list \<Rightarrow> string \<Rightarrow> node \<Rightarrow> string list"
  and entry_dirs :: "string list \<Rightarrow> string \<Rightarrow> entries \<Rightarrow> string list" where
  "tree_dirs ex p Leaf = []"
| "tree_dirs ex p (Dir es) = entry_dirs ex p es @ [p]"
| "entry_dirs ex p No_more = []"
| "entry_dirs ex p (Entry n t es) =
     (if n = ''.'' \<or> n = ''..'' \<or> excluded (p @ n) ex then [] else tree_dirs ex (p @ n @ ''/'') t)
     @ entry_dirs ex p es"

text \<open>The nodes of the tree are what the file system \<open>fs\<close> has at their paths.\<close>

fun laid_out :: "(string \<Rightarrow> node option) \<Rightarrow> string \<Rightarrow> node \<Rightarrow> bool"
  and laid_entries :: "(string \<Rightarrow> node option) \<Rightarrow> string \<Rightarrow> entries \<Rightarrow> bool" where
  "laid_out fs p Leaf = True"
| "laid_out fs p (Dir es) = (fs p = Some (Dir es) \<and> laid_entries fs p es)"
| "laid_entries fs p No_more = True"
| "laid_entries fs p (Entry n t es) =
     ((n = ''.'' \<or> n = ''..'' \<or> n \<noteq> [] \<and> NUL \<notin> set n \<and> CHR ''/'' \<notin> set n \<and>
       fs (p @ n) = Some t \<and> laid_out fs (p @ n @ ''/'') t) \<and> laid_entries fs p es)"

text \<open>
  A system that serves the file system: \<open>view w\<close> are the open directory streams and what is left
  to be read from each. Opening a directory gives a stream of its entries, opening anything else
  fails with \<open>ENOTDIR\<close>; reading takes the next entry of that stream; \<open>lstat\<close> tells directories
  from other files; existing files can be watched; and no call disturbs another stream.
\<close>

definition serves ::
  "'w os \<Rightarrow> ('w \<Rightarrow> int \<Rightarrow> string list option) \<Rightarrow> (string \<Rightarrow> node option) \<Rightarrow> int \<Rightarrow> bool" where
  "serves os view fs fdn \<longleftrightarrow>
     (\<forall>p es w. fs p = Some (Dir es) \<longrightarrow> (\<exists>d e w'. os_opendir os p w = ((Some d, e), w') \<and>
        view w d = None \<and> view w' = (view w)(d \<mapsto> entry_names es))) \<and>
     (\<forall>p w. fs p = Some Leaf \<longrightarrow>
        (\<exists>w'. os_opendir os p w = ((None, ENOTDIR), w') \<and> view w' = view w)) \<and>
     (\<forall>d n ns w. view w d = Some (n # ns) \<longrightarrow>
        (\<exists>w'. os_readdir os d w = (Some n, w') \<and> view w' = (view w)(d \<mapsto> ns))) \<and>
     (\<forall>d w. view w d = Some [] \<longrightarrow> (\<exists>w'. os_readdir os d w = (None, w') \<and> view w' = view w)) \<and>
     (\<forall>d w. view (os_closedir os d w) = (view w)(d := None)) \<and>
     (\<forall>p t w. fs p = Some t \<longrightarrow> (\<exists>e mode w'. os_lstat os p w = ((0, e, mode), w') \<and>
        view w' = view w \<and> (mode AND S_IFMT = S_IFDIR \<longleftrightarrow> is_dir t))) \<and>
     (\<forall>p t m w. fs p = Some t \<longrightarrow> (\<exists>wd e w'. os_inotify_add_watch os fdn p m w = ((wd, e), w') \<and>
        0 < wd \<and> view w' = view w))"

lemma servesD:
  assumes "serves os view fs fdn"
  shows "fs p = Some (Dir es) \<Longrightarrow> \<exists>d e w'. os_opendir os p w = ((Some d, e), w') \<and>
      view w d = None \<and> view w' = (view w)(d \<mapsto> entry_names es)"
    and "fs p = Some Leaf \<Longrightarrow> \<exists>w'. os_opendir os p w = ((None, ENOTDIR), w') \<and> view w' = view w"
    and "view w d = Some (n # ns) \<Longrightarrow> \<exists>w'. os_readdir os d w = (Some n, w') \<and> view w' = (view w)(d \<mapsto> ns)"
    and "view w d = Some [] \<Longrightarrow> \<exists>w'. os_readdir os d w = (None, w') \<and> view w' = view w"
    and "view (os_closedir os d w) = (view w)(d := None)"
    and "fs p = Some t \<Longrightarrow> \<exists>e mode w'. os_lstat os p w = ((0, e, mode), w') \<and>
      view w' = view w \<and> (mode AND S_IFMT = S_IFDIR \<longleftrightarrow> is_dir t)"
    and "fs p = Some t \<Longrightarrow> \<exists>wd e w'. os_inotify_add_watch os fdn p m w = ((wd, e), w') \<and>
      0 < wd \<and> view w' = view w"
  using assms unfolding serves_def by blast+

lemma is_excluded_iff:
  assumes "d \<noteq> []" and "last d \<noteq> CHR ''/''"
  shows "is_excluded (d @ ''/'') ex \<longleftrightarrow> excluded d ex"
proof -
  have "(let l = (if e \<noteq> [] \<and> last e = CHR ''/'' then length e - 1 else length e)
         in length (d @ ''/'') = l + 1 \<and> take l e = take l (d @ ''/'')) \<longleftrightarrow> e = d \<or> e = d @ ''/''" for e
  proof (cases "e \<noteq> [] \<and> last e = CHR ''/''")
    case True
    then obtain x where "e = x @ ''/''" by (metis append_butlast_last_id)
    then show ?thesis using assms by (auto simp: Let_def)
  next
    case False
    then show ?thesis using assms by (auto simp: Let_def)
  qed
  then show ?thesis
    unfolding is_excluded_def excluded_def list_ex_iff by auto
qed

subsection \<open>The walk\<close>

text \<open>From \<open>s\<close> to \<open>s'\<close> exactly the names in \<open>ds\<close> were added; the streams are \<open>v\<close>.\<close>

definition walked ::
  "('w \<Rightarrow> int \<Rightarrow> string list option) \<Rightarrow> 'w machine \<Rightarrow> string set \<Rightarrow> (int \<Rightarrow> string list option) \<Rightarrow>
     'w machine \<Rightarrow> bool" where
  "walked view s ds v s' \<longleftrightarrow> (\<exists>k. grown k s s') \<and>
     dom (bt_get (by_filename s')) = dom (bt_get (by_filename s)) \<union> ds \<and> view (world s') = v"

lemma walked_trans: "walked view s ds v t \<Longrightarrow> walked view t ds' v' u \<Longrightarrow> walked view s (ds \<union> ds') v' u"
  unfolding walked_def by (auto intro: grown_trans)

lemma walked_effects:
  "walked view s ds v (t\<lparr>error := e\<rparr>) = walked view s ds v t"
  "walked view (s\<lparr>error := e\<rparr>) ds v t = walked view s ds v t"
  "walked view (s\<lparr>world := w\<rparr>) ds v t = walked view s ds v t"
  by (simp_all add: walked_def grown_simps)

definition walker :: "int \<Rightarrow> 'w machine \<Rightarrow> bool" where
  "walker fdn s \<longleftrightarrow> table_inv s \<and> initialized s \<and> \<not> fanotify_mode s \<and> fd s = fdn"

lemma walker_effects [simp]:
  "walker fdn (s\<lparr>error := e\<rparr>) = walker fdn s" "walker fdn (s\<lparr>world := w\<rparr>) = walker fdn s"
  by (simp_all add: walker_def)

lemma walked_walker: "walked view s ds v t \<Longrightarrow> walker fdn s \<Longrightarrow> walker fdn t"
  unfolding walked_def walker_def using grownD(1,3) [of _ s t] settings_sel(1-3) [of t s] by auto

lemma register_world: "world (register os wd fid f 0 s) = world s"
  by (simp add: register_def drop_watch_def Let_def)

lemma walk_file:
  assumes serves: "serves os view fs fdn" and s: "walker fdn s" and p: "fs p = Some t" "NUL \<notin> set p"
  shows "\<exists>s'. watch_file os p events s = Some (True, s') \<and>
    walked view s {if is_dir t then slashed p else p} (view (world s)) s'"
proof -
  obtain wd e w' where a: "os_inotify_add_watch os fdn p events (world s) = ((wd, e), w')" "0 < wd"
    "view w' = view (world s)"
    using servesD(7) [OF serves p(1)] by blast
  obtain e' mode w'' where l: "os_lstat os p w' = ((0, e', mode), w'')" "view w'' = view w'"
    "mode AND S_IFMT = S_IFDIR \<longleftrightarrow> is_dir t"
    using servesD(6) [OF serves p(1)] by blast
  define name where "name = (if is_dir t then slashed p else p)"
  let ?u = "s\<lparr>error := 0, world := w''\<rparr>"
  have NUL: "cstring name = name" using p(2) by (auto simp: name_def slashed_def cstring_id)
  have inv: "table_inv ?u" using s by (simp add: walker_def)
  have "watch_file os p events s = Some (True, register os wd None name 0 ?u)"
    using s a l p
    by (auto simp: walker_def watch_file_def watch_files_def watch_one_def add_kernel_watch_def
        sys_def Let_def isdir_def cstring_id create_watch_register name_def slashed_def)
  moreover have "grown 1 s (register os wd None name 0 ?u)"
    using register_grown [OF inv a(2), of os None name 0] by (simp add: grown_simps)
  ultimately show ?thesis
    using register_table(2) [OF inv, where os = os and wd = wd and fid = None and filename = name and dirf = 0]
      NUL a(3) l(2)
    by (auto simp: walked_def register_world filed_def name_def)
qed

text \<open>A step of the loop over the entries.\<close>

lemma slash_end [simp]: "last (p @ n @ ''/'') = CHR ''/''" "slashed (p @ n @ ''/'') = p @ n @ ''/''"
  by (simp_all add: slashed_def)

lemma walk_correct:
  fixes os :: "'w os"
  assumes serves: "serves os view fs fdn"
  shows "\<lbrakk>is_dir t; laid_out fs (slashed p) t; fs p = Some t; NUL \<notin> set p; walker fdn s; size t < fuel\<rbrakk> \<Longrightarrow>
      \<exists>s'. watch_recursively_with_exclude os fuel p events ex s = Some (True, s') \<and>
        walked view s (set (tree_dirs ex (slashed p) t)) (view (world s)) s'"
    and "\<lbrakk>laid_entries fs p es; NUL \<notin> set p; last p = CHR ''/''; p \<noteq> []; walker fdn s; size es < fuel;
        view (world s) d = Some (entry_names es)\<rbrakk> \<Longrightarrow>
      \<exists>s'. watch_entries os fuel d p events ex s = Some (True, s') \<and>
        walked view s (set (entry_dirs ex p es)) ((view (world s))(d \<mapsto> [])) s'"
proof (induction t and es arbitrary: p fuel s and p fuel s d)
  case Leaf
  then show ?case by simp
next
  case (Dir es)
  let ?p = "slashed p"
  from Dir.prems(6) obtain f where f: "fuel = Suc f" "size es < f" by (cases fuel) auto
  have p: "cstring p = p" "NUL \<notin> set ?p" "last ?p = CHR ''/''" "?p \<noteq> []" "slashed ?p = ?p"
    using Dir.prems(4) by (auto simp: cstring_id slashed_def)
  from servesD(1) [OF serves Dir.prems(3)] obtain d e w' where
    o': "os_opendir os p (world s) = ((Some d, e), w')" "view (world s) d = None"
      "view w' = (view (world s))(d \<mapsto> entry_names es)"
    by blast
  let ?t = "s\<lparr>error := 0, world := w'\<rparr>"
  have t: "walker fdn ?t" using Dir.prems(5) by simp
  have "view (world ?t) d = Some (entry_names es)" using o' by simp
  moreover have "laid_entries fs ?p es" using Dir.prems(2) by simp
  ultimately obtain u where
    u: "watch_entries os f d ?p events ex ?t = Some (True, u)"
      "walked view ?t (set (entry_dirs ex ?p es)) ((view (world ?t))(d \<mapsto> [])) u"
    using Dir.IH [OF _ p(2-4) t f(2)] by blast
  let ?v = "u\<lparr>world := os_closedir os d (world u)\<rparr>"
  have view_v: "view (world ?v) = view (world s)"
    using u(2) o'(2,3) servesD(5) [OF serves] by (auto simp: walked_def)
  have v: "walker fdn ?v" using walked_walker [OF u(2) t] by simp
  have fs: "fs ?p = Some (Dir es)" using Dir.prems(2) by simp
  from walk_file [OF serves v fs p(2), of events] obtain x where
    x: "watch_file os ?p events ?v = Some (True, x)" "walked view ?v {?p} (view (world s)) x"
    using p(5) view_v by auto
  have "walked view s (set (entry_dirs ex ?p es)) (view (world s)) ?v"
    using u(2) view_v by (simp add: walked_def grown_simps)
  with x(2) have "walked view s (set (tree_dirs ex ?p (Dir es))) (view (world s)) x"
    using walked_trans by fastforce
  moreover have "watch_recursively_with_exclude os fuel p events ex s = Some (True, x)"
    using Dir.prems(5) o'(1) u(1) x(1) p(1)
    by (simp add: f(1) walker_def sys_def sysw_def slashed_def)
  ultimately show ?case by blast
next
  case No_more
  then obtain f where f: "fuel = Suc f" by (cases fuel) auto
  from No_more servesD(4) [OF serves] obtain w' where
    "os_readdir os d (world s) = (None, w')" "view w' = view (world s)"
    by (metis entry_names.simps(1))
  moreover have "(view (world s))(d \<mapsto> []) = view (world s)" using No_more by auto
  moreover have "grown 0 s s" using No_more(5) by (intro grown_refl) (simp add: walker_def)
  ultimately show ?case
    by (auto simp: f sys_def walked_def grown_simps)
next
  case (Entry n t es)
  let ?V = "(view (world s))(d \<mapsto> entry_names es)"
  from Entry.prems(6) obtain f where f: "fuel = Suc f" "size t < f" "size es < f" by (cases fuel) auto
  from Entry.prems(7) servesD(3) [OF serves] obtain w' where
    r: "os_readdir os d (world s) = (Some n, w')" "view w' = ?V"
    by (metis entry_names.simps(2))
  have inv: "table_inv s" using Entry.prems(5) by (simp add: walker_def)
  have rest: "\<exists>s'. watch_entries os f d p events ex (u\<lparr>error := 0\<rparr>) = Some (True, s') \<and>
      walked view s (D \<union> set (entry_dirs ex p es)) ((view (world s))(d \<mapsto> [])) s'"
    if "walked view s D ?V u" for u D
  proof -
    have "walker fdn (u\<lparr>error := 0\<rparr>)" using walked_walker [OF that Entry.prems(5)] by simp
    moreover have "view (world (u\<lparr>error := 0\<rparr>)) d = Some (entry_names es)" "view (world u) = ?V"
      using that by (simp_all add: walked_def)
    moreover have "laid_entries fs p es" using Entry.prems(1) by simp
    ultimately obtain x where "watch_entries os f d p events ex (u\<lparr>error := 0\<rparr>) = Some (True, x)"
      "walked view (u\<lparr>error := 0\<rparr>) (set (entry_dirs ex p es)) ((view (world u))(d \<mapsto> [])) x"
      using Entry.IH(2) [OF _ Entry.prems(2-4) _ f(3), of "u\<lparr>error := 0\<rparr>" d] by fastforce
    with that \<open>view (world u) = ?V\<close> show ?thesis
      using walked_trans [OF that, of "set (entry_dirs ex p es)"] by (auto simp: walked_effects)
  qed
  have skip: "walked view s {} ?V (s\<lparr>world := w\<rparr>)" if "view w = ?V" for w
    using that grown_refl [OF inv] by (auto simp: walked_def grown_simps)
  show ?case
  proof (cases "n = ''.'' \<or> n = ''..''")
    case True
    with rest [OF skip [OF r(2)]] r(1) show ?thesis
      by (auto simp: f(1) sys_def simp del: fun_upd_apply)
  next
    case False
    with Entry.prems(1) have n: "n \<noteq> []" "NUL \<notin> set n" "CHR ''/'' \<notin> set n" "fs (p @ n) = Some t"
      "laid_out fs (p @ n @ ''/'') t" by simp_all
    have "last n \<in> set n" using n(1) by (rule last_in_set)
    with n(3) have "last n \<noteq> CHR ''/''" by metis
    with n(1) have last: "p @ n \<noteq> []" "last (p @ n) \<noteq> CHR ''/''" by simp_all
    obtain e mode w'' where l: "os_lstat os (p @ n) w' = ((0, e, mode), w'')" "view w'' = ?V"
      "mode AND S_IFMT = S_IFDIR \<longleftrightarrow> is_dir t"
      using servesD(6) [OF serves n(4)] r(2) by metis
    let ?u = "s\<lparr>world := w''\<rparr>"
    have cs: "cstring (p @ n) = p @ n" using n(2) Entry.prems(2) by (simp add: cstring_id)
    have excl: "is_excluded (p @ n @ ''/'') ex \<longleftrightarrow> excluded (p @ n) ex"
      using is_excluded_iff [OF last] by simp
    show ?thesis
    proof (cases "is_dir t \<and> \<not> excluded (p @ n) ex")
      case False
      then have "set (entry_dirs ex p (Entry n t es)) = set (entry_dirs ex p es)"
        by (cases t) auto
      with rest [OF skip [OF l(2)]] \<open>\<not> (n = ''.'' \<or> n = ''..'')\<close> False r(1) l cs excl show ?thesis
        by (auto simp: f(1) sys_def simp del: fun_upd_apply)
    next
      case True
      let ?q = "p @ n @ ''/''"
      have q: "fs ?q = Some t" "NUL \<notin> set ?q"
        using True n(2,5) Entry.prems(2) by (cases t; simp)+
      have "walker fdn ?u" using Entry.prems(5) by simp
      from Entry.IH(1) [of ?q, OF _ _ q this f(2)] True n(5) obtain v where
        v: "watch_recursively_with_exclude os f ?q events ex ?u = Some (True, v)"
          "walked view ?u (set (tree_dirs ex ?q t)) (view (world ?u)) v"
        by auto
      then have "walked view s (set (tree_dirs ex ?q t)) ?V v" using l(2) by (simp add: walked_effects)
      from rest [OF this] \<open>\<not> (n = ''.'' \<or> n = ''..'')\<close> True r(1) l cs excl v(1) show ?thesis
        by (auto simp: f(1) sys_def simp del: fun_upd_apply)
    qed
  qed
qed

text \<open>C9.
  Watching a directory tree, on any system that serves a file system: with fuel for its entries
  the walk ends and succeeds; besides what was watched before, exactly the directories of the tree
  are watched then, every one of them except those below and including the excluded ones (or the
  file itself, if it is no directory); every directory stream the walk opened is closed again; the
  table invariant is kept and no other part of the library changed.\<close>

theorem watch_recursively_correct:
  assumes serves: "serves os view fs (fd s)"
    and s: "table_inv s" "initialized s" "\<not> fanotify_mode s"
    and tree: "fs path = Some t" "NUL \<notin> set path" "laid_out fs (slashed path) t" "size t < fuel"
  shows "\<exists>s'. watch_recursively_with_exclude os fuel path events exclude_list s = Some (True, s') \<and>
    table_inv s' \<and> view (world s') = view (world s) \<and> settings s' = settings s \<and>
    (\<forall>d. watch_from_filename s' d \<noteq> None \<longleftrightarrow> watch_from_filename s d \<noteq> None \<or>
       (if is_dir t then d \<in> set (tree_dirs exclude_list (slashed path) t) else d = path))"
proof -
  have w: "walker (fd s) s" using s by (simp add: walker_def)
  have *: ?thesis if "watch_recursively_with_exclude os fuel path events exclude_list s = Some (True, s')"
    "walked view s ds (view (world s)) s'"
    "ds = (if is_dir t then set (tree_dirs exclude_list (slashed path) t) else {path})" for s' ds
  proof -
    from that(2) obtain k where k: "grown k s s'" by (auto simp: walked_def)
    have "watch_from_filename s' d \<noteq> None \<longleftrightarrow> watch_from_filename s d \<noteq> None \<or> d \<in> ds" for d
      using that(2) unfolding walked_def in_dom_names [symmetric] by blast
    moreover have "view (world s') = view (world s)" using that(2) by (simp add: walked_def)
    ultimately show ?thesis using that(1,3) grownD(1,3) [OF k] by (intro exI [of _ s']) simp
  qed
  show ?thesis
  proof (cases t)
    case (Dir es)
    with walk_correct(1) [OF serves _ tree(3,1,2) w tree(4), of events exclude_list] * show ?thesis
      by (metis is_dir.simps(2))
  next
    case Leaf
    obtain f where f: "fuel = Suc f" using tree(4) by (cases fuel) auto
    from servesD(2) [OF serves] tree(1) Leaf obtain w' where
      w': "os_opendir os path (world s) = ((None, ENOTDIR), w')" "view w' = view (world s)" by metis
    let ?s = "s\<lparr>error := 0, world := w'\<rparr>"
    have "walker (fd s) ?s" using w by simp
    from walk_file [OF serves this tree(1,2), of events] Leaf obtain s' where
      s': "watch_file os path events ?s = Some (True, s')" "walked view ?s {path} (view (world s)) s'"
      using w'(2) by auto
    then have "walked view s {path} (view (world s)) s'" by (simp add: walked_effects)
    moreover have "watch_recursively_with_exclude os fuel path events exclude_list s = Some (True, s')"
      using s(2) w'(1) s'(1) tree(2) by (simp add: f sys_def cstring_id)
    ultimately show ?thesis using * Leaf by simp
  qed
qed

text \<open>
  A concrete system for a file system: its state is the list of streams ever opened, closed ones
  being \<open>None\<close>.
\<close>

definition stream_view :: "string list option list \<Rightarrow> int \<Rightarrow> string list option" where
  "stream_view w d = (if 0 \<le> d \<and> nat d < length w then w ! nat d else None)"

definition set_stream :: "int \<Rightarrow> string list option \<Rightarrow> string list option list \<Rightarrow> string list option list" where
  "set_stream d x w = (if 0 \<le> d \<and> nat d < length w then w[nat d := x] else w)"

definition tree_os :: "(string \<Rightarrow> node option) \<Rightarrow> string list option list os" where
  "tree_os fs = quiet_os\<lparr>
     os_opendir := (\<lambda>p w. case fs p of Some (Dir es) \<Rightarrow>
        ((Some (int (length w)), 0), w @ [Some (entry_names es)]) | _ \<Rightarrow> ((None, ENOTDIR), w)),
     os_readdir := (\<lambda>d w. case stream_view w d of Some (n # ns) \<Rightarrow> (Some n, set_stream d (Some ns) w)
        | _ \<Rightarrow> (None, w)),
     os_closedir := (\<lambda>d w. set_stream d None w),
     os_lstat := (\<lambda>p w. case fs p of Some t \<Rightarrow> ((0, 0, if is_dir t then 0x4000 else 0x8000), w)
        | None \<Rightarrow> ((-1, ENOENT, 0), w))\<rparr>"

lemma stream_view_set:
  "0 \<le> d \<and> nat d < length w \<or> x = None \<Longrightarrow>
    stream_view (set_stream d x w) = (stream_view w)(d := x)"
  by (auto simp: stream_view_def set_stream_def fun_eq_iff nth_list_update)

lemma stream_view_push: "stream_view (w @ [x]) = (stream_view w)(int (length w) := x)"
  by (auto simp: stream_view_def fun_eq_iff nth_append)

lemma tree_os_serves: "serves (tree_os fs) stream_view fs fdn"
proof -
  have dir: "(0x4000 :: u32) AND S_IFMT = S_IFDIR" "(0x8000 :: u32) AND S_IFMT \<noteq> S_IFDIR"
    by (simp_all add: S_IFMT_def S_IFDIR_def)
  have open_d: "stream_view w d = Some x \<Longrightarrow> 0 \<le> d \<and> nat d < length w" for w d x
    by (auto simp: stream_view_def split: if_splits)
  have new: "stream_view w (int (length w)) = None" for w
    by (simp add: stream_view_def)
  have upd: "\<exists>w'. f = (r, w') \<and> P w' \<longleftrightarrow> fst f = r \<and> P (snd f)" for f :: "'x \<times> 'y" and r P
    by (cases f) auto
  show ?thesis
    unfolding serves_def
    by (auto simp: tree_os_def quiet_os_def dir stream_view_set stream_view_push new open_d
        split: node.splits)
qed

text \<open>A directory with a file, a directory to be excluded and a subdirectory.\<close>

definition small_tree :: node where
  "small_tree = Dir (Entry ''.'' Leaf (Entry ''f'' Leaf (Entry ''x'' (Dir No_more)
     (Entry ''s'' (Dir No_more) No_more))))"

definition small_fs :: "string \<Rightarrow> node option" where
  "small_fs p = (if p = ''d'' \<or> p = ''d/'' then Some small_tree
     else if p \<in> {''d/x'', ''d/x/'', ''d/s'', ''d/s/''} then Some (Dir No_more)
     else if p = ''d/f'' then Some Leaf else None)"

theorem watch_recursively_correct_witness:
  "\<exists>s'. watch_recursively_with_exclude (tree_os small_fs) 9 ''d'' IN_OPEN [''d/x''] (ready (machine_new [])) =
      Some (True, s') \<and>
    {d. watch_from_filename s' d \<noteq> None} = {''d/s/'', ''d/''} \<and> stream_view (world s') = (\<lambda>_. None)"
proof -
  let ?s = "ready (machine_new []) :: string list option list machine"
  have fs: "small_fs ''d'' = Some small_tree" "laid_out small_fs (slashed ''d'') small_tree"
    "size small_tree < 9"
    by (simp_all add: small_fs_def small_tree_def slashed_def)
  have dirs: "set (tree_dirs [''d/x''] (slashed ''d'') small_tree) = {''d/s/'', ''d/''}" "is_dir small_tree"
    by (auto simp: small_tree_def slashed_def excluded_def)
  have s: "\<not> fanotify_mode ?s" "\<And>d. watch_from_filename ?s d = None"
    "stream_view (world ?s) = (\<lambda>_. None)"
    by (simp_all add: watch_from_filename_def stream_view_def fun_eq_iff)
  have i: "table_inv ?s" and p: "NUL \<notin> set ''d''" by simp_all
  from watch_recursively_correct [OF tree_os_serves i ready_sel(2) s(1) fs(1) p fs(2,3), of IN_OPEN "[''d/x'']"]
  obtain s' where *: "watch_recursively_with_exclude (tree_os small_fs) 9 ''d'' IN_OPEN [''d/x''] ?s = Some (True, s')"
    "stream_view (world s') = stream_view (world ?s)"
    "\<forall>d. watch_from_filename s' d \<noteq> None \<longleftrightarrow> watch_from_filename ?s d \<noteq> None \<or>
       (if is_dir small_tree then d \<in> set (tree_dirs [''d/x''] (slashed ''d'') small_tree) else d = ''d'')"
    by (elim exE conjE) (rule that)
  have "{d. watch_from_filename s' d \<noteq> None} = {''d/s/'', ''d/''}"
    using *(3) unfolding s(2) dirs(1) if_P [OF dirs(2)] by (simp only: Collect_mem_eq simp_thms)
  with *(1,2) s(3) show ?thesis by (intro exI [of _ s'] conjI) simp_all
qed

end
