(* ===== verification/EventNames.thy ===== *)
theory EventNames
  imports Consts
begin

text \<open>
  Event masks as text: \<open>event_to_str_sep_ptr\<close>, which appends names to a 1024-byte buffer in
  place, and \<open>str_to_event_sep\<close>, which parses a separated list of names (\<open>inotify.rs\<close>).
\<close>

subsection \<open>Printing a mask\<close>

definition NAMES :: "(u32 \<times> string) list" where
  "NAMES = [(IN_ACCESS, ''ACCESS''), (IN_MODIFY, ''MODIFY''), (IN_ATTRIB, ''ATTRIB''),
     (IN_CLOSE_WRITE, ''CLOSE_WRITE''), (IN_CLOSE_NOWRITE, ''CLOSE_NOWRITE''),
     (IN_OPEN, ''OPEN''), (IN_MOVED_FROM, ''MOVED_FROM''), (IN_MOVED_TO, ''MOVED_TO''),
     (IN_CREATE, ''CREATE''), (IN_DELETE, ''DELETE''), (IN_DELETE_SELF, ''DELETE_SELF''),
     (IN_UNMOUNT, ''UNMOUNT''), (IN_Q_OVERFLOW, ''Q_OVERFLOW''), (IN_IGNORED, ''IGNORED''),
     (IN_CLOSE, ''CLOSE''), (IN_MOVE_SELF, ''MOVE_SELF''), (IN_ISDIR, ''ISDIR''),
     (IN_ONESHOT, ''ONESHOT'')]"

text \<open>Writes into a byte buffer; out of range they panic.\<close>

definition put :: "nat \<Rightarrow> char \<Rightarrow> string \<Rightarrow> string option" where
  "put i c r = (if i < length r then Some (r[i := c]) else None)"

definition copy_at :: "nat \<Rightarrow> string \<Rightarrow> string \<Rightarrow> string option" where
  "copy_at i s r =
     (if i + length s \<le> length r then Some (take i r @ s @ drop (i + length s) r) else None)"

definition c_strlen :: "string \<Rightarrow> nat" where
  "c_strlen r = (case position (\<lambda>c. c = NUL) r of Some i \<Rightarrow> i | None \<Rightarrow> length r)"

text \<open>The loop over the names: append the separator, then the name.\<close>

fun append_names :: "(u32 \<times> string) list \<Rightarrow> u32 \<Rightarrow> char \<Rightarrow> string \<Rightarrow> string option" where
  "append_names [] events sep r = Some r"
| "append_names ((flag, name) # ns) events sep r =
     (if flag AND events \<noteq> 0 then do {
        let l = c_strlen r;
        r \<leftarrow> put l sep r;
        r \<leftarrow> put (l + 1) NUL r;
        let l = c_strlen r;
        r \<leftarrow> copy_at l name r;
        r \<leftarrow> put (l + length name) NUL r;
        append_names ns events sep r
      } else append_names ns events sep r)"

text \<open>\<open>format!("0x{:08x}")\<close>.\<close>

definition hex_mask :: "u32 \<Rightarrow> string" where
  "hex_mask events = ''0x'' @ pad_left (CHR ''0'') 8 (show_hex events)"

text \<open>The buffer after the call; the returned C string starts at its second byte.\<close>

definition event_to_str_sep_ptr :: "string \<Rightarrow> u32 \<Rightarrow> char \<Rightarrow> string option" where
  "event_to_str_sep_ptr evstr events sep = do {
     ret \<leftarrow> put 0 NUL evstr;
     ret \<leftarrow> put 1 NUL ret;
     ret \<leftarrow> append_names NAMES events sep ret;
     if ret ! 0 = NUL then do {
       let s = hex_mask events;
       ret \<leftarrow> put 0 sep ret;
       ret \<leftarrow> copy_at 1 s ret;
       put (1 + length s) NUL ret
     } else Some ret
   }"

definition event_to_str_sep :: "string \<Rightarrow> u32 \<Rightarrow> char \<Rightarrow> (string \<times> string) option" where
  "event_to_str_sep evstr events sep =
     map_option (\<lambda>r. (cstring (drop 1 r), r)) (event_to_str_sep_ptr evstr events sep)"

definition event_to_str :: "string \<Rightarrow> u32 \<Rightarrow> (string \<times> string) option" where
  "event_to_str evstr events = event_to_str_sep evstr events (CHR '','')"

text \<open>What the caller sees: the names of the set bits joined by the separator.\<close>

definition names_of :: "u32 \<Rightarrow> string list" where
  "names_of events = map snd (filter (\<lambda>e. fst e AND events \<noteq> 0) NAMES)"

fun join :: "char \<Rightarrow> string list \<Rightarrow> string" where
  "join sep [] = []"
| "join sep [x] = x"
| "join sep (x # y # xs) = x @ sep # join sep (y # xs)"

definition mask_text :: "u32 \<Rightarrow> char \<Rightarrow> string" where
  "mask_text events sep =
     (if names_of events = [] then hex_mask events else join sep (names_of events))"

text \<open>The text a buffer holds, and one round of the loop on it.\<close>

definition holds :: "string \<Rightarrow> string \<Rightarrow> bool" where
  "holds r s \<longleftrightarrow> NUL \<notin> set s \<and> (\<exists>t. r = s @ NUL # t)"

lemma holds_strlen: "holds r s \<Longrightarrow> c_strlen r = length s"
proof -
  assume "holds r s"
  then obtain t where r: "r = s @ NUL # t" and s: "NUL \<notin> set s"
    by (auto simp: holds_def)
  from s have "position (\<lambda>c. c = NUL) r = Some (length s)"
    unfolding r by (intro position_append_hit) auto
  then show ?thesis by (simp add: c_strlen_def)
qed

lemma holds_length: "holds r s \<Longrightarrow> length s < length r"
  by (auto simp: holds_def)

lemma holds_cstring: "holds r s \<Longrightarrow> cstring r = s"
  by (auto simp: holds_def cstring_at_NUL)

lemma put_at_end:
  assumes "holds r s" and "length s + 1 < length r" and "c \<noteq> NUL"
  shows "\<exists>r' r''. put (length s) c r = Some r' \<and> put (length s + 1) NUL r' = Some r'' \<and>
    holds r'' (s @ [c]) \<and> length r'' = length r"
proof -
  obtain t where r: "r = s @ NUL # t" using assms(1) by (auto simp: holds_def)
  with assms(2) obtain d t' where t: "t = d # t'" by (cases t) auto
  have "put (length s) c r = Some (s @ c # t)"
    by (simp add: put_def r)
  moreover have "put (length s + 1) NUL (s @ c # t) = Some (s @ c # NUL # t')"
    by (simp add: put_def t list_update_append)
  moreover have "holds (s @ c # NUL # t') (s @ [c])"
    using assms by (auto simp: holds_def)
  ultimately show ?thesis by (auto simp: r t)
qed

lemma copy_at_end:
  assumes "holds r s" and "length s + length x < length r" and "NUL \<notin> set x"
  shows "\<exists>r' r''. copy_at (length s) x r = Some r' \<and>
    put (length s + length x) NUL r' = Some r'' \<and> holds r'' (s @ x) \<and> length r'' = length r"
proof -
  obtain t where r: "r = s @ NUL # t" using assms(1) by (auto simp: holds_def)
  let ?u = "drop (length s + length x) r"
  have len: "length ?u = length r - (length s + length x)" by simp
  with assms(2) obtain d u where u: "?u = d # u" by (cases ?u) auto
  have "copy_at (length s) x r = Some (s @ x @ ?u)"
    using assms(2) by (simp add: copy_at_def r)
  moreover have "put (length s + length x) NUL (s @ x @ ?u) = Some (s @ x @ NUL # u)"
    by (simp add: put_def u list_update_append)
  moreover have "holds (s @ x @ NUL # u) (s @ x)"
    using assms by (auto simp: holds_def)
  moreover have "length (s @ x @ NUL # u) = length r"
    using len u assms(2) by simp
  ultimately show ?thesis by (auto simp: r)
qed

definition tail_text :: "char \<Rightarrow> string list \<Rightarrow> string" where
  "tail_text sep ns = concat (map (\<lambda>n. sep # n) ns)"

lemma append_names_holds:
  assumes "sep \<noteq> NUL" and "\<forall>e\<in>set ns. NUL \<notin> set (snd e)"
    and "holds r s" and "length s + length (concat (map (\<lambda>e. sep # snd e) ns)) < length r"
  shows "\<exists>r'. append_names ns events sep r = Some r' \<and> length r' = length r \<and>
    holds r' (s @ tail_text sep (map snd (filter (\<lambda>e. fst e AND events \<noteq> 0) ns)))"
  using assms
proof (induction ns arbitrary: r s)
  case Nil
  then show ?case by (auto simp: tail_text_def)
next
  case (Cons e ns)
  obtain flag name where e: "e = (flag, name)" by (cases e)
  show ?case
  proof (cases "flag AND events = 0")
    case True
    with Cons show ?thesis by (simp add: e)
  next
    case False
    from Cons.prems have room: "length s + 1 < length r" "NUL \<notin> set name" by (auto simp: e)
    from put_at_end [OF Cons.prems(3) room(1) Cons.prems(1)] obtain r1 r2 where
      r1: "put (length s) sep r = Some r1" "put (length s + 1) NUL r1 = Some r2"
      and h2: "holds r2 (s @ [sep])" and l2: "length r2 = length r" by blast
    have "length (s @ [sep]) + length name < length r2"
      using Cons.prems(4) l2 by (simp add: e)
    from copy_at_end [OF h2 this room(2)] obtain r3 r4 where
      r3: "copy_at (length (s @ [sep])) name r2 = Some r3"
        "put (length (s @ [sep]) + length name) NUL r3 = Some r4"
      and h4: "holds r4 ((s @ [sep]) @ name)" and l4: "length r4 = length r2" by blast
    have "\<exists>r'. append_names ns events sep r4 = Some r' \<and> length r' = length r4 \<and>
      holds r' (((s @ [sep]) @ name) @
        tail_text sep (map snd (filter (\<lambda>e. fst e AND events \<noteq> 0) ns)))"
      using Cons.prems h4 l4 l2 by (intro Cons.IH) (auto simp: e)
    moreover have "append_names (e # ns) events sep r = append_names ns events sep r4"
      using False r1 r3 holds_strlen [OF Cons.prems(3)] holds_strlen [OF h2]
      by (simp add: e Let_def)
    ultimately show ?thesis
      using False l2 l4 by (simp add: e tail_text_def)
  qed
qed

lemma tail_text_join: "ns \<noteq> [] \<Longrightarrow> tail_text sep ns = sep # join sep ns"
  by (induction ns rule: induct_list012) (auto simp: tail_text_def)

lemma NAMES_no_NUL: "\<forall>e\<in>set NAMES. NUL \<notin> set (snd e)"
  by (simp add: NAMES_def)

lemma NAMES_total: "length (concat (map (\<lambda>e. sep # snd e) NAMES)) \<le> 200"
  by (simp add: NAMES_def)

lemma length_hex_mask: "length (hex_mask events) = 10"
  using length_show_hex [of events] by (simp add: hex_mask_def pad_left_def)

lemma hex_mask_no_NUL: "NUL \<notin> set (hex_mask events)"
  using show_base_no_NUL by (auto simp: hex_mask_def pad_left_def show_hex_def)

lemma names_of_no_NUL: "n \<in> set (names_of events) \<Longrightarrow> NUL \<notin> set n"
  using NAMES_no_NUL by (auto simp: names_of_def)

lemma append_NAMES:
  assumes "length evstr = 1024" and "sep \<noteq> NUL"
  shows "\<exists>r r' r''. put 0 NUL evstr = Some r \<and> put 1 NUL r = Some r' \<and>
    append_names NAMES events sep r' = Some r'' \<and> length r'' = 1024 \<and>
    holds r'' (tail_text sep (names_of events))"
proof -
  obtain a e where e: "evstr = a # e" using assms(1) by (cases evstr) auto
  with assms(1) obtain b t where "e = b # t" by (cases e) auto
  with e assms(1) have t: "evstr = a # b # t" "length t = 1022" by auto
  then have p: "put 0 NUL evstr = Some (NUL # b # t)" "put 1 NUL (NUL # b # t) = Some (NUL # NUL # t)"
    by (simp_all add: put_def)
  have "\<exists>r'. append_names NAMES events sep (NUL # NUL # t) = Some r' \<and>
    length r' = length (NUL # NUL # t) \<and>
    holds r' ([] @ tail_text sep (map snd (filter (\<lambda>e. fst e AND events \<noteq> 0) NAMES)))"
    using assms NAMES_no_NUL NAMES_total [of sep] t
    by (intro append_names_holds) (auto simp: holds_def order_le_less_trans)
  with p t show ?thesis
    by (auto simp: names_of_def)
qed

lemma event_to_str_sep_text:
  assumes "length evstr = 1024" and "sep \<noteq> NUL"
  shows "\<exists>buf. event_to_str_sep evstr events sep = Some (mask_text events sep, buf) \<and>
    length buf = 1024"
proof -
  obtain r r' r'' where put: "put 0 NUL evstr = Some r" "put 1 NUL r = Some r'"
    and app: "append_names NAMES events sep r' = Some r''" and len: "length r'' = 1024"
    and h: "holds r'' (tail_text sep (names_of events))"
    using append_NAMES [OF assms] by blast
  show ?thesis
  proof (cases "names_of events = []")
    case True
    with h obtain t where t: "r'' = NUL # t" by (auto simp: holds_def tail_text_def)
    let ?s = "hex_mask events"
    have t2: "length t = 1023" using len t by simp
    then obtain d u where u: "drop 10 t = d # u" by (cases "drop 10 t") auto
    have "copy_at 1 ?s (sep # t) = Some (sep # ?s @ drop 10 t)"
      using t2 by (simp add: copy_at_def length_hex_mask)
    moreover have "put (1 + length ?s) NUL (sep # ?s @ drop 10 t) = Some (sep # ?s @ NUL # u)"
      using t2 u by (simp add: put_def length_hex_mask list_update_append)
    ultimately have "event_to_str_sep_ptr evstr events sep = Some (sep # ?s @ NUL # u)"
      using put app t by (simp add: event_to_str_sep_ptr_def put_def [of 0])
    moreover have "length (sep # ?s @ NUL # u) = 1024"
      using t2 arg_cong [OF u, of length] by (simp add: length_hex_mask)
    ultimately show ?thesis
      using True by (simp add: event_to_str_sep_def mask_text_def cstring_at_NUL hex_mask_no_NUL)
  next
    case False
    with h obtain t where t: "r'' = sep # join sep (names_of events) @ NUL # t"
      and nn: "NUL \<notin> set (join sep (names_of events))"
      by (auto simp: holds_def tail_text_join)
    then have "event_to_str_sep_ptr evstr events sep = Some r''"
      using put app assms(2) by (simp add: event_to_str_sep_ptr_def)
    with False t nn len show ?thesis
      by (simp add: event_to_str_sep_def mask_text_def cstring_at_NUL)
  qed
qed

text \<open>With a NUL separator nothing separates the names, but nothing goes out of range.\<close>

lemma append_names_NUL:
  assumes "\<forall>e\<in>set ns. NUL \<notin> set (snd e)"
    and "holds r s" and "length s + length (concat (map (\<lambda>e. NUL # snd e) ns)) + 1 < length r"
  shows "\<exists>r' s'. append_names ns events NUL r = Some r' \<and> length r' = length r \<and>
    length s' \<le> length s + length (concat (map (\<lambda>e. NUL # snd e) ns)) \<and> holds r' s'"
  using assms
proof (induction ns arbitrary: r s)
  case Nil
  then show ?case by auto
next
  case (Cons e ns)
  obtain flag name where e: "e = (flag, name)" by (cases e)
  show ?case
  proof (cases "flag AND events = 0")
    case True
    with Cons.prems have "\<exists>r' s'. append_names ns events NUL r = Some r' \<and> length r' = length r \<and>
        length s' \<le> length s + length (concat (map (\<lambda>e. NUL # snd e) ns)) \<and> holds r' s'"
      by (intro Cons.IH) (auto simp: e)
    with True show ?thesis by (force simp: e)
  next
    case False
    obtain t where t: "r = s @ NUL # t" "NUL \<notin> set s" using Cons.prems(2) by (auto simp: holds_def)
    with Cons.prems(3) obtain d u where u: "t = d # u" by (cases t) auto
    let ?r2 = "s @ NUL # NUL # u"
    have r1: "put (length s) NUL r = Some r" "put (length s + 1) NUL r = Some ?r2"
      by (simp_all add: put_def t u list_update_append)
    have h2: "holds ?r2 s" "length ?r2 = length r" using t by (auto simp: holds_def u)
    have room: "length s + length name < length ?r2" "NUL \<notin> set name"
      using Cons.prems(1,3) by (auto simp: e t u)
    from copy_at_end [OF h2(1) room] obtain r3 r4 where
      r3: "copy_at (length s) name ?r2 = Some r3" "put (length s + length name) NUL r3 = Some r4"
      and h4: "holds r4 (s @ name)" and l4: "length r4 = length ?r2" by blast
    have "\<exists>r' s'. append_names ns events NUL r4 = Some r' \<and> length r' = length r4 \<and>
        length s' \<le> length (s @ name) + length (concat (map (\<lambda>e. NUL # snd e) ns)) \<and> holds r' s'"
      using Cons.prems h4 l4 h2(2) by (intro Cons.IH) (auto simp: e)
    moreover have "append_names (e # ns) events NUL r = append_names ns events NUL r4"
      using False r1 r3 holds_strlen [OF Cons.prems(2)] holds_strlen [OF h2(1)]
      by (simp add: e Let_def)
    ultimately show ?thesis
      using l4 h2(2) by (force simp: e)
  qed
qed

lemma event_to_str_sep_no_NUL: "event_to_str_sep evstr events sep = Some (t, buf) \<Longrightarrow> NUL \<notin> set t"
  unfolding event_to_str_sep_def by (auto simp del: cstring_def)

lemma event_to_str_sep_total:
  assumes "length evstr = 1024"
  shows "\<exists>t buf. event_to_str_sep evstr events sep = Some (t, buf) \<and> length buf = 1024 \<and>
    NUL \<notin> set t \<and> (sep \<noteq> NUL \<longrightarrow> t = mask_text events sep)"
proof (cases "sep = NUL")
  case False
  from event_to_str_sep_text [OF assms False, of events] obtain buf where
    "event_to_str_sep evstr events sep = Some (mask_text events sep, buf)" "length buf = 1024" by blast
  moreover from this(1) have "NUL \<notin> set (mask_text events sep)"
    using event_to_str_sep_no_NUL by blast
  ultimately show ?thesis by auto
next
  case True
  obtain a e where e: "evstr = a # e" using assms by (cases evstr) auto
  with assms obtain b t where "e = b # t" by (cases e) auto
  with e assms have t: "evstr = a # b # t" "length t = 1022" by auto
  then have p: "put 0 NUL evstr = Some (NUL # b # t)" "put 1 NUL (NUL # b # t) = Some (NUL # NUL # t)"
    by (simp_all add: put_def)
  have "\<exists>r' s'. append_names NAMES events NUL (NUL # NUL # t) = Some r' \<and>
    length r' = length (NUL # NUL # t) \<and>
    length s' \<le> length ([] :: string) + length (concat (map (\<lambda>e. NUL # snd e) NAMES)) \<and> holds r' s'"
    using NAMES_no_NUL NAMES_total [of NUL] t
    by (intro append_names_NUL) (auto simp: holds_def order_le_less_trans)
  then obtain r where r: "append_names NAMES events NUL (NUL # NUL # t) = Some r" "length r = 1024"
    using t by auto
  show ?thesis
  proof (cases "r ! 0 = NUL")
    case False
    with r p True show ?thesis by (auto simp: event_to_str_sep_def event_to_str_sep_ptr_def)
  next
    case nul: True
    from r(2) obtain d u where u: "r = d # u" "length u = 1023" by (cases r) auto
    have "\<exists>buf. put 11 NUL (NUL # hex_mask events @ drop 10 u) = Some buf \<and> length buf = 1024"
      using u by (simp add: put_def length_hex_mask)
    with u nul r p True show ?thesis
      by (auto simp: event_to_str_sep_def event_to_str_sep_ptr_def put_def [of 0]
          copy_at_def length_hex_mask Let_def)
  qed
qed

text \<open>C17.
  Printing a mask never overruns its buffer and ignores what the buffer held before: for every
  previous contents of the 1024-byte buffer and every separator but NUL, the call succeeds, keeps
  the buffer's size, and returns the names of the set bits joined by the separator, or the mask
  in eight hexadecimal digits when no named bit is set.\<close>

theorem event_to_str_sep_correct:
  assumes "length evstr = 1024" and "sep \<noteq> NUL"
  shows "\<exists>buf. event_to_str_sep evstr events sep = Some (mask_text events sep, buf) \<and>
    length buf = 1024"
  by (rule event_to_str_sep_text [OF assms])

theorem event_to_str_sep_correct_witness:
  "length (replicate 1024 CHR ''x'') = 1024 \<and> CHR '':'' \<noteq> NUL \<and>
   (\<exists>buf. event_to_str_sep (replicate 1024 CHR ''x'') (IN_CLOSE_WRITE OR IN_OPEN) (CHR '':'') =
     Some (mask_text (IN_CLOSE_WRITE OR IN_OPEN) (CHR '':''), buf) \<and> length buf = 1024)"
  using event_to_str_sep_correct [of "replicate 1024 CHR ''x''" "CHR '':''" "IN_CLOSE_WRITE OR IN_OPEN"]
  by simp

lemma mask_text_example:
  "mask_text (IN_CLOSE_WRITE OR IN_OPEN) (CHR '':'') = ''CLOSE_WRITE:OPEN:CLOSE''"
  by (simp add: mask_text_def names_of_def NAMES_def in_defs)

subsection \<open>Parsing a list of names\<close>

definition TABLE :: "(string \<times> u32) list" where
  "TABLE = [(''ACCESS'', IN_ACCESS), (''MODIFY'', IN_MODIFY), (''ATTRIB'', IN_ATTRIB),
     (''CLOSE_WRITE'', IN_CLOSE_WRITE), (''CLOSE_NOWRITE'', IN_CLOSE_NOWRITE),
     (''OPEN'', IN_OPEN), (''MOVED_FROM'', IN_MOVED_FROM), (''MOVED_TO'', IN_MOVED_TO),
     (''CREATE'', IN_CREATE), (''DELETE'', IN_DELETE), (''DELETE_SELF'', IN_DELETE_SELF),
     (''UNMOUNT'', IN_UNMOUNT), (''Q_OVERFLOW'', IN_Q_OVERFLOW), (''IGNORED'', IN_IGNORED),
     (''CLOSE'', IN_CLOSE), (''MOVE_SELF'', IN_MOVE_SELF), (''MOVE'', IN_MOVE),
     (''ISDIR'', IN_ISDIR), (''ONESHOT'', IN_ONESHOT), (''ALL_EVENTS'', IN_ALL_EVENTS)]"

text \<open>\<open>onestr_to_event\<close>: 0 for an empty name, -1 (all bits) for an unknown one.\<close>

definition onestr_to_event :: "string \<Rightarrow> u32" where
  "onestr_to_event event =
     (if event = [] then 0
      else case find (\<lambda>e. eq_ignore_ascii_case (fst e) event) TABLE of
             Some e \<Rightarrow> snd e | None \<Rightarrow> -1)"

definition EVENTSTR_SIZE :: nat where
  "EVENTSTR_SIZE = 4096"

text \<open>
  The loop of \<open>str_to_event_sep\<close>: \<open>event1\<close> is the rest of the input, \<open>event2\<close> the position of
  its first separator. (The diagnostic that \<open>niceassert!\<close> prints for a name of 4096 bytes or
  more is not part of the result and is left out.)
\<close>

definition name_len :: "nat option \<Rightarrow> string \<Rightarrow> nat" where
  "name_len event2 event1 =
     (let len = (case event2 of Some p \<Rightarrow> p | None \<Rightarrow> length event1)
      in if len > EVENTSTR_SIZE - 1 then EVENTSTR_SIZE - 1 else len)"

function parse_events :: "char \<Rightarrow> u32 \<Rightarrow> string \<Rightarrow> u32" where
  "parse_events sep ret event1 =
     (if event1 = [] then ret
      else let event2 = position (\<lambda>c. c = sep) event1;
               ret1 = onestr_to_event (take (name_len event2 event1) event1)
           in if ret1 = 0 \<or> ret1 = -1 then ret1
              else case event2 of
                     None \<Rightarrow> ret OR ret1
                   | Some p \<Rightarrow>
                       let event1 = drop (p + 1) event1
                       in if event1 = [] then 0 else parse_events sep (ret OR ret1) event1)"
  by pat_completeness auto
termination
  by (relation "measure (\<lambda>(sep, ret, event1). length event1)") auto

declare parse_events.simps [simp del]

definition str_to_event_sep :: "string option \<Rightarrow> char \<Rightarrow> u32" where
  "str_to_event_sep event sep =
     (if sep = NUL \<or> sep = CHR ''_'' \<or> is_ascii_alphabetic sep then -1
      else case event of
             None \<Rightarrow> 0
           | Some event \<Rightarrow>
               let event = cstring event
               in if event = [] then 0 else parse_events sep 0 event)"

definition str_to_event :: "string option \<Rightarrow> u32" where
  "str_to_event event = str_to_event_sep event (CHR '','')"

subsection \<open>The parser against splitting the list\<close>

fun split_sep :: "char \<Rightarrow> string \<Rightarrow> string list" where
  "split_sep sep [] = [[]]"
| "split_sep sep (c # s) =
     (if c = sep then [] # split_sep sep s
      else (c # hd (split_sep sep s)) # tl (split_sep sep s))"

fun eval_names :: "u32 \<Rightarrow> string list \<Rightarrow> u32" where
  "eval_names ret [] = ret"
| "eval_names ret (t # ts) =
     (let r = onestr_to_event t in if r = 0 \<or> r = -1 then r else eval_names (ret OR r) ts)"

lemma split_sep_nonempty: "split_sep sep s \<noteq> []"
  by (cases s) auto

lemma split_sep_None: "position (\<lambda>c. c = sep) s = None \<Longrightarrow> split_sep sep s = [s]"
  by (induction s) auto

lemma split_sep_Some:
  "position (\<lambda>c. c = sep) s = Some p \<Longrightarrow>
     split_sep sep s = take p s # split_sep sep (drop (Suc p) s)"
  by (induction s arbitrary: p) (auto split: if_splits)

lemma split_sep_append:
  "sep \<notin> set a \<Longrightarrow> split_sep sep (a @ sep # b) = a # split_sep sep b"
  by (induction a) auto

lemma split_sep_join:
  "ns \<noteq> [] \<Longrightarrow> \<forall>n\<in>set ns. sep \<notin> set n \<Longrightarrow> split_sep sep (join sep ns) = ns"
proof (induction sep ns rule: join.induct)
  case (2 sep x)
  then have "position (\<lambda>c. c = sep) x = None" by auto
  then show ?case using split_sep_None by simp
qed (simp_all add: split_sep_append)

lemma TABLE_lengths: "\<forall>e\<in>set TABLE. fst e \<noteq> [] \<and> length (fst e) \<le> 13"
  by (simp add: TABLE_def)

lemma onestr_unknown_long: "13 < length t \<Longrightarrow> onestr_to_event t = -1"
proof -
  assume "13 < length t"
  then have "find (\<lambda>e. eq_ignore_ascii_case (fst e) t) TABLE = None"
    using TABLE_lengths by (auto simp: find_None_iff eq_ignore_ascii_case_def dest!: map_eq_imp_length_eq)
  with \<open>13 < length t\<close> show ?thesis by (auto simp: onestr_to_event_def)
qed

text \<open>Cutting a name at 4095 bytes does not change its meaning: it is unknown either way.\<close>

lemma onestr_name_len:
  "onestr_to_event (take (name_len p e) e) =
     onestr_to_event (take (case p of Some i \<Rightarrow> i | None \<Rightarrow> length e) e)"
proof -
  obtain n where n: "(case p of Some i \<Rightarrow> i | None \<Rightarrow> length e) = n" by simp
  consider "n \<le> 4095" | "4095 < n" "length e \<le> 4095" | "4095 < n" "4095 < length e" by linarith
  then show ?thesis
    unfolding name_len_def n EVENTSTR_SIZE_def by cases (simp_all add: onestr_unknown_long)
qed

lemma parse_events_eval: "e \<noteq> [] \<Longrightarrow> parse_events sep ret e = eval_names ret (split_sep sep e)"
proof (induction sep ret e rule: parse_events.induct)
  case (1 sep ret e)
  let ?p = "position (\<lambda>c. c = sep) e"
  show ?case
  proof (cases ?p)
    case None
    then show ?thesis using "1.prems"
      by (subst parse_events.simps)
        (simp add: split_sep_None onestr_name_len Let_def del: position_None)
  next
    case (Some p)
    let ?r = "onestr_to_event (take p e)"
    have empty: "eval_names r (split_sep sep []) = 0" for r
      by (simp add: onestr_to_event_def)
    have "parse_events sep (ret OR ?r) (drop (Suc p) e) =
      eval_names (ret OR ?r) (split_sep sep (drop (Suc p) e))"
      if "drop (Suc p) e \<noteq> []" "?r \<noteq> 0" "?r \<noteq> -1"
      using "1.IH" [OF "1.prems" refl refl _ Some refl] that Some by (simp add: onestr_name_len)
    then show ?thesis
      using "1.prems" Some empty
      by (subst parse_events.simps) (simp add: split_sep_Some onestr_name_len Let_def)
  qed
qed

lemma eval_names_find:
  "eval_names ret ts =
     (case find (\<lambda>r. r = 0 \<or> r = -1) (map onestr_to_event ts) of
        Some r \<Rightarrow> r | None \<Rightarrow> foldl (OR) ret (map onestr_to_event ts))"
  by (induction ts arbitrary: ret) (auto simp: Let_def split: option.splits)

definition parse_reference :: "string \<Rightarrow> char \<Rightarrow> u32" where
  "parse_reference e sep =
     (let rs = map onestr_to_event (split_sep sep e)
      in case find (\<lambda>r. r = 0 \<or> r = -1) rs of Some r \<Rightarrow> r | None \<Rightarrow> foldl (OR) 0 rs)"

text \<open>C18.
  The in-place parser computes the meaning of the list obtained by splitting the C string at the
  separator: the first element that is empty (0) or unknown (-1) decides, otherwise the result is
  the union of the elements; a separator that can occur in a name, or NUL, gives -1 and an absent
  or empty list 0. In particular a trailing separator gives 0.\<close>

theorem str_to_event_sep_correct:
  "str_to_event_sep event sep =
     (if sep = NUL \<or> sep = CHR ''_'' \<or> is_ascii_alphabetic sep then -1
      else case event of None \<Rightarrow> 0 | Some e \<Rightarrow> parse_reference (cstring e) sep)"
proof -
  have "parse_reference [] sep = 0"
    by (simp add: parse_reference_def onestr_to_event_def)
  moreover have "parse_events sep 0 e = parse_reference e sep" if "e \<noteq> []" for e
    using that by (simp add: parse_events_eval eval_names_find parse_reference_def Let_def)
  ultimately show ?thesis
    by (auto simp: str_to_event_sep_def Let_def split: option.splits)
qed

subsection \<open>Round trip\<close>

lemma TABLE_upper: "list_all (\<lambda>e. map to_ascii_upper (fst e) = fst e) TABLE"
  by code_simp

lemma NAMES_upper: "list_all (\<lambda>e. map to_ascii_upper (snd e) = snd e) NAMES"
  by code_simp

lemma find_TABLE_upper:
  assumes "map to_ascii_upper n = n"
  shows "find (\<lambda>e. eq_ignore_ascii_case (fst e) n) TABLE = find (\<lambda>e. fst e = n) TABLE"
  using TABLE_upper assms
  by (intro find_cong) (auto simp: list_all_iff eq_ignore_ascii_case_def)

lemma onestr_NAMES: "list_all (\<lambda>e. onestr_to_event (snd e) = fst e) NAMES"
proof -
  have "list_all (\<lambda>e. snd e \<noteq> [] \<and> map_option snd (find (\<lambda>t. fst t = snd e) TABLE) = Some (fst e)) NAMES"
    by (simp add: NAMES_def TABLE_def)
  then show ?thesis
    using NAMES_upper
    by (auto simp: list_all_iff onestr_to_event_def find_TABLE_upper split: option.splits)
qed

definition named_bits :: u32 where
  "named_bits = 0xC000EFFF"

definition sep_ok :: "char \<Rightarrow> bool" where
  "sep_ok sep \<longleftrightarrow>
     sep \<noteq> NUL \<and> sep \<noteq> CHR ''_'' \<and> \<not> is_ascii_alphabetic sep \<and> sep \<notin> set ''0123456789''"

text \<open>A parsed mask: the named bits, with either close bit standing for both.\<close>

definition close_closure :: "u32 \<Rightarrow> u32" where
  "close_closure m = (m AND named_bits) OR (if m AND IN_CLOSE \<noteq> 0 then IN_CLOSE else 0)"

lemma NAMES_flags: "e \<in> set NAMES \<Longrightarrow> fst e \<noteq> 0 \<and> fst e \<noteq> -1"
  by (auto simp: NAMES_def in_defs)

lemma name_chars: "list_all (\<lambda>e. list_all (\<lambda>c. c = CHR ''_'' \<or> is_ascii_alphabetic c) (snd e)) NAMES"
  by code_simp

lemma sep_not_in_names: "sep_ok sep \<Longrightarrow> n \<in> set (names_of m) \<Longrightarrow> sep \<notin> set n"
  using name_chars by (fastforce simp: sep_ok_def names_of_def list_all_iff)

lemma names_no_NUL_join: "\<forall>n\<in>set ns. NUL \<notin> set n \<Longrightarrow> sep \<noteq> NUL \<Longrightarrow> NUL \<notin> set (join sep ns)"
  by (induction sep ns rule: join.induct) auto

lemma single_bit_and: "m AND 2 ^ k = (if bit m k then 2 ^ k else (0 :: u32))"
  by (rule bit_eqI) (auto simp: bit_simps)

lemma one_bit_kept: "(if 2 ^ k AND m \<noteq> 0 then 2 ^ k else 0) = m AND (2 ^ k :: u32)"
  by (auto simp: and.commute [of _ m] single_bit_and)

lemma foldl_or: "foldl (OR) a xs = a OR foldl (OR) (0 :: u32) xs"
  by (induction xs arbitrary: a) (simp, metis (no_types) foldl_Cons or.assoc or.left_neutral)

lemma foldl_or_filter:
  "foldl (OR) 0 (map fst (filter (\<lambda>e. fst e AND m \<noteq> 0) ns)) =
     foldl (OR) (0 :: u32) (map (\<lambda>e. if fst e AND m \<noteq> 0 then fst e else 0) ns)"
proof (induction ns)
  case (Cons e ns)
  then show ?case
    using foldl_or [of "fst e" "map fst (filter (\<lambda>e. fst e AND m \<noteq> 0) ns)"]
      foldl_or [of "fst e" "map (\<lambda>e. if fst e AND m \<noteq> 0 then fst e else 0) ns"]
    by simp
qed simp

text \<open>The values of the table's flags, close apart, are single bits.\<close>

lemma names_union:
  "foldl (OR) 0 (map fst (filter (\<lambda>e. fst e AND m \<noteq> 0) NAMES)) = close_closure m"
proof -
  let ?g = "\<lambda>f. if f AND m \<noteq> 0 then f else (0 :: u32)"
  have keep: "?g f = m AND f" if "f = 2 ^ k" for f k
    unfolding that by (rule one_bit_kept)
  have kept:
    "?g 0x1 = m AND 0x1" "?g 0x2 = m AND 0x2" "?g 0x4 = m AND 0x4"
    "?g 0x8 = m AND 0x8" "?g 0x10 = m AND 0x10" "?g 0x20 = m AND 0x20"
    "?g 0x40 = m AND 0x40" "?g 0x80 = m AND 0x80" "?g 0x100 = m AND 0x100"
    "?g 0x200 = m AND 0x200" "?g 0x400 = m AND 0x400" "?g 0x2000 = m AND 0x2000"
    "?g 0x4000 = m AND 0x4000" "?g 0x8000 = m AND 0x8000" "?g 0x800 = m AND 0x800"
    "?g 0x40000000 = m AND 0x40000000" "?g 0x80000000 = m AND 0x80000000"
    by (rule keep [of _ 0] keep [of _ 1] keep [of _ 2] keep [of _ 3] keep [of _ 4] keep [of _ 5]
      keep [of _ 6] keep [of _ 7] keep [of _ 8] keep [of _ 9] keep [of _ 10] keep [of _ 13]
      keep [of _ 14] keep [of _ 15] keep [of _ 11] keep [of _ 30] keep [of _ 31]; simp; fail)+
  have "map fst NAMES = [0x1, 0x2, 0x4, 0x8, 0x10, 0x20, 0x40, 0x80, 0x100, 0x200, 0x400, 0x2000,
    0x4000, 0x8000, 0x18, 0x800, 0x40000000, 0x80000000]"
    by (simp add: NAMES_def in_defs)
  then have "map ?g (map fst NAMES) = [m AND 0x1, m AND 0x2, m AND 0x4, m AND 0x8, m AND 0x10,
    m AND 0x20, m AND 0x40, m AND 0x80, m AND 0x100, m AND 0x200, m AND 0x400, m AND 0x2000,
    m AND 0x4000, m AND 0x8000, ?g 0x18, m AND 0x800, m AND 0x40000000, m AND 0x80000000]"
    by (simp only: list.map kept)
  then have eq: "map (\<lambda>e. ?g (fst e)) NAMES = [m AND 0x1, m AND 0x2, m AND 0x4, m AND 0x8, m AND 0x10,
    m AND 0x20, m AND 0x40, m AND 0x80, m AND 0x100, m AND 0x200, m AND 0x400, m AND 0x2000,
    m AND 0x4000, m AND 0x8000, ?g 0x18, m AND 0x800, m AND 0x40000000, m AND 0x80000000]"
    by (simp only: map_map o_def)
  have bits: "named_bits = 0x1 OR 0x2 OR 0x4 OR 0x8 OR 0x10 OR 0x20 OR 0x40 OR 0x80 OR 0x100
    OR 0x200 OR 0x400 OR 0x2000 OR 0x4000 OR 0x8000 OR 0x800 OR 0x40000000 OR 0x80000000"
    by (simp add: named_bits_def)
  have "foldl (OR) 0 (map (\<lambda>e. ?g (fst e)) NAMES) = (m AND named_bits) OR ?g 0x18"
    unfolding eq bits
    by (simp only: foldl_Cons foldl_Nil or.left_neutral bit.conj_disj_distrib or.assoc)
      (simp only: or.commute [of "?g 0x18"] or.assoc)
  also have "\<dots> = close_closure m"
    by (simp only: close_closure_def IN_CLOSE_eq and.commute [of 24 m])
  finally show ?thesis
    by (simp only: foldl_or_filter)
qed

text \<open>A mask has a name exactly when it has a named bit.\<close>

lemma names_none: "names_of m = [] \<longleftrightarrow> m AND named_bits = 0"
proof -
  have "foldr (OR) (map fst NAMES) 0 = named_bits" by code_simp
  moreover have "m AND foldr (OR) xs 0 = 0 \<longleftrightarrow> (\<forall>x\<in>set xs. x AND m = 0)" for xs
    by (induction xs) (auto simp: bit.conj_disj_distrib or_eq_0_iff and.commute)
  from this [of "map fst NAMES"] calculation show ?thesis by (simp add: names_of_def filter_empty_conv)
qed

text \<open>Parsing the text of a mask.\<close>

lemma parse_mask_text:
  assumes "sep_ok sep"
  shows "str_to_event_sep (Some (mask_text m sep)) sep =
    (if names_of m = [] then -1 else close_closure m)"
proof (cases "names_of m = []")
  case True
  have sep: "sep \<notin> set (hex_mask m)"
  proof -
    have "set (hex_mask m) \<subseteq> {CHR ''0'', CHR ''x''} \<union> set (show_base 16 (unat m))"
      by (auto simp: hex_mask_def pad_left_def show_hex_def)
    with set_show_base [of 16 "unat m"]
    have chars: "set (hex_mask m) \<subseteq> {CHR ''0'', CHR ''x''} \<union> set ''0123456789abcdef''" by blast
    define P where "P c \<longleftrightarrow> c \<in> set ''0123456789'' \<or> is_ascii_alphabetic c" for c
    have "P (CHR ''0'')" "P (CHR ''x'')" "list_all P ''0123456789abcdef''"
      unfolding P_def by code_simp+
    then have "P c" if "c \<in> set (hex_mask m)" for c
      using chars that unfolding list_all_iff by blast
    moreover have "\<not> P sep"
      using assms unfolding P_def sep_ok_def by blast
    ultimately show ?thesis by blast
  qed
  then have "split_sep sep (hex_mask m) = [hex_mask m]"
    by (intro split_sep_None) auto
  moreover have "onestr_to_event (hex_mask m) = -1"
  proof -
    have "list_all (\<lambda>e. to_ascii_upper (hd (fst e)) \<noteq> to_ascii_upper (CHR ''0'') \<and> fst e \<noteq> []) TABLE"
      by code_simp
    then have "\<not> eq_ignore_ascii_case (fst e) (hex_mask m)" if "e \<in> set TABLE" for e
      unfolding eq_ignore_ascii_case_def list_all_iff hex_mask_def
      using that by (cases "fst e") auto
    then have "find (\<lambda>e. eq_ignore_ascii_case (fst e) (hex_mask m)) TABLE = None"
      unfolding find_None_iff by blast
    moreover have "hex_mask m \<noteq> []"
      by (simp add: hex_mask_def)
    ultimately show ?thesis
      by (simp add: onestr_to_event_def)
  qed
  ultimately have "parse_reference (hex_mask m) sep = -1"
    by (simp add: parse_reference_def)
  with assms True show ?thesis
    by (simp add: str_to_event_sep_correct mask_text_def cstring_id hex_mask_no_NUL sep_ok_def)
next
  case False
  let ?ns = "names_of m"
  have nn: "NUL \<notin> set (join sep ?ns)"
    using assms by (intro names_no_NUL_join) (auto simp: names_of_no_NUL sep_ok_def)
  have split: "split_sep sep (join sep ?ns) = ?ns"
    using False assms by (intro split_sep_join) (auto simp: sep_not_in_names)
  have vals: "map onestr_to_event ?ns = map fst (filter (\<lambda>e. fst e AND m \<noteq> 0) NAMES)"
    using onestr_NAMES by (auto simp: names_of_def list_all_iff)
  have "find (\<lambda>r. r = 0 \<or> r = -1) (map fst (filter (\<lambda>e. fst e AND m \<noteq> 0) NAMES)) = None"
    using NAMES_flags by (auto simp: find_None_iff)
  then have "parse_reference (join sep ?ns) sep = close_closure m"
    by (simp add: parse_reference_def split vals names_union)
  with False assms nn show ?thesis
    by (simp add: str_to_event_sep_correct mask_text_def cstring_id sep_ok_def)
qed

text \<open>C19.
  Parsing what was printed, for a separator that occurs in no event name and in no hexadecimal mask:
  whatever the 1024-byte buffer held before, printing a mask succeeds, and parsing the printed text
  gives the mask's named bits together with both close bits as soon as one of them is set (because
  \<open>CLOSE\<close> is printed for either); but a mask without a named bit is printed in hexadecimal, and
  parsing that gives -1. So the parser undoes the printer on masks that consist of named bits, at
  least one, and have both close bits or none.\<close>

theorem parse_print_roundtrip:
  assumes "sep_ok sep" and "length evstr = 1024"
  shows "\<exists>text buf. event_to_str_sep evstr m sep = Some (text, buf) \<and>
    str_to_event_sep (Some text) sep =
      (if m AND named_bits = 0 then -1
       else (m AND named_bits) OR (if m AND IN_CLOSE \<noteq> 0 then IN_CLOSE else 0)) \<and>
    (m \<noteq> 0 \<and> m AND named_bits = m \<and> m AND IN_CLOSE \<in> {0, IN_CLOSE} \<longrightarrow>
       str_to_event_sep (Some text) sep = m)"
proof -
  have "sep \<noteq> NUL" using assms(1) by (simp add: sep_ok_def)
  from event_to_str_sep_text [OF assms(2) this, of m] obtain buf where
    "event_to_str_sep evstr m sep = Some (mask_text m sep, buf)" by blast
  moreover have close: "m OR (m AND IN_CLOSE) = m" by (rule bit_word_eqI) (auto simp: bit_or_iff bit_and_iff)
  have "close_closure m = m" if "m AND named_bits = m" "m AND IN_CLOSE \<in> {0, IN_CLOSE}"
    using that by (cases "m AND IN_CLOSE = 0") (simp_all add: close_closure_def, metis close)
  ultimately show ?thesis
    using parse_mask_text [OF assms(1), of m] by (auto simp: names_none close_closure_def)
qed

theorem parse_print_roundtrip_witness:
  "\<exists>text buf. event_to_str_sep (replicate 1024 NUL) (IN_OPEN OR IN_CLOSE_WRITE) (CHR '','') = Some (text, buf) \<and>
     str_to_event_sep (Some text) (CHR '','') = IN_OPEN OR IN_CLOSE"
proof -
  have "sep_ok (CHR '','')" by code_simp
  from parse_print_roundtrip [OF this, of "replicate 1024 NUL" "IN_OPEN OR IN_CLOSE_WRITE"]
  show ?thesis by (simp add: named_bits_def in_defs)
qed

end
