(* ===== verification/Format.thy ===== *)
theory Format
  imports Paths EventNames
begin

text \<open>
  Formatting events (\<open>inotify.rs\<close>, "Formatting"): \<open>snprintf\<close>, which expands a printf-like format
  into a buffer of \<open>MAX_STRLEN\<close> bytes, and the functions built on it. The index \<open>ind\<close> is a
  \<open>u32\<close>, kept as a number below \<open>2^32\<close>.
\<close>

subsection \<open>Writing into the buffer\<close>

type_synonym buffer = "nat \<Rightarrow> char"

text \<open>Indexing out of range panics.\<close>

definition put_buf :: "nat \<Rightarrow> char \<Rightarrow> buffer \<Rightarrow> buffer option" where
  "put_buf i c buf = (if i < MAX_STRLEN then Some (buf(i := c)) else None)"

text \<open>\<open>strncpy(&buf[ind], src, n)\<close>: \<open>src\<close> cut or zero-filled to \<open>n\<close> bytes, within the buffer.\<close>

definition strncpy :: "buffer \<Rightarrow> nat \<Rightarrow> string \<Rightarrow> nat \<Rightarrow> buffer" where
  "strncpy buf ind src n =
     (if ind \<ge> MAX_STRLEN then buf
      else let end = min (ind + n) MAX_STRLEN
           in (\<lambda>k. if ind \<le> k \<and> k < end
                   then if k - ind < length src then src ! (k - ind) else NUL
                   else buf k))"

text \<open>\<open>out.buf[a..b].copy_from_slice(s)\<close>.\<close>

definition copy_slice :: "nat \<Rightarrow> string \<Rightarrow> buffer \<Rightarrow> buffer option" where
  "copy_slice a s buf =
     (if a + length s \<le> MAX_STRLEN
      then Some (\<lambda>k. if a \<le> k \<and> k < a + length s then s ! (k - a) else buf k) else None)"

definition u32_add :: "nat \<Rightarrow> nat \<Rightarrow> nat" where
  "u32_add a b = (a + b) mod 2 ^ 32"

definition mask_to_str :: "u32 \<Rightarrow> char \<Rightarrow> 'w machine \<Rightarrow> (string \<times> 'w machine) option" where
  "mask_to_str m sep s =
     map_option (\<lambda>(t, b). (t, s\<lparr>evstr := b\<rparr>)) (event_to_str_sep (evstr s) m sep)"

text \<open>\<open>strftime_now\<close>: \<open>None\<close> when the result is empty.\<close>

definition strftime_now :: "'w os \<Rightarrow> string \<Rightarrow> 'w machine \<Rightarrow> string option \<times> 'w machine" where
  "strftime_now os fmt s =
     (let (t, s) = sys (os_strftime os (cstring fmt)) s in (if t = [] then None else Some t, s))"

definition set_printf_timefmt :: "string \<Rightarrow> 'w machine \<Rightarrow> 'w machine" where
  "set_printf_timefmt fmt s = s\<lparr>timefmt := Some (cstring fmt)\<rparr>"

definition clear_timefmt :: "'w machine \<Rightarrow> 'w machine" where
  "clear_timefmt s = s\<lparr>timefmt := None\<rparr>"

subsection \<open>One directive\<close>

text \<open>
  The body of the loop at a \<open>%\<close> that is not the last character: \<open>ch1\<close> follows it, \<open>rest\<close> comes
  after. The result is an early return with the index reached (\<open>Inl\<close>), or the new index and how
  many characters of \<open>rest\<close> the directive used (\<open>Inr\<close>).
\<close>

definition fmt_directive ::
  "'w os \<Rightarrow> int \<Rightarrow> event \<Rightarrow> event_path \<Rightarrow> char \<Rightarrow> string \<Rightarrow> nat \<Rightarrow> buffer \<Rightarrow> 'w machine \<Rightarrow>
     ((nat + nat \<times> nat) \<times> buffer \<times> 'w machine) option" where
  "fmt_directive os sz ev p ch1 rest ind buf s =
     (let room = nat (sz - int ind)
      in if ch1 = CHR ''%'' \<or> ch1 = CHR ''0'' \<or> ch1 = CHR ''n''
         then do {
           buf \<leftarrow> put_buf ind (if ch1 = CHR ''%'' then CHR ''%''
                             else if ch1 = CHR ''0'' then NUL else CHR 0x0A) buf;
           Some (Inr (u32_add ind 1, 0), buf, s)
         }
         else if ch1 = CHR ''w''
         then if ep_dirnamelen p \<le> room
              then Some (Inr (u32_add ind (ep_dirnamelen p), 0),
                         strncpy buf ind (ep_filename p) (ep_dirnamelen p), s)
              else Some (Inr (ind, 0), buf, s)
         else if ch1 = CHR ''f''
         then Some (Inr (u32_add ind (length (ep_eventname p)), 0),
                    strncpy buf ind (ep_eventname p) room, s)
         else if ch1 = CHR ''c''
         then do {
           let x = show_hex (ev_cookie ev);
           let n = min (length x) (room - 1);
           buf \<leftarrow> copy_slice ind (take n x) buf;
           buf \<leftarrow> put_buf (ind + n) NUL buf;
           Some (Inr (u32_add ind (length x), 0), buf, s)
         }
         else if ch1 = CHR ''e''
         then do {
           (x, s) \<leftarrow> mask_to_str (ev_mask ev) (CHR '','') s;
           Some (Inr (u32_add ind (length x), 0), strncpy buf ind x room, s)
         }
         else if ch1 = CHR ''T''
         then let (timestr, s) =
                (case timefmt s of None \<Rightarrow> (Some [], s) | Some tf \<Rightarrow> strftime_now os tf s)
              in case timestr of
                   None \<Rightarrow> Some (Inl ind, buf, set_error EINVAL s)
                 | Some t \<Rightarrow> Some (Inr (u32_add ind (length t), 0), strncpy buf ind t room, s)
         else if rest \<noteq> [] \<and> hd rest = CHR ''e''
         then do {
           (x, s) \<leftarrow> mask_to_str (ev_mask ev) ch1 s;
           Some (Inr (u32_add ind (length x), 1), strncpy buf ind x room, s)
         }
         else do {
           (ind, buf) \<leftarrow> (if ind < MAX_STRLEN
                         then map_option (\<lambda>b. (u32_add ind 1, b)) (put_buf ind (CHR ''%'') buf)
                         else Some (ind, buf));
           (ind, buf) \<leftarrow> (if ind < MAX_STRLEN
                         then map_option (\<lambda>b. (u32_add ind 1, b)) (put_buf ind ch1 buf)
                         else Some (ind, buf));
           Some (Inr (ind, 0), buf, s)
         })"

subsection \<open>The loop and \<open>snprintf\<close>\<close>

text \<open>The last argument but three is the part of the format not yet consumed.\<close>

function fmt_loop ::
  "'w os \<Rightarrow> int \<Rightarrow> event \<Rightarrow> event_path \<Rightarrow> string \<Rightarrow> nat \<Rightarrow> buffer \<Rightarrow> 'w machine \<Rightarrow>
     ((nat + nat) \<times> buffer \<times> 'w machine) option" where
  "fmt_loop os sz ev p fmt ind buf s =
     (if fmt = [] \<or> \<not> int ind < sz - 1 then Some (Inr ind, buf, s)
      else if hd fmt \<noteq> CHR ''%''
      then case put_buf ind (hd fmt) buf of
             None \<Rightarrow> None
           | Some buf \<Rightarrow> fmt_loop os sz ev p (tl fmt) (u32_add ind 1) buf s
      else if tl fmt = [] then Some (Inl ind, buf, set_error EINVAL s)
      else case fmt_directive os sz ev p (hd (tl fmt)) (tl (tl fmt)) ind buf s of
             None \<Rightarrow> None
           | Some (Inl i, buf, s) \<Rightarrow> Some (Inl i, buf, s)
           | Some (Inr (i, k), buf, s) \<Rightarrow> fmt_loop os sz ev p (drop k (tl (tl fmt))) i buf s)"
  by pat_completeness auto
termination
  by (relation "measure (\<lambda>(os, sz, ev, p, fmt, ind, buf, s). length fmt)")
    (auto simp: neq_Nil_conv)

declare fmt_loop.simps [simp del]

definition snprintf ::
  "'w os \<Rightarrow> nstring \<Rightarrow> int \<Rightarrow> event \<Rightarrow> string option \<Rightarrow> 'w machine \<Rightarrow>
     ((int \<times> nstring) \<times> 'w machine) option" where
  "snprintf os out sz ev fmt s = do {
     (path, s) \<leftarrow> filename_from_event os ev s;
     case fmt of
       None \<Rightarrow> Some ((-1, out), set_error EINVAL s)
     | Some f \<Rightarrow>
         if f = [] then Some ((-1, out), set_error EINVAL s)
         else if length f > MAX_STRLEN \<or> sz > int MAX_STRLEN
         then Some ((-1, out), set_error EMSGSIZE s)
         else do {
           (r, buf, s) \<leftarrow> fmt_loop os sz ev path f 0 (ns_buf out) s;
           case r of
             Inl ind \<Rightarrow> Some ((wrap32 (int ind), out\<lparr>ns_buf := buf\<rparr>), s)
           | Inr ind \<Rightarrow> Some ((wrap32 (int ind - 1), \<lparr>ns_buf = buf, ns_len = ind\<rparr>), s)
         }
   }"

definition sprintf ::
  "'w os \<Rightarrow> nstring \<Rightarrow> event \<Rightarrow> string option \<Rightarrow> 'w machine \<Rightarrow>
     ((int \<times> nstring) \<times> 'w machine) option" where
  "sprintf os out ev fmt s = snprintf os out (int MAX_STRLEN) ev fmt s"

text \<open>\<open>fprintf_to\<close>, the stream given by how text is written to it.\<close>

definition fprintf_to ::
  "'w os \<Rightarrow> (string \<Rightarrow> 'w machine \<Rightarrow> 'w machine) \<Rightarrow> event \<Rightarrow> string option \<Rightarrow> 'w machine \<Rightarrow>
     (int \<times> 'w machine) option" where
  "fprintf_to os put_text ev fmt s = do {
     let out = (case print_out s of Some out \<Rightarrow> out | None \<Rightarrow> NString_new);
     ((ret, out), s) \<leftarrow> sprintf os out ev fmt (s\<lparr>print_out := None\<rparr>);
     let s = (if ret \<noteq> -1 then put_text (as_bytes out) s else s);
     Some (ret, s\<lparr>print_out := Some out\<rparr>)
   }"

definition printf ::
  "'w os \<Rightarrow> event \<Rightarrow> string option \<Rightarrow> 'w machine \<Rightarrow> (int \<times> 'w machine) option" where
  "printf os ev fmt s = fprintf_to os cprint ev fmt s"

subsection \<open>Formatting stays within the buffer and leaves the library alone\<close>

definition formats :: "'w machine \<Rightarrow> 'w machine \<Rightarrow> bool" where
  "formats s s' \<longleftrightarrow>
     same_lib (s\<lparr>fidname := fidname s', evstr := evstr s', error := error s',
       print_out := print_out s'\<rparr>) s' \<and>
     length (evstr s') = length (evstr s)"

lemma formats_refl [simp]: "formats s s"
  by (simp add: formats_def)

lemma formats_effects [simp]:
  "formats s (t\<lparr>world := w\<rparr>) \<longleftrightarrow> formats s t"
  "formats s (t\<lparr>c_stderr := m\<rparr>) \<longleftrightarrow> formats s t"
  "formats s (t\<lparr>c_stdout := m\<rparr>) \<longleftrightarrow> formats s t"
  "formats s (t\<lparr>error := e\<rparr>) \<longleftrightarrow> formats s t"
  "formats s (t\<lparr>print_out := q\<rparr>) \<longleftrightarrow> formats s t"
  "length x = length (evstr t) \<Longrightarrow> formats s (t\<lparr>evstr := x\<rparr>) \<longleftrightarrow> formats s t"
  by (auto simp: formats_def same_lib_def inotifytools.truncate_def)

lemma formats_trans: "formats s t \<Longrightarrow> formats t u \<Longrightarrow> formats s u"
  by (simp add: formats_def same_lib_def inotifytools.truncate_def)

lemma resolves_formats: "resolves s s' \<Longrightarrow> formats s s'"
  by (auto simp: formats_def resolves_def same_lib_def inotifytools.truncate_def)

lemma formats_fields:
  assumes "formats s s'"
  shows "watches s' = watches s" "by_wd s' = by_wd s" "by_fid s' = by_fid s"
    "by_filename s' = by_filename s" "next_id s' = next_id s"
    "next_fanotify_wd s' = next_fanotify_wd s" "fanotify_mode s' = fanotify_mode s"
    "initialized s' = initialized s" "fanotify_mark_type s' = fanotify_mark_type s"
    "fd s' = fd s" "self_pid s' = self_pid s" "regex s' = regex s"
    "invert_regexp s' = invert_regexp s" "timefmt s' = timefmt s"
    "first_byte s' = first_byte s" "bytes s' = bytes s" "evbuf s' = evbuf s"
    "collect_stats s' = collect_stats s" "totals s' = totals s"
    "length (evstr s') = length (evstr s)" "verbosity s' = verbosity s" "ret_off s' = ret_off s"
    "this_bytes s' = this_bytes s" "recursive_watch s' = recursive_watch s"
  using assms by (auto simp: formats_def same_lib_def inotifytools.truncate_def)

lemma formats_inv: "formats s s' \<Longrightarrow> table_inv s' = table_inv s"
  by (simp add: table_inv_def formats_fields)

lemma mask_to_str_total:
  assumes "length (evstr s) = 1024"
  shows "\<exists>t s'. mask_to_str m sep s = Some (t, s') \<and> formats s s' \<and> error s' = error s \<and>
    world s' = world s \<and> (sep \<noteq> NUL \<longrightarrow> t = mask_text m sep)"
  using event_to_str_sep_total [OF assms, of m sep] assms
  by (auto simp: mask_to_str_def)

lemma put_buf_in: "i < MAX_STRLEN \<Longrightarrow> put_buf i c buf = Some (buf(i := c))"
  by (simp add: put_buf_def)

lemma copy_slice_in:
  "a + length x \<le> MAX_STRLEN \<Longrightarrow>
     copy_slice a x buf = Some (\<lambda>k. if a \<le> k \<and> k < a + length x then x ! (k - a) else buf k)"
  by (simp add: copy_slice_def)

lemma strncpy_outside: "k < ind \<or> ind + n \<le> k \<Longrightarrow> strncpy buf ind src n k = buf k"
  by (auto simp: strncpy_def Let_def)

lemma strftime_now_formats:
  assumes "strftime_now os f s = (r, s')"
  shows "formats s s'" "error s' = error s"
  using assms by (auto simp: strftime_now_def sys_def Let_def split: prod.splits)

lemma set_error_formats [simp]: "formats s (set_error e t) \<longleftrightarrow> formats s t"
  by (simp add: set_error_def)

text \<open>A directive writes only between the index and \<open>sz\<close>.\<close>

definition writes_below :: "int \<Rightarrow> buffer \<Rightarrow> buffer \<Rightarrow> bool" where
  "writes_below sz buf buf' \<longleftrightarrow> (\<forall>k. sz \<le> int k \<longrightarrow> buf' k = buf k)"

lemma writes_below_refl [simp]: "writes_below sz buf buf"
  by (simp add: writes_below_def)

lemma writes_below_strncpy: "int ind + int n \<le> sz \<Longrightarrow> writes_below sz buf (strncpy buf ind x n)"
  by (auto simp: writes_below_def intro!: strncpy_outside)

lemma fmt_directive_total:
  assumes ind: "int ind < sz - 1" and sz: "sz \<le> int MAX_STRLEN" and ev: "length (evstr s) = 1024"
  shows "\<exists>r buf' s'. fmt_directive os sz ev p ch1 rest ind buf s = Some (r, buf', s') \<and>
    writes_below sz buf buf' \<and> formats s s' \<and>
    (\<forall>i. r = Inl i \<longrightarrow> i = ind \<and> error s' = EINVAL) \<and> (\<forall>i k. r = Inr (i, k) \<longrightarrow> i < 2 ^ 32)"
proof -
  have room: "int ind + int (nat (sz - int ind)) = sz" using ind by simp
  have small: "ind < MAX_STRLEN" "Suc ind < MAX_STRLEN" "ind < 2 ^ 32"
    using ind sz by (auto simp: MAX_STRLEN_def)
  have fill: "writes_below sz buf (strncpy buf ind x (nat (sz - int ind)))" for x
    using room by (intro writes_below_strncpy) simp
  note basic = fmt_directive_def u32_add_def Let_def small fill
  consider "ch1 = CHR ''%'' \<or> ch1 = CHR ''0'' \<or> ch1 = CHR ''n''" | "ch1 = CHR ''w''" | "ch1 = CHR ''f''"
    | "ch1 = CHR ''c''" | "ch1 = CHR ''e''" | "ch1 = CHR ''T''"
    | "ch1 \<notin> {CHR ''%'', CHR ''0'', CHR ''n'', CHR ''w'', CHR ''f'', CHR ''c'', CHR ''e'', CHR ''T''}"
    by blast
  then show ?thesis
  proof cases
    case 1
    then show ?thesis
      using ind by (auto simp: basic put_buf_in writes_below_def)
  next
    case 2
    then show ?thesis
      using ind room small(3)
      by (auto simp: fmt_directive_def u32_add_def Let_def writes_below_def intro!: strncpy_outside)
  next
    case 3
    then show ?thesis by (simp add: basic)
  next
    case 4
    let ?x = "show_hex (ev_cookie ev)"
    let ?n = "min (length ?x) (nat (sz - int ind) - 1)"
    have le: "ind + ?n < MAX_STRLEN" "int (ind + ?n) < sz" using ind sz by auto
    then have "copy_slice ind (take ?n ?x) buf = Some (\<lambda>k. if ind \<le> k \<and> k < ind + length (take ?n ?x)
        then take ?n ?x ! (k - ind) else buf k)"
      by (intro copy_slice_in) simp
    with 4 le show ?thesis
      by (auto simp: fmt_directive_def u32_add_def Let_def put_buf_in writes_below_def)
  next
    case 5
    with mask_to_str_total [OF ev, of "ev_mask ev" "CHR '',''"] show ?thesis
      by (auto simp: basic)
  next
    case 6
    then show ?thesis
      by (cases "timefmt s")
        (auto simp: basic set_error_def strftime_now_formats split: prod.split option.split
          dest!: strftime_now_formats)
  next
    case 7
    show ?thesis
    proof (cases "rest \<noteq> [] \<and> hd rest = CHR ''e''")
      case True
      from mask_to_str_total [OF ev, of "ev_mask ev" ch1] obtain t s' where
        t: "mask_to_str (ev_mask ev) ch1 s = Some (t, s')" "formats s s'" by blast
      have "fmt_directive os sz ev p ch1 rest ind buf s =
          Some (Inr (u32_add ind (length t), 1), strncpy buf ind t (nat (sz - int ind)), s')"
        using 7 True t(1) by (simp add: fmt_directive_def Let_def)
      moreover have "u32_add ind (length t) < 2 ^ 32" by (simp add: u32_add_def)
      ultimately show ?thesis using t(2) fill by blast
    next
      case False
      have "u32_add ind 1 = Suc ind" "u32_add (Suc ind) 1 = Suc (Suc ind)" "Suc (Suc ind) < 2 ^ 32"
        using small(1) by (simp_all add: u32_add_def MAX_STRLEN_def)
      moreover have "writes_below sz buf (buf(ind := CHR ''%'', Suc ind := ch1))"
        using ind by (auto simp: writes_below_def)
      ultimately have "fmt_directive os sz ev p ch1 rest ind buf s =
          Some (Inr (Suc (Suc ind), 0), buf(ind := CHR ''%'', Suc ind := ch1), s)"
        using 7 False small(1,2) by (auto simp: fmt_directive_def Let_def put_buf_in)
      with \<open>writes_below sz buf (buf(ind := CHR ''%'', Suc ind := ch1))\<close> \<open>Suc (Suc ind) < 2 ^ 32\<close>
      show ?thesis by simp
    qed
  qed
qed

lemma fmt_loop_total:
  assumes sz: "sz \<le> int MAX_STRLEN"
  shows "ind < 2 ^ 32 \<Longrightarrow> length (evstr s) = 1024 \<Longrightarrow>
    \<exists>r buf' s'. fmt_loop os sz ev p fmt ind buf s = Some (r, buf', s') \<and>
      writes_below sz buf buf' \<and> formats s s' \<and>
      (\<forall>i. r = Inl i \<longrightarrow> int i < sz - 1 \<and> error s' = EINVAL) \<and> (\<forall>i. r = Inr i \<longrightarrow> i < 2 ^ 32)"
proof (induction "length fmt" arbitrary: fmt ind buf s rule: less_induct)
  case less
  show ?case
  proof (cases "fmt = [] \<or> \<not> int ind < sz - 1")
    case True
    with less.prems show ?thesis
      by (subst fmt_loop.simps) (auto simp: writes_below_def)
  next
    case False
    then obtain c rest where f: "fmt = c # rest" and ind: "int ind < sz - 1" by (cases fmt) auto
    have in_buf: "ind < MAX_STRLEN" using ind sz by simp
    consider "c \<noteq> CHR ''%''" | "c = CHR ''%''" "rest = []" | ch r where "c = CHR ''%''" "rest = ch # r"
      by (cases rest) auto
    then show ?thesis
    proof cases
      case 1
      have "length rest < length fmt" using f by simp
      moreover have "u32_add ind 1 < 2 ^ 32" by (simp add: u32_add_def)
      ultimately obtain r buf' s' where *:
        "fmt_loop os sz ev p rest (u32_add ind 1) (buf(ind := c)) s = Some (r, buf', s')"
        "writes_below sz (buf(ind := c)) buf'" "formats s s'"
        "\<forall>i. r = Inl i \<longrightarrow> int i < sz - 1 \<and> error s' = EINVAL" "\<forall>i. r = Inr i \<longrightarrow> i < 2 ^ 32"
        using less.hyps less.prems(2) by blast
      from *(2) ind have "writes_below sz buf buf'" by (auto simp: writes_below_def)
      with * 1 f ind in_buf show ?thesis
        by (subst fmt_loop.simps) (simp add: put_buf_in)
    next
      case 2
      with f ind show ?thesis
        by (subst fmt_loop.simps) (simp add: writes_below_def set_error_def)
    next
      case (3 ch q)
      from fmt_directive_total [OF ind sz less.prems(2), of os ev p ch q buf] obtain r buf1 s1 where
        d: "fmt_directive os sz ev p ch q ind buf s = Some (r, buf1, s1)" "writes_below sz buf buf1"
          "formats s s1" "\<forall>i. r = Inl i \<longrightarrow> i = ind \<and> error s1 = EINVAL"
          "\<forall>i k. r = Inr (i, k) \<longrightarrow> i < 2 ^ 32" by blast
      show ?thesis
      proof (cases r)
        case (Inl i)
        with d 3 f ind show ?thesis
          by (subst fmt_loop.simps) (auto split: sum.splits)
      next
        case (Inr x)
        then obtain i k where r: "r = Inr (i, k)" by (cases x) auto
        have "length (drop k q) < length fmt" using f 3 by simp
        moreover have "i < 2 ^ 32" "length (evstr s1) = 1024"
          using d(3,5) r less.prems(2) by (auto simp: formats_fields)
        ultimately obtain r' buf' s' where *:
          "fmt_loop os sz ev p (drop k q) i buf1 s1 = Some (r', buf', s')"
          "writes_below sz buf1 buf'" "formats s1 s'"
          "\<forall>i. r' = Inl i \<longrightarrow> int i < sz - 1 \<and> error s' = EINVAL" "\<forall>i. r' = Inr i \<longrightarrow> i < 2 ^ 32"
          using less.hyps by blast
        from *(2) d(2) have "writes_below sz buf buf'" by (simp add: writes_below_def)
        with * d 3 f ind r formats_trans [OF d(3) *(3)] show ?thesis
          by (subst fmt_loop.simps) simp
      qed
    qed
  qed
qed

subsection \<open>What a format means\<close>

text \<open>
  The text of one directive, independent of buffers and sizes: the text, the number of further
  characters the directive uses, and the system after asking it for the time. \<open>None\<close> is an
  invalid time format.
\<close>

definition fmt_piece ::
  "'w os \<Rightarrow> event \<Rightarrow> event_path \<Rightarrow> string option \<Rightarrow> char \<Rightarrow> string \<Rightarrow> 'w \<Rightarrow>
     (string \<times> nat \<times> 'w) option" where
  "fmt_piece os ev p tf ch rest w =
     (if ch = CHR ''%'' then Some (''%'', 0, w)
      else if ch = CHR ''0'' then Some ([NUL], 0, w)
      else if ch = CHR ''n'' then Some ([CHR 0x0A], 0, w)
      else if ch = CHR ''w'' then Some (ep_dirname p, 0, w)
      else if ch = CHR ''f'' then Some (ep_eventname p, 0, w)
      else if ch = CHR ''c'' then Some (show_hex (ev_cookie ev), 0, w)
      else if ch = CHR ''e'' then Some (mask_text (ev_mask ev) (CHR '',''), 0, w)
      else if ch = CHR ''T''
      then (case tf of
              None \<Rightarrow> Some ([], 0, w)
            | Some f \<Rightarrow> (case os_strftime os (cstring f) w of
                (t, w) \<Rightarrow> if t = [] then None else Some (t, 0, w)))
      else if rest \<noteq> [] \<and> hd rest = CHR ''e'' then Some (mask_text (ev_mask ev) ch, 1, w)
      else Some ([CHR ''%'', ch], 0, w))"

function fmt_reference ::
  "'w os \<Rightarrow> event \<Rightarrow> event_path \<Rightarrow> string option \<Rightarrow> string \<Rightarrow> 'w \<Rightarrow> string option" where
  "fmt_reference os ev p tf [] w = Some []"
| "c \<noteq> CHR ''%'' \<Longrightarrow>
     fmt_reference os ev p tf (c # rest) w = map_option ((#) c) (fmt_reference os ev p tf rest w)"
| "fmt_reference os ev p tf [CHR ''%''] w = None"
| "fmt_reference os ev p tf (CHR ''%'' # ch # rest) w =
     (case fmt_piece os ev p tf ch rest w of
        None \<Rightarrow> None
      | Some (x, k, w) \<Rightarrow> map_option ((@) x) (fmt_reference os ev p tf (drop k rest) w))"
  by (auto, metis list.exhaust)
termination
  by (relation "measure (\<lambda>(os, ev, p, tf, fmt, w). length fmt)") auto

text \<open>The buffer agrees with a text from an index on.\<close>

definition wrote :: "buffer \<Rightarrow> nat \<Rightarrow> string \<Rightarrow> buffer \<Rightarrow> bool" where
  "wrote buf ind x buf' \<longleftrightarrow>
     (\<forall>k<ind. buf' k = buf k) \<and> (\<forall>j<length x. buf' (ind + j) = x ! j)"

lemma wrote_Nil [simp]: "wrote buf ind [] buf"
  by (simp add: wrote_def)

lemma wrote_append:
  assumes "wrote buf ind x buf1" and "wrote buf1 (ind + length x) y buf2"
  shows "wrote buf ind (x @ y) buf2"
proof -
  have "buf2 (ind + j) = (x @ y) ! j" if "j < length (x @ y)" for j
  proof (cases "j < length x")
    case True
    with assms show ?thesis by (simp add: wrote_def nth_append)
  next
    case False
    with that have "j - length x < length y" "ind + length x + (j - length x) = ind + j" by auto
    with False assms(2) show ?thesis by (metis nth_append wrote_def)
  qed
  with assms show ?thesis by (simp add: wrote_def)
qed

lemma wrote_strncpy:
  assumes "ind + length x \<le> MAX_STRLEN" and "length x \<le> n" and "take (length x) src = x"
    and "length src = length x \<or> n = length x"
  shows "wrote buf ind x (strncpy buf ind src n)"
proof (cases "ind < MAX_STRLEN")
  case True
  have "length x \<le> length src"
    using arg_cong [OF assms(3), of length] by simp
  moreover have "src ! j = x ! j" if "j < length x" for j
    using that assms(3) nth_take [of j "length x" src] by simp
  ultimately have "src ! j = x ! j" "j < length src" if "j < length x" for j
    using that by auto
  with True assms show ?thesis
    by (auto simp: wrote_def strncpy_def Let_def)
next
  case False
  with assms(1) have "x = []" by (cases x) auto
  with False show ?thesis by (simp add: strncpy_def)
qed

lemma wrote_strncpy_self:
  "ind + length x \<le> MAX_STRLEN \<Longrightarrow> length x \<le> n \<Longrightarrow> wrote buf ind x (strncpy buf ind x n)"
  by (rule wrote_strncpy) simp_all

lemma fmt_directive_writes:
  assumes ind: "int ind < sz - 1" and sz: "sz \<le> int MAX_STRLEN" and ev: "length (evstr s) = 1024"
    and p: "ep_dirnamelen p \<le> length (ep_filename p)" and ch: "ch \<noteq> NUL"
    and x: "fmt_piece os ev p (timefmt s) ch rest (world s) = Some (x, k, w)"
    and fits: "int (ind + length x) < sz"
  shows "\<exists>buf' s'. fmt_directive os sz ev p ch rest ind buf s = Some (Inr (ind + length x, k), buf', s') \<and>
    wrote buf ind x buf' \<and> world s' = w \<and> formats s s'"
proof -
  let ?room = "nat (sz - int ind)"
  have room: "length x < ?room" "ind + length x < MAX_STRLEN" using fits sz by auto
  then have add: "u32_add ind (length x) = ind + length x"
    by (simp add: u32_add_def MAX_STRLEN_def)
  have small: "ind < MAX_STRLEN" "Suc ind < MAX_STRLEN" "u32_add ind 1 = Suc ind"
    "u32_add (Suc ind) 1 = Suc (Suc ind)"
    using ind sz by (auto simp: MAX_STRLEN_def u32_add_def)
  have self: "wrote buf ind x (strncpy buf ind x ?room)"
    using room by (intro wrote_strncpy_self) auto
  consider "ch = CHR ''%'' \<or> ch = CHR ''0'' \<or> ch = CHR ''n''" | "ch = CHR ''w''" | "ch = CHR ''f''"
    | "ch = CHR ''c''" | "ch = CHR ''e''" | "ch = CHR ''T''"
    | "ch \<notin> {CHR ''%'', CHR ''0'', CHR ''n'', CHR ''w'', CHR ''f'', CHR ''c'', CHR ''e'', CHR ''T''}"
    by blast
  then show ?thesis
  proof cases
    case 1
    with x small show ?thesis
      by (auto simp: fmt_piece_def fmt_directive_def Let_def put_buf_in wrote_def)
  next
    case 2
    with x have xw: "x = ep_dirname p" "k = 0" "w = world s" by (auto simp: fmt_piece_def)
    with p have len: "length x = ep_dirnamelen p" "take (length x) (ep_filename p) = x"
      by (auto simp: ep_dirname_def)
    from room len have "wrote buf ind x (strncpy buf ind (ep_filename p) (ep_dirnamelen p))"
      by (intro wrote_strncpy) auto
    with 2 xw len room add show ?thesis
      by (simp add: fmt_directive_def Let_def)
  next
    case 3
    with x self add show ?thesis by (auto simp: fmt_piece_def fmt_directive_def Let_def)
  next
    case 4
    with x have xc: "x = show_hex (ev_cookie ev)" "k = 0" "w = world s" by (auto simp: fmt_piece_def)
    with room have n: "min (length (show_hex (ev_cookie ev))) (?room - 1) = length x"
      "take (length x) (show_hex (ev_cookie ev)) = x" by auto
    from room have "copy_slice ind x buf = Some (\<lambda>k. if ind \<le> k \<and> k < ind + length x
        then x ! (k - ind) else buf k)"
      by (intro copy_slice_in) simp
    with 4 n xc room add show ?thesis
      by (auto simp: fmt_directive_def Let_def put_buf_in wrote_def)
  next
    case 5
    with x self add mask_to_str_total [OF ev, of "ev_mask ev" "CHR '',''"] show ?thesis
      by (auto simp: fmt_piece_def fmt_directive_def Let_def)
  next
    case 6
    with x self add show ?thesis
      by (auto simp: fmt_piece_def fmt_directive_def Let_def strftime_now_def sys_def
          split: option.splits prod.splits if_splits)
  next
    case 7
    show ?thesis
    proof (cases "rest \<noteq> [] \<and> hd rest = CHR ''e''")
      case True
      with 7 x self add ch mask_to_str_total [OF ev, of "ev_mask ev" ch] show ?thesis
        by (auto simp: fmt_piece_def fmt_directive_def Let_def)
    next
      case False
      with 7 x small show ?thesis
        by (auto simp: fmt_piece_def fmt_directive_def Let_def put_buf_in wrote_def less_Suc_eq)
    qed
  qed
qed

lemma fmt_piece_used: "fmt_piece os ev p tf ch rest w = Some (x, k, w') \<Longrightarrow> k \<le> length rest"
  by (cases rest) (auto simp: fmt_piece_def split: if_splits option.splits prod.splits)

lemma fmt_loop_writes:
  assumes sz: "sz \<le> int MAX_STRLEN"
  shows "ep_dirnamelen p \<le> length (ep_filename p) \<Longrightarrow>
    fmt_reference os ev p tf fmt w = Some x \<Longrightarrow> timefmt s = tf \<Longrightarrow> world s = w \<Longrightarrow>
    length (evstr s) = 1024 \<Longrightarrow> NUL \<notin> set fmt \<Longrightarrow> int (ind + length x) < sz \<Longrightarrow>
    \<exists>buf' s'. fmt_loop os sz ev p fmt ind buf s = Some (Inr (ind + length x), buf', s') \<and>
      wrote buf ind x buf' \<and> formats s s'"
proof (induction os ev p tf fmt w arbitrary: x ind buf s rule: fmt_reference.induct)
  case (1 os ev p tf w)
  then show ?case by (subst fmt_loop.simps) simp
next
  case (2 c os ev p tf rest w)
  then obtain y where y: "fmt_reference os ev p tf rest w = Some y" "x = c # y" by auto
  with "2.prems" sz have small: "int ind < sz - 1" "ind < MAX_STRLEN" "u32_add ind 1 = Suc ind"
    by (auto simp: u32_add_def MAX_STRLEN_def)
  from 2 y have "\<exists>buf' s'. fmt_loop os sz ev p rest (Suc ind) (buf(ind := c)) s =
      Some (Inr (Suc ind + length y), buf', s') \<and> wrote (buf(ind := c)) (Suc ind) y buf' \<and> formats s s'"
    by (intro 2(2)) auto
  then obtain buf' s' where
    l: "fmt_loop os sz ev p rest (Suc ind) (buf(ind := c)) s = Some (Inr (Suc ind + length y), buf', s')"
    "wrote (buf(ind := c)) (Suc ind) y buf'" "formats s s'" by blast
  from l(2) have "wrote buf ind ([c] @ y) buf'"
    by (intro wrote_append [of buf ind "[c]" "buf(ind := c)"]) (simp_all add: wrote_def)
  with l show ?case
    using small 2(1) y by (subst fmt_loop.simps) (simp add: put_buf_in)
next
  case (3 os ev p tf w)
  then show ?case by simp
next
  case (4 os ev p tf ch rest w)
  then obtain z k w1 y where z: "fmt_piece os ev p tf ch rest w = Some (z, k, w1)"
    "fmt_reference os ev p tf (drop k rest) w1 = Some y" "x = z @ y"
    by (auto split: option.splits)
  show ?case
  proof (cases "int ind < sz - 1")
    case False
    with "4.prems" have "x = []" "ind + length x = ind" by (cases x; simp)+
    with False show ?thesis by (subst fmt_loop.simps) simp
  next
    case True
    have "int (ind + length z) < sz" using "4.prems" z by simp
    moreover have "ch \<noteq> NUL" using "4.prems"(6) by auto
    moreover have "fmt_piece os ev p (timefmt s) ch rest (world s) = Some (z, k, w1)"
      using "4.prems" z by simp
    ultimately obtain buf1 s1 where d:
      "fmt_directive os sz ev p ch rest ind buf s = Some (Inr (ind + length z, k), buf1, s1)"
      "wrote buf ind z buf1" "world s1 = w1" "formats s s1"
      using fmt_directive_writes [OF True sz "4.prems"(5) "4.prems"(1)] by blast
    have nul: "NUL \<notin> set (drop k rest)" using "4.prems"(6) by (auto dest: in_set_dropD)
    have "timefmt s1 = tf" "length (evstr s1) = 1024" "int (ind + length z + length y) < sz"
      using d(4) "4.prems" z by (simp_all add: formats_fields)
    with "4.IH" [OF z(1) refl refl "4.prems"(1) z(2) _ d(3) _ nul] obtain buf' s' where
      l: "fmt_loop os sz ev p (drop k rest) (ind + length z) buf1 s1 =
        Some (Inr (ind + length z + length y), buf', s')"
      "wrote buf1 (ind + length z) y buf'" "formats s1 s'" by blast
    show ?thesis
      using True d l z formats_trans [OF d(4) l(3)] wrote_append [OF d(2) l(2)]
      by (subst fmt_loop.simps) (simp add: add.assoc)
  qed
qed

subsection \<open>Properties\<close>

lemma filename_from_event_total:
  assumes inv: "table_inv s" and ini: "initialized s"
  shows "\<exists>p s'. filename_from_event os ev s = Some (p, s') \<and> resolves s s' \<and>
    ep_dirnamelen p \<le> length (ep_filename p)"
proof -
  from filename_from_wd_total [OF inv ini, of os "ev_wd ev"] obtain f s' where
    f: "filename_from_wd os (ev_wd ev) s = Some (f, s')" "resolves s s'" by blast
  have "i + 1 \<le> length f" if "rposition (\<lambda>c. c = CHR ''/'') f = Some i" for i
    using rposition_less [OF that] by simp
  with f show ?thesis
    by (auto simp: filename_from_event_def filename_from_event_ptr_def dirname_from_event_def
        Let_def split: option.splits)
qed

lemma formats_set_error: "formats s t \<Longrightarrow> formats s (set_error e t)"
  by simp

lemma snprintf_total:
  assumes inv: "table_inv s" and ini: "initialized s" and evstr: "length (evstr s) = 1024"
  shows "\<exists>ret out' s'. snprintf os out sz ev fmt s = Some ((ret, out'), s') \<and> formats s s' \<and>
    writes_below sz (ns_buf out) (ns_buf out') \<and>
    (fmt = None \<or> fmt = Some [] \<longrightarrow> ret = -1 \<and> error s' = EINVAL \<and> out' = out)"
proof -
  from filename_from_event_total [OF inv ini, of os ev] obtain p t where
    p: "filename_from_event os ev s = Some (p, t)" "resolves s t" by blast
  note ft = resolves_formats [OF p(2)]
  show ?thesis
  proof (cases "fmt = None \<or> fmt = Some []")
    case True
    with p ft show ?thesis
      by (auto simp: snprintf_def set_error_def split: option.splits)
  next
    case False
    then obtain f where f: "fmt = Some f" "f \<noteq> []" by auto
    show ?thesis
    proof (cases "length f > MAX_STRLEN \<or> sz > int MAX_STRLEN")
      case True
      with p ft f show ?thesis by (auto simp: snprintf_def)
    next
      case ok: False
      then have "sz \<le> int MAX_STRLEN" by simp
      moreover have "length (evstr t) = 1024" using ft evstr by (simp add: formats_fields)
      ultimately obtain r buf' s' where
        l: "fmt_loop os sz ev p f 0 (ns_buf out) t = Some (r, buf', s')"
        "writes_below sz (ns_buf out) buf'" "formats t s'"
        using fmt_loop_total [where ind = 0 and fmt = f and p = p] by fastforce
      with p f ok formats_trans [OF ft l(3)] show ?thesis
        by (cases r) (auto simp: snprintf_def)
    qed
  qed
qed

text \<open>C16.
  Formatting an event never panics and never writes at or past \<open>size\<close>: for every event, format,
  size and previous contents of the buffer the call returns, the cells from \<open>size\<close> on are
  untouched, the watches and the read buffer are as before, and a missing or empty format is an
  error that leaves the buffer alone.\<close>

theorem snprintf_safe:
  assumes "table_inv s" and "initialized s" and "length (evstr s) = 1024"
  shows "\<exists>ret out' s'. snprintf os out sz ev fmt s = Some ((ret, out'), s') \<and> formats s s' \<and>
    (\<forall>k. sz \<le> int k \<longrightarrow> ns_buf out' k = ns_buf out k) \<and>
    (fmt = None \<or> fmt = Some [] \<longrightarrow> ret = -1 \<and> error s' = EINVAL \<and> out' = out)"
  using snprintf_total [OF assms, of os out sz ev fmt] by (simp add: writes_below_def)

lemma one_watch_evstr: "length (evstr (one_watch f)) = 1024"
  by (simp add: one_watch_def register_def Let_def)

theorem snprintf_safe_witness:
  "\<exists>ret out' s'. snprintf quiet_os NString_new 10 event_default (Some ''%w%f%e'') (one_watch ''/a'') =
     Some ((ret, out'), s') \<and> (\<forall>k. 10 \<le> int k \<longrightarrow> ns_buf out' k = NUL)"
  using snprintf_safe [OF one_watch_facts(1) [of "''/a''"] one_watch_facts(2) one_watch_evstr,
    of quiet_os NString_new 10 event_default "Some ''%w%f%e''"] by (auto simp: NString_new_def)

lemma snprintf_reference:
  assumes inv: "table_inv s" and ini: "initialized s" and evstr: "length (evstr s) = 1024"
    and path: "filename_from_event os ev s = Some (p, t)"
    and fmt: "fmt \<noteq> []" "NUL \<notin> set fmt" "length fmt \<le> MAX_STRLEN" and sz: "sz \<le> int MAX_STRLEN"
    and x: "fmt_reference os ev p (timefmt s) fmt (world t) = Some x" and fits: "int (length x) < sz"
  shows "\<exists>out' s'. snprintf os out sz ev (Some fmt) s = Some ((int (length x) - 1, out'), s') \<and>
    as_bytes out' = x \<and> formats s s'"
proof -
  from filename_from_event_total [OF inv ini, of os ev] path have
    p: "resolves s t" "ep_dirnamelen p \<le> length (ep_filename p)" by auto
  note ft = resolves_formats [OF p(1)]
  have "timefmt t = timefmt s" "length (evstr t) = 1024"
    using ft evstr by (simp_all add: formats_fields)
  with fmt_loop_writes [OF sz p(2) x _ refl _ fmt(2), where ind = 0 and buf = "ns_buf out"] fits obtain buf' s' where
    l: "fmt_loop os sz ev p fmt 0 (ns_buf out) t = Some (Inr (length x), buf', s')"
    "wrote (ns_buf out) 0 x buf'" "formats t s'" by auto
  let ?out = "\<lparr>ns_buf = buf', ns_len = length x\<rparr>"
  have le: "length x \<le> MAX_STRLEN" using fits sz by simp
  then have "wrap32 (int (length x) - 1) = int (length x) - 1"
    by (intro wrap32_id) (auto simp: MAX_STRLEN_def)
  then have "snprintf os out sz ev (Some fmt) s = Some ((int (length x) - 1, ?out), s')"
    using path fmt sz l by (simp add: snprintf_def)
  moreover have "as_bytes ?out = x"
  proof (rule nth_equalityI)
    show len: "length (as_bytes ?out) = length x" using le by (simp add: length_as_bytes)
    fix i assume "i < length (as_bytes ?out)"
    with len l(2) le show "as_bytes ?out ! i = x ! i"
      by (simp add: as_bytes_def wrote_def)
  qed
  ultimately show ?thesis using formats_trans [OF ft l(3)] by blast
qed

text \<open>C15.
  Formatting implements the format language: when the format is valid for the event and its
  expansion fits, the call returns the length of the expansion less one and leaves exactly the
  expansion in the output, whatever the buffer held before.\<close>

theorem snprintf_expands:
  assumes inv: "table_inv s" and ini: "initialized s" and evstr: "length (evstr s) = 1024"
    and path: "filename_from_event os ev s = Some (p, t)"
    and fmt: "fmt \<noteq> []" "NUL \<notin> set fmt" "length fmt \<le> MAX_STRLEN" and sz: "sz \<le> int MAX_STRLEN"
    and x: "fmt_reference os ev p (timefmt s) fmt (world t) = Some x" and fits: "int (length x) < sz"
  shows "\<exists>out' s'. snprintf os out sz ev (Some fmt) s = Some ((int (length x) - 1, out'), s') \<and>
    as_bytes out' = x"
  using snprintf_reference [OF assms, of out] by blast

theorem snprintf_expands_witness:
  "\<exists>out' s'. snprintf quiet_os NString_new 100
      (event_default\<lparr>ev_wd := 3, ev_mask := IN_OPEN, ev_len := 1, ev_name := ''x''\<rparr>)
      (Some ''%e %w%f%%'') (one_watch ''/a/'') = Some ((9, out'), s') \<and> as_bytes out' = ''OPEN /a/x%''"
proof -
  let ?ev = "event_default\<lparr>ev_wd := 3, ev_mask := IN_OPEN, ev_len := 1, ev_name := ''x''\<rparr>"
  let ?p = "\<lparr>ep_filename = ''/a/'', ep_dirnamelen = 3, ep_eventname = ''x''\<rparr>"
  have path: "filename_from_event quiet_os ?ev (one_watch ''/a/'') = Some (?p, one_watch ''/a/'')"
    using one_watch_facts [of "''/a/''"]
    by (simp add: filename_from_event_def filename_from_event_ptr_def dirname_from_event_def
        filename_from_wd_def watch_from_wd_def bt_get_def filename_from_watch_id_def watch_at_def
        event_default_def one_watch_def register_def Let_def cstring_def)
  have name: "mask_text IN_OPEN CHR '','' = ''OPEN''"
    by (simp add: mask_text_def names_of_def NAMES_def in_defs)
  have "fmt_reference quiet_os ?ev ?p (timefmt (one_watch ''/a/'')) ''%e %w%f%%'' (world (one_watch ''/a/''))
      = Some ''OPEN /a/x%''"
    by (simp add: fmt_piece_def name ep_dirname_def)
  from snprintf_expands [OF one_watch_facts(1,2) one_watch_evstr path _ _ _ _ this,
      of 100 NString_new]
  show ?thesis by (simp add: MAX_STRLEN_def)
qed

subsection \<open>A format that ends in a percent sign\<close>

lemma fmt_loop_literal:
  assumes sz: "sz \<le> int MAX_STRLEN"
  shows "CHR ''%'' \<notin> set x \<Longrightarrow> int (ind + length x) < sz \<Longrightarrow>
    \<exists>buf'. wrote buf ind x buf' \<and>
      fmt_loop os sz ev p (x @ rest) ind buf s = fmt_loop os sz ev p rest (ind + length x) buf' s"
proof (induction x arbitrary: ind buf)
  case Nil
  then show ?case by (auto intro: exI [of _ buf])
next
  case (Cons c x)
  then have small: "int ind < sz - 1" "ind < MAX_STRLEN" "u32_add ind 1 = Suc ind" "c \<noteq> CHR ''%''"
    using sz by (auto simp: u32_add_def MAX_STRLEN_def)
  from Cons.prems have "CHR ''%'' \<notin> set x" "int (Suc ind + length x) < sz" by auto
  from Cons.IH [OF this, of "buf(ind := c)"] obtain buf' where
    b: "wrote (buf(ind := c)) (Suc ind) x buf'"
      "fmt_loop os sz ev p (x @ rest) (Suc ind) (buf(ind := c)) s =
        fmt_loop os sz ev p rest (Suc ind + length x) buf' s" by blast
  have "wrote buf ind ([c] @ x) buf'"
    using b(1) by (intro wrote_append [of buf ind "[c]" "buf(ind := c)"]) (simp_all add: wrote_def)
  moreover have "fmt_loop os sz ev p ((c # x) @ rest) ind buf s =
      fmt_loop os sz ev p rest (ind + length (c # x)) buf' s"
    using small b(2) by (subst fmt_loop.simps) (simp add: put_buf_in)
  ultimately show ?case by auto
qed

text \<open>C40.
  A format that ends in a lone percent sign is reported through \<open>error\<close> only: the call returns
  the number of characters before it, which is not \<open>-1\<close>, and leaves the old length in the output,
  so that a caller that tests for \<open>-1\<close> takes it for a success.\<close>

theorem snprintf_trailing_percent:
  assumes "table_inv s" and "initialized s"
    and x: "CHR ''%'' \<notin> set x" and sz: "int (length x) < sz - 1" "sz \<le> int MAX_STRLEN"
  shows "\<exists>out' s'. snprintf os out sz ev (Some (x @ ''%'')) s = Some ((int (length x), out'), s') \<and>
    error s' = EINVAL \<and> ns_len out' = ns_len out \<and> (\<forall>k<length x. ns_buf out' k = x ! k)"
proof -
  from filename_from_event_total [OF assms(1,2), of os ev] obtain p t where
    p: "filename_from_event os ev s = Some (p, t)" by blast
  from fmt_loop_literal [OF sz(2) x, of 0 "ns_buf out" os ev p "''%''" t] sz obtain buf' where
    b: "wrote (ns_buf out) 0 x buf'"
      "fmt_loop os sz ev p (x @ ''%'') 0 (ns_buf out) t = fmt_loop os sz ev p ''%'' (length x) buf' t"
    by auto
  have "fmt_loop os sz ev p ''%'' (length x) buf' t = Some (Inl (length x), buf', set_error EINVAL t)"
    using sz by (subst fmt_loop.simps) simp
  moreover have "wrap32 (int (length x)) = int (length x)"
    using sz by (intro wrap32_id) (auto simp: MAX_STRLEN_def)
  ultimately show ?thesis
    using p b sz by (auto simp: snprintf_def wrote_def set_error_def MAX_STRLEN_def)
qed

theorem snprintf_trailing_percent_witness:
  "\<exists>out' s'. snprintf quiet_os NString_new 100 event_default (Some ''ab%'') (one_watch ''/a'') =
     Some ((2, out'), s') \<and> error s' = EINVAL \<and> ns_len out' = 0"
  using snprintf_trailing_percent [OF one_watch_facts(1) [of "''/a''"] one_watch_facts(2),
    of "''ab''" 100 quiet_os NString_new event_default]
  by (auto simp: MAX_STRLEN_def NString_new_def)

end
