(* ===== verification/Reader.thy ===== *)
theory Reader
  imports Format Counters
begin

text \<open>
  Reading events (\<open>inotify.rs\<close>, "Regular expression filtering" and "Getting events"): the event
  buffer, the conversion of fanotify events, the filter, and the loop that delivers the next
  event. An iteration of the loop that does not return is the outcome \<open>Again\<close>; the loop over the
  iterations, and the inner wait until enough bytes can be read, have fuel (running out stands
  for waiting on).
\<close>

subsection \<open>The filter\<close>

definition REG_NOSUB :: int where "REG_NOSUB = 8"

text \<open>\<open>flags | REG_NOSUB\<close> on the bits of a C \<open>int\<close>.\<close>

definition or_flag :: "int \<Rightarrow> int \<Rightarrow> int" where
  "or_flag a b = sint ((word_of_int a :: u32) OR word_of_int b)"

definition do_ignore_events_by_regex ::
  "'w os \<Rightarrow> string option \<Rightarrow> int \<Rightarrow> bool \<Rightarrow> int \<Rightarrow> 'w machine \<Rightarrow> bool \<times> 'w machine" where
  "do_ignore_events_by_regex os pattern flags invert recursive s =
     (case pattern of
        None \<Rightarrow> (True, s\<lparr>regex := None\<rparr>)
      | Some p \<Rightarrow>
          let s = s\<lparr>regex := None, invert_regexp := invert, recursive_watch := recursive\<rparr>;
              flags = or_flag flags REG_NOSUB;
              ret = os_regcomp os (cstring p) flags
          in if ret = 0
             then (True, s\<lparr>regex := Some \<lparr>re_pattern = cstring p, re_flags = flags\<rparr>\<rparr>)
             else (False, s\<lparr>error := EINVAL\<rparr>))"

definition ignore_events_by_regex ::
  "'w os \<Rightarrow> string option \<Rightarrow> int \<Rightarrow> int \<Rightarrow> 'w machine \<Rightarrow> bool \<times> 'w machine" where
  "ignore_events_by_regex os pattern flags recursive s =
     do_ignore_events_by_regex os pattern flags False recursive s"

definition ignore_events_by_inverted_regex ::
  "'w os \<Rightarrow> string option \<Rightarrow> int \<Rightarrow> int \<Rightarrow> 'w machine \<Rightarrow> bool \<times> 'w machine" where
  "ignore_events_by_inverted_regex os pattern flags recursive s =
     do_ignore_events_by_regex os pattern flags True recursive s"

subsection \<open>The event buffer\<close>

text \<open>
  \<open>usize\<close> arithmetic wraps at \<open>2^64\<close>: a negative \<open>i32\<close> or \<open>isize\<close> cast to \<open>usize\<close> is its residue.
\<close>

definition to_usize :: "int \<Rightarrow> nat" where
  "to_usize i = nat (i mod 2 ^ 64)"

definition rd_byte :: "'w machine \<Rightarrow> nat \<Rightarrow> u8" where
  "rd_byte s off = (let i = off mod 2 ^ 64 in if i < EVBUF_LEN then evbuf s i else 0)"

definition rd_u32 :: "'w machine \<Rightarrow> nat \<Rightarrow> u32" where
  "rd_u32 s off =
     le32 (rd_byte s off) (rd_byte s (off + 1)) (rd_byte s (off + 2)) (rd_byte s (off + 3))"

text \<open>Slices of the buffer and writes to it.\<close>

definition buf_slice :: "'w machine \<Rightarrow> nat \<Rightarrow> nat \<Rightarrow> u8 list" where
  "buf_slice s a b = map (evbuf s) [a..<b]"

definition wr_bytes :: "nat \<Rightarrow> u8 list \<Rightarrow> 'w machine \<Rightarrow> 'w machine" where
  "wr_bytes off bs s =
     s\<lparr>evbuf := (\<lambda>i. if off \<le> i \<and> i < off + length bs then bs ! (i - off) else evbuf s i)\<rparr>"

definition wr_u32 :: "nat \<Rightarrow> u32 \<Rightarrow> 'w machine \<Rightarrow> 'w machine" where
  "wr_u32 off v s = wr_bytes off (map (\<lambda>i. byte_of i v) [0..<4]) s"

definition current_event :: "'w machine \<Rightarrow> event" where
  "current_event s =
     (let o' = ret_off s;
          len = rd_u32 s (o' + 12);
          name = (if len > 0
                  then let start = min ((o' + EVENT_SIZE) mod 2 ^ 64) EVBUF_LEN;
                           end = min (start + unat len) EVBUF_LEN
                       in takeWhile (\<lambda>c. c \<noteq> 0) (buf_slice s start end)
                  else [])
      in \<lparr>ev_wd = sint (rd_u32 s o'), ev_mask = rd_u32 s (o' + 4), ev_cookie = rd_u32 s (o' + 8),
          ev_len = len, ev_name = map byte_char name\<rparr>)"

subsection \<open>Converting a fanotify event\<close>

text \<open>What the converter finds out about the record behind the metadata.\<close>

record fan_info =
  fi_fid_off :: "nat option"
  fi_name_off :: "nat option"
  fi_fid_len :: int
  fi_name_len :: int

definition no_info :: fan_info where
  "no_info = \<lparr>fi_fid_off = None, fi_name_off = None, fi_fid_len = 0, fi_name_len = 0\<rparr>"

text \<open>
  The record at \<open>info\<close>, with the length rewritten in the buffer when the name is empty or \<open>.\<close>.
  The write is out of range (a panic) when the record starts in the last three bytes.
\<close>

definition fan_record :: "nat \<Rightarrow> u32 \<Rightarrow> 'w machine \<Rightarrow> (fan_info \<times> 'w machine) option" where
  "fan_record info event_len s =
     (let t = rd_byte s info
      in if META_LEN < unat event_len \<and>
            (t = FAN_EVENT_INFO_TYPE_FID \<or> t = FAN_EVENT_INFO_TYPE_DFID \<or>
             t = FAN_EVENT_INFO_TYPE_DFID_NAME)
         then let rec = buf_slice s (min info EVBUF_LEN) EVBUF_LEN;
                  hb = unat (handle_bytes rec);
                  fid_len = wrap32 (int (FID_HDR + hb));
                  nlen = (if t = FAN_EVENT_INFO_TYPE_DFID_NAME
                              then wrap32 (int (unat (hdr_len rec)) - fid_len) else 0);
                  name_off = (if nlen > 0 then Some (info + FID_HDR + hb) else None);
                  n0 = (case name_off of None \<Rightarrow> 0 | Some k \<Rightarrow> rd_byte s k);
                  n1 = (case name_off of None \<Rightarrow> 0 | Some k \<Rightarrow> rd_byte s (k + 1))
              in if nlen \<noteq> 0 \<and> (n0 = 0 \<or> n0 = char_byte (CHR ''.'') \<and> n1 = 0)
                 then let newlen = (word_of_int (int (unat (hdr_len rec)) - nlen) :: u16)
                      in if info + 4 \<le> EVBUF_LEN
                         then Some (\<lparr>fi_fid_off = Some info, fi_name_off = name_off,
                                fi_fid_len = fid_len, fi_name_len = 0\<rparr>,
                                wr_bytes (info + 2) [byte_of 0 newlen, byte_of 1 newlen] s)
                         else None
                 else Some (\<lparr>fi_fid_off = Some info, fi_name_off = name_off,
                        fi_fid_len = fid_len, fi_name_len = nlen\<rparr>, s)
         else Some (no_info, s))"

text \<open>The descriptor of the fid: of its watch, or of one made up for the path it resolves to.\<close>

definition fan_watch ::
  "'w os \<Rightarrow> nat \<Rightarrow> string \<Rightarrow> fid \<Rightarrow> 'w machine \<Rightarrow> (int option option \<times> 'w machine) option" where
  "fan_watch os fid_off name fid_bytes s =
     (case watch_from_fid s fid_bytes of
        Some n \<Rightarrow> do { w \<leftarrow> watch_at s n; Some (Some (Some (w_wd w)), s) }
      | None \<Rightarrow> do {
          (filename, s) \<leftarrow> filename_from_fid os fid_bytes s;
          (wd, s) \<leftarrow> (case filename of
                       None \<Rightarrow> Some (Some None, s)
                     | Some f \<Rightarrow> do {
                         (r, s) \<leftarrow> create_watch os 0 (Some fid_bytes) f 0 s;
                         Some (case r of Some w \<Rightarrow> Some (Some w) | None \<Rightarrow> None, s)
                       });
          case wd of
            None \<Rightarrow> Some (None, s)
          | Some wd \<Rightarrow>
              let rec = buf_slice s fid_off EVBUF_LEN;
                  id = (\<Sum>i<8. 256 ^ i * unat (rd_byte s (fid_off + FID_HDR + i)));
                  s = (if verbosity s \<noteq> 0
                       then cprint (''[fid='' @ show_hex (fsid_val rec 0) @ ''.'' @
                              show_hex (fsid_val rec 1) @ ''.'' @ show_base 16 id @ '';name='' @
                              [CHR 0x27] @ name @ [CHR 0x27] @ ''] '' @
                              (case filename of Some f \<Rightarrow> f | None \<Rightarrow> []) @ [CHR 0x0A]) s
                       else s)
              in Some (Some wd, s)
        })"

text \<open>The inotify form, written at the start of the buffer's second half.\<close>

definition fan_store :: "nat \<Rightarrow> int \<Rightarrow> nat option \<Rightarrow> int \<Rightarrow> 'w machine \<Rightarrow> 'w machine option" where
  "fan_store meta wd name_off nlen s =
     (if (meta + 8) mod 2 ^ 64 \<le> (meta + 16) mod 2 ^ 64 \<and> (meta + 16) mod 2 ^ 64 \<le> EVBUF_LEN
      then let m = rd_u32 s (meta + 8); ret = ret_off s;
               s = wr_u32 ret (word_of_int wd) s;
               s = wr_u32 (ret + 4) m s;
               s = wr_u32 (ret + 12) (word_of_int nlen) s
           in if nlen > 0
              then do {
                src \<leftarrow> name_off;
                let n = min (nat nlen) (MAX_EVENTS * EVENT_SIZE - EVENT_SIZE);
                Some (wr_bytes (ret + EVENT_SIZE) (map (\<lambda>i. if src + i < MAX_EVENTS * EVENT_SIZE
                   then evbuf s (src + i) else 0) [0..<n]) s)
              }
              else Some s
      else None)"

text \<open>The trace of a conversion, printed when the library was initialised to be verbose.\<close>

definition fan_trace :: "fan_info \<Rightarrow> u32 \<Rightarrow> string \<Rightarrow> 'w machine \<Rightarrow> 'w machine" where
  "fan_trace fi event_len name s =
     (if verbosity s > 1
      then cprint_pieces [Bytes ''fanotify_event: bytes='', Signed (bytes s), Bytes '', first_byte='',
             Signed (first_byte s), Bytes '', this_bytes='', Signed (this_bytes s), Bytes '', event_len='',
             Unsigned (unat event_len), Bytes '', fid_len='', Signed (fi_fid_len fi), Bytes '', name_len='',
             Signed (fi_name_len fi), Bytes '', name='', Bytes name, Bytes [CHR 0x0A]] s
      else s)"

text \<open>The result: whether an event was converted, and the process it is from.\<close>

definition convert_fanotify_event :: "'w os \<Rightarrow> 'w machine \<Rightarrow> ((bool \<times> int) \<times> 'w machine) option" where
  "convert_fanotify_event os s = do {
     let meta = ret_off s;
     let info = (meta + META_LEN) mod 2 ^ 64;
     let event_len = rd_u32 s meta;
     let s = s\<lparr>first_byte := wrap32 (first_byte s + sint event_len)\<rparr>;
     (fi, s) \<leftarrow> fan_record info event_len s;
     case fi_fid_off fi of
       None \<Rightarrow> Some ((False, 0), ceprint (''No fid in fanotify event.'' @ [CHR 0x0A]) s)
     | Some fid_off \<Rightarrow> do {
         let name = (case fi_name_off fi of
                       Some k \<Rightarrow> map byte_char (takeWhile (\<lambda>c. c \<noteq> 0)
                                   (buf_slice s (min k EVBUF_LEN) EVBUF_LEN))
                     | None \<Rightarrow> []);
         let s = fan_trace fi event_len name s;
         let s = s\<lparr>ret_off := MAX_EVENTS * EVENT_SIZE\<rparr>;
         let hl = unat (hdr_len (buf_slice s fid_off EVBUF_LEN));
         let end = min (fid_off + hl) (MAX_EVENTS * EVENT_SIZE);
         fid_bytes \<leftarrow> (if fid_off \<le> end then Some (buf_slice s fid_off end) else None);
         (wd, s) \<leftarrow> fan_watch os fid_off name fid_bytes s;
         case wd of
           None \<Rightarrow> Some ((False, 0), s)
         | Some wd \<Rightarrow> do {
             s \<leftarrow> fan_store meta (case wd of Some wd \<Rightarrow> wd | None \<Rightarrow> 0) (fi_name_off fi) (fi_name_len fi) s;
             Some ((True, sint (rd_u32 s (meta + 20))), s)
           }
       }
   }"

subsection \<open>The next event\<close>

text \<open>Events of the kernel are waiting in the buffer, unless the last one is cut off.\<close>

datatype source_of_event = Buffered | Must_read

definition take_buffered :: "'w machine \<Rightarrow> (source_of_event \<times> 'w machine) option" where
  "take_buffered s =
     (if first_byte s \<noteq> 0 \<and> first_byte s \<le> wrap32 (bytes s - int EVENT_SIZE)
      then let s = s\<lparr>ret_off := to_usize (first_byte s)\<rparr>;
               len = unat (rd_u32 s (ret_off s + 12));
               first = to_usize (first_byte s);
               avail = to_usize (bytes s)
           in if \<not> fanotify_mode s \<and> (first + EVENT_SIZE + len) mod 2 ^ 64 > avail
              then let have_n = to_usize (bytes s - first_byte s); last = (first + have_n) mod 2 ^ 64
                   in if first \<le> last \<and> last \<le> EVBUF_LEN
                      then Some (Must_read, (wr_bytes 0 (buf_slice s first last) s)
                                   \<lparr>bytes := int have_n, first_byte := 0\<rparr>)
                      else None
              else Some (Buffered, s\<lparr>this_bytes := 0\<rparr>)
      else if first_byte s = 0 then Some (Must_read, s\<lparr>bytes := 0\<rparr>)
      else Some (Must_read, s))"

text \<open>Wait until enough bytes can be read; the result is the last return value and \<open>errno\<close>.\<close>

fun wait_bytes :: "'w os \<Rightarrow> nat \<Rightarrow> int \<Rightarrow> 'w machine \<Rightarrow> ((int \<times> int) \<times> 'w machine) option" where
  "wait_bytes os 0 num_events s = None"
| "wait_bytes os (Suc fuel) num_events s =
     (let ((rc, e, n), s) = sys (os_fionread os (fd s)) s
      in if rc \<noteq> 0 \<or> int (unat n) \<ge> int EVENT_SIZE * num_events then Some ((rc, e), s)
         else wait_bytes os fuel num_events s)"

text \<open>Polling and reading; \<open>False\<close> when the call returns without an event.\<close>

definition read_more :: "'w os \<Rightarrow> nat \<Rightarrow> int \<Rightarrow> int \<Rightarrow> 'w machine \<Rightarrow> (bool \<times> 'w machine) option" where
  "read_more os fuel timeout num_events s =
     (let ((rc, e), s) = sys (os_ppoll os (fd s) timeout) s
      in if rc < 0 then Some (False, set_error e s)
         else if rc = 0 then Some (False, s)
         else do {
           ((rc, e), s) \<leftarrow> wait_bytes os fuel num_events s;
           if rc = -1 then Some (False, set_error e s)
           else let cap = EVENT_SIZE * MAX_EVENTS;
                    off = min (nat (bytes s)) cap;
                    ((n, e, data), s) = sys (os_read os (fd s) (cap - off)) s
                in if n < 0 then Some (False, set_error e s)
                   else if n = 0
                   then Some (False, ceprint (''Inotify reported end-of-file.  '' @
                          ''Possibly too many events occurred at once.'' @ [CHR 0x0A]) s)
                   else Some (True, (wr_bytes off (take (cap - off) data) s)\<lparr>this_bytes := n\<rparr>)
         })"

text \<open>\<open>more_events\<close>: step over the event; the process it is from, or \<open>None\<close> to return.\<close>

definition step_over :: "'w os \<Rightarrow> 'w machine \<Rightarrow> (int option \<times> 'w machine) option" where
  "step_over os s = do {
     let s = s\<lparr>ret_off := to_usize (first_byte s)\<rparr>;
     (pid, s) \<leftarrow> (if fanotify_mode s
        then do {
          ((ok, pid), s) \<leftarrow> convert_fanotify_event os s;
          Some (if ok then Some pid else None, s)
        }
        else let len = sint (rd_u32 s (ret_off s + 12))
             in Some (Some 0, s\<lparr>first_byte := wrap32 (first_byte s + int EVENT_SIZE + len)\<rparr>));
     case pid of
       None \<Rightarrow> Some (None, s)
     | Some pid \<Rightarrow>
         let s = s\<lparr>bytes := bytes s + this_bytes s\<rparr>;
             s = niceassert (first_byte s \<le> bytes s) 1198 ''first_byte <= bytes''
                   ''ridiculously long filename, things will almost certainly screw up.'' s;
             s = (if first_byte s = bytes s then s\<lparr>first_byte := 0\<rparr> else s)
         in Some (Some pid, s)
   }"

text \<open>The filter: the path of the event as \<open>%w%f\<close>, matched against the expression.\<close>

definition filter_exempt :: "'w machine \<Rightarrow> bool" where
  "filter_exempt s =
     (let m = rd_u32 s (ret_off s + 4)
      in recursive_watch s \<noteq> 0 \<and> m AND IN_ISDIR \<noteq> 0 \<and> m AND (IN_CREATE OR IN_MOVED_TO) \<noteq> 0)"

definition filtered_out :: "'w os \<Rightarrow> 'w machine \<Rightarrow> (bool \<times> 'w machine) option" where
  "filtered_out os s =
     (case regex s of
        None \<Rightarrow> Some (False, s)
      | Some re \<Rightarrow>
          if filter_exempt s then Some (False, s)
          else do {
            ((ret, match_name), s) \<leftarrow> snprintf os NString_new (int MAX_STRLEN) (current_event s)
                                        (Some ''%w%f'') s;
            let matched = (os_regexec os re (cstring (as_bytes match_name)) = 0);
            Some (matched \<noteq> invert_regexp s, s)
          })"

datatype outcome = Event | No_event | Again

text \<open>The rest of an iteration once there are bytes to look at.\<close>

definition deliver :: "'w os \<Rightarrow> 'w machine \<Rightarrow> (outcome \<times> 'w machine) option" where
  "deliver os s = do {
     (pid, s) \<leftarrow> step_over os s;
     case pid of
       None \<Rightarrow> Some (No_event, s)
     | Some pid \<Rightarrow>
         if self_pid s \<noteq> 0 \<and> self_pid s = pid then Some (Again, s)
         else do {
           (skip, s) \<leftarrow> filtered_out os s;
           if skip then Some (Again, s)
           else let s = (if collect_stats s
                         then record_stats (sint (rd_u32 s (ret_off s))) (rd_u32 s (ret_off s + 4)) s
                         else s)
                in Some (Event, s)
         }
   }"

definition next_event_step ::
  "'w os \<Rightarrow> nat \<Rightarrow> int \<Rightarrow> int \<Rightarrow> 'w machine \<Rightarrow> (outcome \<times> 'w machine) option" where
  "next_event_step os fuel timeout num_events s = do {
     (src, s) \<leftarrow> take_buffered (set_error 0 s);
     (ok, s) \<leftarrow> (case src of
                  Buffered \<Rightarrow> Some (True, s)
                | Must_read \<Rightarrow> read_more os fuel timeout num_events s);
     if \<not> ok then Some (No_event, s) else deliver os s
   }"

fun next_events_loop ::
  "'w os \<Rightarrow> nat \<Rightarrow> int \<Rightarrow> int \<Rightarrow> 'w machine \<Rightarrow> (bool \<times> 'w machine) option" where
  "next_events_loop os 0 timeout num_events s = None"
| "next_events_loop os (Suc fuel) timeout num_events s =
     (case next_event_step os (Suc fuel) timeout num_events s of
        None \<Rightarrow> None
      | Some (Event, s) \<Rightarrow> Some (True, s)
      | Some (No_event, s) \<Rightarrow> Some (False, s)
      | Some (Again, s) \<Rightarrow> next_events_loop os fuel timeout num_events s)"

definition next_events_raw ::
  "'w os \<Rightarrow> nat \<Rightarrow> int \<Rightarrow> int \<Rightarrow> 'w machine \<Rightarrow> (bool \<times> 'w machine) option" where
  "next_events_raw os fuel timeout num_events s =
     (let s = assert_init s;
          s = niceassert (num_events \<le> int MAX_EVENTS) 1096 ''num_events <= MAX_EVENTS''
                ''too many events requested'' s
      in if num_events < 1 then Some (False, s)
         else next_events_loop os fuel timeout num_events s)"

definition next_events ::
  "'w os \<Rightarrow> nat \<Rightarrow> int \<Rightarrow> int \<Rightarrow> 'w machine \<Rightarrow> (event option \<times> 'w machine) option" where
  "next_events os fuel timeout num_events s = do {
     (ok, s) \<leftarrow> next_events_raw os fuel timeout num_events s;
     Some (if ok then Some (current_event s) else None, s)
   }"

definition next_event :: "'w os \<Rightarrow> nat \<Rightarrow> int \<Rightarrow> 'w machine \<Rightarrow> (event option \<times> 'w machine) option" where
  "next_event os fuel timeout s = next_events os fuel (if timeout = 0 then -1 else timeout) 1 s"

subsection \<open>The bytes of an event\<close>

text \<open>An event as the kernel writes it: four little-endian words and the NUL-padded name.\<close>

definition word_bytes :: "u32 \<Rightarrow> u8 list" where
  "word_bytes w = [byte_of 0 w, byte_of 1 w, byte_of 2 w, byte_of 3 w]"

definition encode_event :: "event \<Rightarrow> u8 list" where
  "encode_event ev =
     word_bytes (word_of_int (ev_wd ev)) @ word_bytes (ev_mask ev) @ word_bytes (ev_cookie ev) @
     word_bytes (ev_len ev) @ map char_byte (ev_name ev) @
     replicate (unat (ev_len ev) - length (ev_name ev)) 0"

definition valid_event :: "event \<Rightarrow> bool" where
  "valid_event ev \<longleftrightarrow>
     - (2 ^ 31) \<le> ev_wd ev \<and> ev_wd ev < 2 ^ 31 \<and> NUL \<notin> set (ev_name ev) \<and>
     length (ev_name ev) \<le> unat (ev_len ev)"

definition bytes_at :: "'w machine \<Rightarrow> nat \<Rightarrow> u8 list \<Rightarrow> bool" where
  "bytes_at s off bs \<longleftrightarrow>
     off + length bs \<le> EVBUF_LEN \<and> (\<forall>i<length bs. evbuf s (off + i) = bs ! i)"

lemma length_word_bytes [simp]: "length (word_bytes w) = 4"
  by (simp add: word_bytes_def)

lemma length_encode_event:
  "valid_event ev \<Longrightarrow> length (encode_event ev) = EVENT_SIZE + unat (ev_len ev)"
  by (simp add: encode_event_def valid_event_def EVENT_SIZE_def)

lemma bytes_at_append:
  "bytes_at s off (xs @ ys) \<longleftrightarrow> bytes_at s off xs \<and> bytes_at s (off + length xs) ys"
proof
  assume *: "bytes_at s off (xs @ ys)"
  then have "evbuf s (off + (length xs + i)) = (xs @ ys) ! (length xs + i)" if "i < length ys" for i
    using that unfolding bytes_at_def by auto
  with * show "bytes_at s off xs \<and> bytes_at s (off + length xs) ys"
    by (auto simp: bytes_at_def nth_append add.assoc)
next
  assume *: "bytes_at s off xs \<and> bytes_at s (off + length xs) ys"
  have "evbuf s (off + i) = (xs @ ys) ! i" if "i < length (xs @ ys)" for i
  proof (cases "i < length xs")
    case True
    with * show ?thesis by (simp add: bytes_at_def nth_append)
  next
    case False
    with that have j: "i - length xs < length ys" "off + length xs + (i - length xs) = off + i" by auto
    with * have "evbuf s (off + i) = ys ! (i - length xs)"
      unfolding bytes_at_def by metis
    with False show ?thesis by (simp add: nth_append)
  qed
  with * show "bytes_at s off (xs @ ys)" by (simp add: bytes_at_def)
qed

lemma evbuf_small: "i < EVBUF_LEN \<Longrightarrow> rd_byte s i = evbuf s i"
  by (simp add: rd_byte_def EVBUF_LEN_def size_defs)

lemma rd_u32_word: "bytes_at s off (word_bytes w) \<Longrightarrow> rd_u32 s off = w"
proof -
  assume *: "bytes_at s off (word_bytes w)"
  have rb: "rd_byte s (off + i) = word_bytes w ! i" if "i < 4" for i
  proof -
    from * that have "off + i < EVBUF_LEN" "evbuf s (off + i) = word_bytes w ! i"
      unfolding bytes_at_def length_word_bytes by auto
    then show ?thesis by (simp only: evbuf_small)
  qed
  have "rd_byte s off = byte_of 0 w" "rd_byte s (off + 1) = byte_of (Suc 0) w"
    "rd_byte s (off + 2) = byte_of 2 w" "rd_byte s (off + 3) = byte_of 3 w"
    using rb [of 0] rb [of 1] rb [of 2] rb [of 3] by (simp_all add: word_bytes_def)
  then show ?thesis
    unfolding rd_u32_def by (simp only: le32_byte_of)
qed

lemma buf_slice_at: "bytes_at s off bs \<Longrightarrow> buf_slice s off (off + length bs) = bs"
  by (rule nth_equalityI) (auto simp: buf_slice_def bytes_at_def)

lemma takeWhile_name:
  assumes "NUL \<notin> set name"
  shows "takeWhile (\<lambda>c. c \<noteq> 0) (map char_byte name @ replicate k 0) = map char_byte name"
  using assms
proof (induction name)
  case Nil
  then show ?case by (cases k) simp_all
next
  case (Cons c name)
  then show ?case by auto
qed

lemma sint_of_int_32: "- (2 ^ 31) \<le> i \<Longrightarrow> i < 2 ^ 31 \<Longrightarrow> sint (word_of_int i :: u32) = i"
  by (simp add: sint_sbintrunc' signed_take_bit_int_eq_self)

lemma encode_fields:
  assumes "bytes_at s off (encode_event ev)"
  shows "rd_u32 s off = word_of_int (ev_wd ev)" "rd_u32 s (off + 4) = ev_mask ev"
    "rd_u32 s (off + 8) = ev_cookie ev" "rd_u32 s (off + 12) = ev_len ev"
    "bytes_at s (off + 16) (map char_byte (ev_name ev) @
       replicate (unat (ev_len ev) - length (ev_name ev)) 0)"
  using assms by (auto simp: encode_event_def bytes_at_append rd_u32_word add.assoc)

lemma current_event_decode:
  assumes ev: "valid_event ev" and at: "bytes_at s (ret_off s) (encode_event ev)"
  shows "current_event s = ev"
proof -
  note f = encode_fields [OF at]
  let ?name = "map char_byte (ev_name ev) @ replicate (unat (ev_len ev) - length (ev_name ev)) 0"
  have len: "length ?name = unat (ev_len ev)" using ev by (simp add: valid_event_def)
  have in_buf: "ret_off s + 16 + unat (ev_len ev) \<le> EVBUF_LEN"
    using f(5) len by (simp add: bytes_at_def)
  then have "(ret_off s + 16) mod 2 ^ 64 = ret_off s + 16"
    by (simp add: EVBUF_LEN_def size_defs)
  moreover have "buf_slice s (ret_off s + 16) (ret_off s + 16 + unat (ev_len ev)) = ?name"
    using buf_slice_at [OF f(5)] len by simp
  moreover have "map byte_char (takeWhile (\<lambda>c. c \<noteq> 0) ?name) = ev_name ev"
    using ev by (simp add: valid_event_def takeWhile_name comp_def)
  moreover have "ev_len ev > 0 \<longleftrightarrow> ev_len ev \<noteq> 0"
    by (simp add: word_neq_0_conv)
  moreover have "ev_len ev = 0 \<Longrightarrow> ev_name ev = []"
    using ev by (simp add: valid_event_def)
  ultimately show ?thesis
    using in_buf f(1-4) ev
    by (cases "ev_len ev = 0") (simp_all add: current_event_def Let_def EVENT_SIZE_def valid_event_def
        sint_of_int_32)
qed

subsection \<open>Events waiting in the buffer\<close>

text \<open>
  \<open>loaded\<close>: just before \<open>more_events\<close>, the given events start at \<open>first_byte\<close>; \<open>pending\<close>:
  between calls.
\<close>

abbreviation encode_events :: "event list \<Rightarrow> u8 list" where
  "encode_events evs \<equiv> concat (map encode_event evs)"

definition loaded :: "'w machine \<Rightarrow> event list \<Rightarrow> bool" where
  "loaded s evs \<longleftrightarrow>
     0 \<le> first_byte s \<and> first_byte s + int (length (encode_events evs)) = bytes s + this_bytes s \<and>
     bytes s + this_bytes s \<le> int (MAX_EVENTS * EVENT_SIZE) \<and>
     bytes_at s (nat (first_byte s)) (encode_events evs)"

definition pending :: "'w machine \<Rightarrow> event list \<Rightarrow> bool" where
  "pending s evs \<longleftrightarrow>
     (if evs = [] then first_byte s = 0
      else 0 < first_byte s \<and> first_byte s + int (length (encode_events evs)) = bytes s \<and>
        bytes s \<le> int (MAX_EVENTS * EVENT_SIZE) \<and>
        bytes_at s (nat (first_byte s)) (encode_events evs))"

lemma to_usize_id: "0 \<le> i \<Longrightarrow> i < 2 ^ 64 \<Longrightarrow> to_usize i = nat i"
  by (simp add: to_usize_def)

lemma sint_small:
  assumes "unat w < 2147483648"
  shows "sint (w :: u32) = int (unat w)"
proof -
  have "int (unat w) < int 2147483648" using assms by (simp only: of_nat_less_iff)
  moreover have "- (2 ^ 31) \<le> (0 :: int)" "(0 :: int) \<le> int (unat w)" by (simp, rule of_nat_0_le_iff)
  ultimately have le: "- (2 ^ 31) \<le> int (unat w)" "int (unat w) < 2 ^ 31"
    by (blast intro: order_trans, simp)
  have "signed_take_bit 31 (int (unat w)) = int (unat w)"
    by (rule signed_take_bit_int_eq_self [OF le])
  then show ?thesis by (simp add: sint_uint)
qed

lemma step_over_loaded:
  assumes mode: "\<not> fanotify_mode s" and l: "loaded s (e # es)" and e: "valid_event e"
    and vs: "\<forall>x\<in>set es. valid_event x"
  shows "\<exists>s'. step_over os s = Some (Some 0, s') \<and> current_event s' = e \<and> pending s' es \<and>
    s' = s\<lparr>ret_off := nat (first_byte s), first_byte := first_byte s', bytes := bytes s'\<rparr> \<and>
    ret_off s' = nat (first_byte s) \<and> bytes_at s' (ret_off s') (encode_event e)"
proof -
  let ?fb = "first_byte s" and ?n = "length (encode_event e)"
  let ?s0 = "s\<lparr>ret_off := nat ?fb\<rparr>"
  have l': "0 \<le> ?fb" "?fb + int ?n + int (length (encode_events es)) = bytes s + this_bytes s"
    "bytes s + this_bytes s \<le> 65536" "bytes_at s (nat ?fb) (encode_event e)"
    "bytes_at s (nat ?fb + ?n) (encode_events es)"
    using l by (auto simp: loaded_def bytes_at_append size_defs)
  have n: "?n = 16 + unat (ev_len e)" using length_encode_event [OF e] by (simp add: EVENT_SIZE_def)
  have usize: "to_usize ?fb = nat ?fb" using l' by (intro to_usize_id) auto
  have at: "bytes_at ?s0 (ret_off ?s0) (encode_event e)" using l'(4) by (simp add: bytes_at_def)
  have len: "rd_u32 ?s0 (nat ?fb + 12) = ev_len e" using encode_fields(4) [OF at] by simp
  have small: "unat (ev_len e) < 2147483648" "?fb + int ?n < 2147483648"
    using l' n by linarith+
  have "?fb + 16 + sint (ev_len e) = ?fb + int ?n"
    using n sint_small [OF small(1)] by simp
  then have fb': "wrap32 (?fb + 16 + sint (ev_len e)) = ?fb + int ?n"
    using small(2) l'(1) by (simp only:) (rule wrap32_id, simp_all)
  let ?b = "bytes s + this_bytes s"
  let ?s' = "?s0\<lparr>first_byte := if ?fb + int ?n = ?b then 0 else ?fb + int ?n, bytes := ?b\<rparr>"
  have "step_over os s = Some (Some 0, ?s')"
    using mode usize len fb' l'(2) by (simp add: step_over_def Let_def niceassert_def EVENT_SIZE_def)
  moreover have at': "bytes_at ?s' (ret_off ?s') (encode_event e)" using l'(4) by (simp add: bytes_at_def)
  moreover have "current_event ?s' = e" by (rule current_event_decode [OF e at'])
  moreover have "pending ?s' es"
  proof (cases "es = []")
    case True
    with l'(2) show ?thesis by (simp add: pending_def)
  next
    case False
    then obtain x xs where "es = x # xs" "valid_event x" using vs by (cases es) auto
    then have "0 < length (encode_events es)"
      using length_encode_event [of x] by (simp add: EVENT_SIZE_def)
    moreover have "0 < ?fb + int ?n" using l'(1) n by linarith
    ultimately show ?thesis
      using False l' by (auto simp: pending_def bytes_at_def size_defs nat_add_distrib)
  qed
  ultimately show ?thesis by (intro exI [of _ ?s']) simp
qed

lemma take_buffered_pending:
  assumes mode: "\<not> fanotify_mode s" and p: "pending s (e # es)" and e: "valid_event e"
  shows "\<exists>s'. take_buffered s = Some (Buffered, s') \<and> loaded s' (e # es) \<and>
    s' = s\<lparr>ret_off := nat (first_byte s), this_bytes := 0\<rparr>"
proof -
  let ?fb = "first_byte s"
  let ?s0 = "s\<lparr>ret_off := nat ?fb\<rparr>"
  have p': "0 < ?fb" "?fb + int (length (encode_event e)) \<le> bytes s" "bytes s \<le> 65536"
    "bytes_at s (nat ?fb) (encode_event e)"
    using p by (auto simp: pending_def bytes_at_append size_defs)
  have n: "length (encode_event e) = 16 + unat (ev_len e)"
    using length_encode_event [OF e] by (simp add: EVENT_SIZE_def)
  have at: "bytes_at ?s0 (nat ?fb) (encode_event e)" using p'(4) by (simp add: bytes_at_def)
  have len: "rd_u32 ?s0 (nat ?fb + 12) = ev_len e" using encode_fields(4) [OF at] by simp
  have usize: "to_usize ?fb = nat ?fb" "to_usize (bytes s) = nat (bytes s)"
    using p' by (auto intro!: to_usize_id)
  have "0 \<le> bytes s - 16" "bytes s - 16 < 65536" using p' n by linarith+
  then have "wrap32 (bytes s - 16) = bytes s - 16" by (intro wrap32_id) simp_all
  moreover have md: "(nat ?fb + 16 + unat (ev_len e)) mod 2 ^ 64 = nat ?fb + 16 + unat (ev_len e)"
  proof (rule mod_less)
    have "nat ?fb + 16 + unat (ev_len e) < 18446744073709551616" using p' n by linarith
    then show "nat ?fb + 16 + unat (ev_len e) < 2 ^ 64" by simp
  qed
  moreover have "?fb \<le> bytes s - 16" "\<not> nat (bytes s) < nat ?fb + 16 + unat (ev_len e)"
    using p' n by linarith+
  ultimately have "take_buffered s = Some (Buffered, ?s0\<lparr>this_bytes := 0\<rparr>)"
    using p'(1) len usize by (simp add: take_buffered_def Let_def EVENT_SIZE_def)
  moreover have "loaded (?s0\<lparr>this_bytes := 0\<rparr>) (e # es)"
    using p by (simp add: pending_def loaded_def bytes_at_def)
  ultimately show ?thesis by auto
qed

subsection \<open>The filter in inotify mode\<close>

text \<open>Inotify mode: no watch has a fid, so paths are the recorded names.\<close>

definition inotify_table :: "'w machine \<Rightarrow> bool" where
  "inotify_table s \<longleftrightarrow>
     table_inv s \<and> initialized s \<and> \<not> fanotify_mode s \<and> length (evstr s) = 1024 \<and>
     (\<forall>n w. watches s n = Some w \<longrightarrow> w_fid w = None)"

definition wd_path :: "'w machine \<Rightarrow> int \<Rightarrow> string" where
  "wd_path s wd =
     (if wd = 0 then []
      else case watch_from_wd s wd of
             None \<Rightarrow> []
           | Some n \<Rightarrow> (case watches s n of None \<Rightarrow> [] | Some w \<Rightarrow> w_filename w))"

definition event_text :: "'w machine \<Rightarrow> event \<Rightarrow> string" where
  "event_text s ev = wd_path s (ev_wd ev) @ (if ev_len ev > 0 then ev_name ev else [])"

text \<open>Whether an event passes the filter.\<close>

definition passes :: "'w os \<Rightarrow> 'w machine \<Rightarrow> event \<Rightarrow> bool" where
  "passes os s ev \<longleftrightarrow>
     (case regex s of
        None \<Rightarrow> True
      | Some re \<Rightarrow>
          (recursive_watch s \<noteq> 0 \<and> ev_mask ev AND IN_ISDIR \<noteq> 0 \<and>
             ev_mask ev AND (IN_CREATE OR IN_MOVED_TO) \<noteq> 0) \<or>
          (os_regexec os re (event_text s ev) = 0) = invert_regexp s)"

lemma filename_from_wd_plain:
  assumes "inotify_table s"
  shows "filename_from_wd os wd s = Some (wd_path s wd, s)"
proof (cases "watch_from_wd s wd")
  case None
  with assms show ?thesis by (simp add: filename_from_wd_def wd_path_def inotify_table_def)
next
  case (Some n)
  from assms have inv: "table_inv s" by (simp add: inotify_table_def)
  from watch_from_wd_found [OF inv Some] obtain w where w: "watches s n = Some w" by blast
  with assms Some show ?thesis
    by (auto simp: filename_from_wd_def filename_from_watch_id_def watch_at_def wd_path_def
        inotify_table_def)
qed

lemma wd_path_no_NUL: "table_inv s \<Longrightarrow> NUL \<notin> set (wd_path s wd)"
proof -
  assume inv: "table_inv s"
  have "NUL \<notin> set (w_filename w)" if "watches s n = Some w" for n w
    using table_invD(4) [OF inv that] by (simp add: watch_ok_def)
  then show ?thesis by (simp add: wd_path_def split: option.split)
qed

lemma filename_from_event_plain:
  assumes "inotify_table s"
  shows "filename_from_event os ev s = Some (\<lparr>ep_filename = wd_path s (ev_wd ev),
    ep_dirnamelen = length (wd_path s (ev_wd ev)),
    ep_eventname = (if ev_len ev > 0 then ev_name ev else [])\<rparr>, s)"
  using assms filename_from_wd_plain [OF assms, of os "ev_wd ev"]
  by (simp add: filename_from_event_def filename_from_event_ptr_def dirname_from_event_def
      inotify_table_def Let_def)

lemma fmt_wf_state: "fmt_loop os sz ev p ''%w%f'' ind buf s = Some (r, b, s') \<Longrightarrow> s' = s"
proof -
  have f: "fmt_loop os sz ev p ''%f'' ind buf s = Some (r, b, s') \<Longrightarrow> s' = s" for ind buf
    by (subst (asm) fmt_loop.simps)
      (auto simp: fmt_directive_def Let_def fmt_loop.simps [where fmt = "[]"] split: if_splits)
  then show "fmt_loop os sz ev p ''%w%f'' ind buf s = Some (r, b, s') \<Longrightarrow> s' = s"
    by (subst (asm) fmt_loop.simps) (auto simp: fmt_directive_def Let_def split: if_splits)
qed

lemma snprintf_path:
  assumes t: "inotify_table s" and fits: "length (event_text s ev) < MAX_STRLEN"
  shows "\<exists>ret out. snprintf os NString_new (int MAX_STRLEN) ev (Some ''%w%f'') s = Some ((ret, out), s) \<and>
    as_bytes out = event_text s ev"
proof -
  from t have t': "table_inv s" "initialized s" "length (evstr s) = 1024"
    by (simp_all add: inotify_table_def)
  let ?p = "\<lparr>ep_filename = wd_path s (ev_wd ev), ep_dirnamelen = length (wd_path s (ev_wd ev)),
    ep_eventname = (if ev_len ev > 0 then ev_name ev else [])\<rparr>"
  have "fmt_reference os ev ?p (timefmt s) ''%w%f'' (world s) = Some (event_text s ev)"
    by (simp add: fmt_piece_def ep_dirname_def event_text_def)
  from fmt_loop_writes [OF _ _ this refl refl t'(3), of "int MAX_STRLEN" 0 "ns_buf NString_new"] fits
  obtain buf s' where l: "fmt_loop os (int MAX_STRLEN) ev ?p ''%w%f'' 0 (ns_buf NString_new) s =
      Some (Inr (length (event_text s ev)), buf, s')" "wrote (ns_buf NString_new) 0 (event_text s ev) buf"
    by auto
  with fmt_wf_state [OF l(1)] have "snprintf os NString_new (int MAX_STRLEN) ev (Some ''%w%f'') s =
      Some ((wrap32 (int (length (event_text s ev)) - 1),
        \<lparr>ns_buf = buf, ns_len = length (event_text s ev)\<rparr>), s)"
    by (simp add: snprintf_def filename_from_event_plain [OF t] MAX_STRLEN_def)
  moreover have "as_bytes \<lparr>ns_buf = buf, ns_len = length (event_text s ev)\<rparr> = event_text s ev"
    using l(2) fits by (intro nth_equalityI) (simp_all add: as_bytes_def wrote_def)
  ultimately show ?thesis by blast
qed

lemma filtered_out_plain:
  assumes t: "inotify_table s" and ev: "current_event s = ev" "valid_event ev"
    and at: "bytes_at s (ret_off s) (encode_event ev)"
    and fits: "length (event_text s ev) < MAX_STRLEN"
  shows "filtered_out os s = Some (\<not> passes os s ev, s)"
proof -
  have m: "rd_u32 s (ret_off s + 4) = ev_mask ev" by (rule encode_fields(2) [OF at])
  have "NUL \<notin> set (event_text s ev)"
    using wd_path_no_NUL [of s] t ev(2) by (auto simp: event_text_def inotify_table_def valid_event_def)
  then have c: "cstring (event_text s ev) = event_text s ev" by (rule cstring_id)
  from snprintf_path [OF t fits] obtain ret out where
    "snprintf os NString_new (int MAX_STRLEN) ev (Some ''%w%f'') s = Some ((ret, out), s)"
    "as_bytes out = event_text s ev" by blast
  then show ?thesis
    using m c ev(1) by (auto simp: filtered_out_def passes_def filter_exempt_def Let_def
        split: option.splits)
qed

subsection \<open>Delivery\<close>

text \<open>What the delivery of an event changes, apart from the reader's own fields.\<close>

definition counted :: "event \<Rightarrow> 'w machine \<Rightarrow> 'w machine" where
  "counted ev s = (if collect_stats s then record_stats (ev_wd ev) (ev_mask ev) s else s)"

definition reader_moved :: "'w machine \<Rightarrow> 'w machine \<Rightarrow> bool" where
  "reader_moved s s' \<longleftrightarrow>
     s'\<lparr>error := error s, ret_off := ret_off s, first_byte := first_byte s, bytes := bytes s,
       this_bytes := this_bytes s\<rparr> = s"

text \<open>With a read in between, the buffer and the world change as well.\<close>

definition fed :: "'w machine \<Rightarrow> 'w machine \<Rightarrow> bool" where
  "fed s s' \<longleftrightarrow>
     s'\<lparr>error := error s, ret_off := ret_off s, first_byte := first_byte s, bytes := bytes s,
       this_bytes := this_bytes s, evbuf := evbuf s, world := world s\<rparr> = s"

lemma reader_moved_fields:
  assumes "reader_moved s s'"
  shows "watches s' = watches s"
    "by_wd s' = by_wd s"
    "by_fid s' = by_fid s"
    "by_filename s' = by_filename s"
    "next_id s' = next_id s"
    "next_fanotify_wd s' = next_fanotify_wd s"
    "initialized s' = initialized s"
    "evstr s' = evstr s"
    "evbuf s' = evbuf s"
    "world s' = world s"
    "regex s' = regex s"
    "invert_regexp s' = invert_regexp s"
    "recursive_watch s' = recursive_watch s"
    "collect_stats s' = collect_stats s"
    "self_pid s' = self_pid s"
    "fanotify_mode s' = fanotify_mode s"
    "totals s' = totals s"
proof -
  have eq: "s'\<lparr>error := error s, ret_off := ret_off s, first_byte := first_byte s, bytes := bytes s,
       this_bytes := this_bytes s\<rparr> = s" using assms by (simp add: reader_moved_def)
  show "watches s' = watches s" using arg_cong [OF eq, of watches] by simp
  show "by_wd s' = by_wd s" using arg_cong [OF eq, of by_wd] by simp
  show "by_fid s' = by_fid s" using arg_cong [OF eq, of by_fid] by simp
  show "by_filename s' = by_filename s" using arg_cong [OF eq, of by_filename] by simp
  show "next_id s' = next_id s" using arg_cong [OF eq, of next_id] by simp
  show "next_fanotify_wd s' = next_fanotify_wd s" using arg_cong [OF eq, of next_fanotify_wd] by simp
  show "initialized s' = initialized s" using arg_cong [OF eq, of initialized] by simp
  show "evstr s' = evstr s" using arg_cong [OF eq, of evstr] by simp
  show "evbuf s' = evbuf s" using arg_cong [OF eq, of evbuf] by simp
  show "world s' = world s" using arg_cong [OF eq, of world] by simp
  show "regex s' = regex s" using arg_cong [OF eq, of regex] by simp
  show "invert_regexp s' = invert_regexp s" using arg_cong [OF eq, of invert_regexp] by simp
  show "recursive_watch s' = recursive_watch s" using arg_cong [OF eq, of recursive_watch] by simp
  show "collect_stats s' = collect_stats s" using arg_cong [OF eq, of collect_stats] by simp
  show "self_pid s' = self_pid s" using arg_cong [OF eq, of self_pid] by simp
  show "fanotify_mode s' = fanotify_mode s" using arg_cong [OF eq, of fanotify_mode] by simp
  show "totals s' = totals s" using arg_cong [OF eq, of totals] by simp
qed

lemma reader_moved_same:
  assumes "reader_moved s s'"
  shows "inotify_table s' = inotify_table s" "passes os s' = passes os s"
    "event_text s' = event_text s"
proof -
  note f = reader_moved_fields [OF assms]
  have tx: "event_text s' ev = event_text s ev" for ev
    by (simp add: event_text_def wd_path_def watch_from_wd_def f split: option.split)
  then show "event_text s' = event_text s" by (rule ext)
  show "passes os s' = passes os s" by (rule ext) (simp add: passes_def f tx split: option.split)
  show "inotify_table s' = inotify_table s" by (simp add: inotify_table_def table_inv_def f)
qed

lemma passes_record_stats:
  assumes t: "inotify_table s"
  shows "event_text (record_stats wd m s) = event_text s"
    and "passes os (record_stats wd m s) = passes os s"
    and "inotify_table (record_stats wd m s)"
proof -
  have name: "map_option w_filename (watches (record_stats wd m s) n) = map_option w_filename (watches s n)"
    "map_option w_fid (watches (record_stats wd m s) n) = map_option w_fid (watches s n)" for n
    by (auto simp: record_stats_def Let_def split: option.splits)
  have "wd_path (record_stats wd m s) d = wd_path s d" for d
  proof (cases "watch_from_wd s d")
    case None
    then show ?thesis by (simp add: wd_path_def watch_from_wd_def)
  next
    case (Some n)
    with name(1) [of n] show ?thesis
      by (cases "watches s n") (auto simp: wd_path_def watch_from_wd_def)
  qed
  then have "event_text (record_stats wd m s) ev = event_text s ev" for ev
    by (simp add: event_text_def)
  then show e: "event_text (record_stats wd m s) = event_text s" by (rule ext)
  have "recursive_watch (record_stats wd m s) = recursive_watch s"
    "invert_regexp (record_stats wd m s) = invert_regexp s"
    by (simp_all add: record_stats_def Let_def split: option.splits)
  then show "passes os (record_stats wd m s) = passes os s"
    by (intro ext) (simp add: passes_def e split: option.split)
  have "w_fid w = None" if "watches (record_stats wd m s) n = Some w" for n w
    using name(2) [of n] that t by (cases "watches s n") (auto simp: inotify_table_def)
  then show "inotify_table (record_stats wd m s)"
    using t record_stats_inv [of s wd m] by (simp add: inotify_table_def)
qed

lemma reader_moved_trans:
  assumes "reader_moved s t" and "reader_moved t u"
  shows "reader_moved s u"
proof -
  from assms(2) have u: "u\<lparr>error := error t, ret_off := ret_off t, first_byte := first_byte t,
      bytes := bytes t, this_bytes := this_bytes t\<rparr> = t" by (simp add: reader_moved_def)
  from assms(1) have "t\<lparr>error := error s, ret_off := ret_off s, first_byte := first_byte s,
      bytes := bytes s, this_bytes := this_bytes s\<rparr> = s" by (simp add: reader_moved_def)
  then show ?thesis
    unfolding reader_moved_def by (subst (asm) u [symmetric]) simp
qed

lemma deliver_loaded:
  assumes t: "inotify_table s" and l: "loaded s (e # es)" and v: "\<forall>x\<in>set (e # es). valid_event x"
    and fits: "length (event_text s e) < MAX_STRLEN"
  shows "\<exists>s1. reader_moved s s1 \<and> pending s1 es \<and> current_event s1 = e \<and>
    deliver os s = Some (if passes os s e then (Event, counted e s1) else (Again, s1))"
proof -
  from t have mode: "\<not> fanotify_mode s" by (simp add: inotify_table_def)
  from step_over_loaded [OF mode l] v obtain s1 where
    st: "step_over os s = Some (Some 0, s1)" "current_event s1 = e" "pending s1 es"
    and eq: "s1 = s\<lparr>ret_off := nat (first_byte s), first_byte := first_byte s1, bytes := bytes s1\<rparr>"
    and at: "bytes_at s1 (ret_off s1) (encode_event e)" by auto
  have moved: "reader_moved s s1"
    unfolding reader_moved_def by (subst eq) simp
  note same = reader_moved_same [OF moved]
  have "filtered_out os s1 = Some (\<not> passes os s1 e, s1)"
    using t same st(2) v fits by (intro filtered_out_plain [OF _ st(2) _ at]) simp_all
  moreover have "sint (rd_u32 s1 (ret_off s1)) = ev_wd e" "rd_u32 s1 (ret_off s1 + 4) = ev_mask e"
    using encode_fields(1,2) [OF at] v by (simp_all add: valid_event_def sint_of_int_32)
  ultimately have "deliver os s = Some (if passes os s e then (Event, counted e s1) else (Again, s1))"
    using st(1) same by (simp add: deliver_def counted_def)
  with moved st show ?thesis by blast
qed

lemma step_pending:
  assumes t: "inotify_table s" and p: "pending s (e # es)" and v: "\<forall>x\<in>set (e # es). valid_event x"
    and fits: "length (event_text s e) < MAX_STRLEN"
  shows "\<exists>s1. reader_moved s s1 \<and> pending s1 es \<and> current_event s1 = e \<and>
    next_event_step os fuel timeout num_events s =
      Some (if passes os s e then (Event, counted e s1) else (Again, s1))"
proof -
  let ?s0 = "set_error 0 s"
  have m0: "reader_moved s ?s0" by (simp add: reader_moved_def set_error_def)
  have p0: "pending ?s0 (e # es)" using p by (simp add: pending_def set_error_def bytes_at_def)
  note same0 = reader_moved_same [OF m0] reader_moved_fields [OF m0]
  have "\<not> fanotify_mode ?s0" using t same0 by (simp add: inotify_table_def)
  from take_buffered_pending [OF this p0] v obtain s1 where
    b: "take_buffered ?s0 = Some (Buffered, s1)" "loaded s1 (e # es)"
      "s1 = ?s0\<lparr>ret_off := nat (first_byte ?s0), this_bytes := 0\<rparr>" by auto
  have m1: "reader_moved s s1"
    unfolding b(3) by (simp add: reader_moved_def set_error_def)
  note same1 = reader_moved_same [OF m1]
  from deliver_loaded [OF _ b(2) v, of os] t fits same1 obtain s2 where
    d: "reader_moved s1 s2" "pending s2 es" "current_event s2 = e"
      "deliver os s1 = Some (if passes os s1 e then (Event, counted e s2) else (Again, s2))"
    by auto
  then show ?thesis
    using b(1) same1(2) reader_moved_trans [OF m1 d(1)]
    by (intro exI [of _ s2]) (simp add: next_event_step_def)
qed

text \<open>The first of the waiting events that passes the filter.\<close>

lemma loop_pending:
  "inotify_table s \<Longrightarrow> pending s (evs @ e # es) \<Longrightarrow> \<forall>x\<in>set (evs @ e # es). valid_event x \<Longrightarrow>
     \<forall>x\<in>set (evs @ e # es). length (event_text s x) < MAX_STRLEN \<Longrightarrow>
     \<forall>x\<in>set evs. \<not> passes os s x \<Longrightarrow> passes os s e \<Longrightarrow> length evs < fuel \<Longrightarrow>
     \<exists>s1. reader_moved s s1 \<and> pending s1 es \<and> current_event s1 = e \<and>
       next_events_loop os fuel timeout num_events s = Some (True, counted e s1)"
proof (induction evs arbitrary: s fuel)
  case Nil
  then obtain f where f: "fuel = Suc f" by (cases fuel) auto
  from Nil step_pending [of s e es os fuel timeout num_events] obtain s1 where
    "reader_moved s s1" "pending s1 es" "current_event s1 = e"
    "next_event_step os fuel timeout num_events s = Some (Event, counted e s1)" by auto
  then show ?case by (auto simp: f)
next
  case (Cons x evs)
  then obtain f where f: "fuel = Suc f" by (cases fuel) auto
  from Cons.prems step_pending [of s x "evs @ e # es" os fuel timeout num_events] obtain s1 where
    s1: "reader_moved s s1" "pending s1 (evs @ e # es)"
      "next_event_step os fuel timeout num_events s = Some (Again, s1)" by auto
  note same = reader_moved_same [OF s1(1)]
  have "\<exists>s2. reader_moved s1 s2 \<and> pending s2 es \<and> current_event s2 = e \<and>
      next_events_loop os f timeout num_events s1 = Some (True, counted e s2)"
    using Cons.prems s1(2) f by (intro Cons.IH) (simp_all add: same)
  then show ?case
    using s1(3) reader_moved_trans [OF s1(1)] by (auto simp: f)
qed

lemma counted_reader:
  assumes "inotify_table s"
  shows "pending (counted e s) es = pending s es" "current_event (counted e s) = current_event s"
    "inotify_table (counted e s)" "event_text (counted e s) = event_text s"
    "passes os (counted e s) = passes os s" "world (counted e s) = world s"
proof -
  have f: "evbuf (counted e s) = evbuf s" "first_byte (counted e s) = first_byte s"
    "bytes (counted e s) = bytes s" "ret_off (counted e s) = ret_off s"
    by (simp_all add: counted_def)
  have "rd_u32 (counted e s) = rd_u32 s"
    by (rule ext) (simp only: rd_u32_def rd_byte_def f)
  moreover have "buf_slice (counted e s) = buf_slice s"
    by (intro ext) (simp only: buf_slice_def f)
  ultimately show "current_event (counted e s) = current_event s"
    by (simp only: current_event_def f)
  show "pending (counted e s) es = pending s es"
    by (simp only: pending_def bytes_at_def f)
  show "inotify_table (counted e s)" "event_text (counted e s) = event_text s"
    "passes os (counted e s) = passes os s" "world (counted e s) = world s"
    using passes_record_stats [OF assms] assms by (simp_all add: counted_def)
qed

text \<open>Asking for \<open>n\<close> events, one call each.\<close>

fun take_events :: "'w os \<Rightarrow> nat \<Rightarrow> int \<Rightarrow> nat \<Rightarrow> 'w machine \<Rightarrow> (event option list \<times> 'w machine) option" where
  "take_events os fuel timeout 0 s = Some ([], s)"
| "take_events os fuel timeout (Suc n) s = do {
     (ev, s) \<leftarrow> next_event os fuel timeout s;
     (evs, s) \<leftarrow> take_events os fuel timeout n s;
     Some (ev # evs, s)
   }"

text \<open>What counting a list of events does.\<close>

definition counting :: "event list \<Rightarrow> 'w machine \<Rightarrow> 'w machine" where
  "counting evs s = (if collect_stats s then record_all (map (\<lambda>e. (ev_wd e, ev_mask e)) evs) s else s)"

lemma counting_Nil [simp]: "counting [] s = s"
  by (simp add: counting_def record_all_def)

lemma counting_Cons: "counting (e # evs) s = counting evs (counted e s)"
  by (simp add: counting_def counted_def record_all_Cons)

lemma same_counts_counting: "same_counts s t \<Longrightarrow> same_counts (counting evs s) (counting evs t)"
  using same_counts_record_all [of s t] by (simp add: counting_def) (simp add: same_counts_def)

lemma counted_counting: "same_counts s t \<Longrightarrow> same_counts (counted e s) (counted e t)"
  using same_counts_counting [of s t "[e]"] by (simp add: counting_Cons)

lemma reader_moved_counts: "reader_moved s t \<Longrightarrow> same_counts s t"
proof -
  assume m: "reader_moved s t"
  have "totals t = totals s"
    using arg_cong [OF m [unfolded reader_moved_def], of totals] by simp
  with m show ?thesis by (simp add: same_counts_def reader_moved_fields)
qed

lemma take_events_counts:
  "inotify_table s \<Longrightarrow> pending s evs \<Longrightarrow> \<forall>x\<in>set evs. valid_event x \<Longrightarrow>
     \<forall>x\<in>set evs. length (event_text s x) < MAX_STRLEN \<Longrightarrow> length evs \<le> fuel \<Longrightarrow>
     \<exists>s'. take_events os fuel timeout (length (filter (passes os s) evs)) s =
         Some (map Some (filter (passes os s) evs), s') \<and> world s' = world s \<and>
       same_counts (counting (filter (passes os s) evs) s) s'"
proof (induction "length evs" arbitrary: evs s rule: less_induct)
  case less
  show ?case
  proof (cases "\<exists>e\<in>set evs. passes os s e")
    case False
    then have "filter (passes os s) evs = []" by (simp add: filter_empty_conv)
    then show ?thesis by (simp add: counting_def record_all_def)
  next
    case True
    then obtain pre e es where evs: "evs = pre @ e # es" "passes os s e" "\<forall>x\<in>set pre. \<not> passes os s x"
      by (metis split_list_first_propE)
    have "\<exists>s1. reader_moved s s1 \<and> pending s1 es \<and> current_event s1 = e \<and>
       next_events_loop os fuel (if timeout = 0 then -1 else timeout) 1 s = Some (True, counted e s1)"
      using less.prems evs by (intro loop_pending [of s pre e es]) auto
    then obtain s1 where s1: "reader_moved s s1" "pending s1 es" "current_event s1 = e"
      "next_events_loop os fuel (if timeout = 0 then -1 else timeout) 1 s = Some (True, counted e s1)"
      by blast
    note same = reader_moved_same [OF s1(1)] reader_moved_fields(10) [OF s1(1)]
    have t1: "inotify_table s1" using less.prems(1) same by simp
    note c = counted_reader [OF t1]
    have call: "next_event os fuel timeout s = Some (Some e, counted e s1)"
      using s1(3,4) c less.prems(1)
      by (simp add: next_event_def next_events_def next_events_raw_def niceassert_def MAX_EVENTS_def
          inotify_table_def)
    have "\<exists>s'. take_events os fuel timeout (length (filter (passes os (counted e s1)) es)) (counted e s1) =
         Some (map Some (filter (passes os (counted e s1)) es), s') \<and> world s' = world (counted e s1) \<and>
         same_counts (counting (filter (passes os (counted e s1)) es) (counted e s1)) s'"
      using less.prems evs s1(2) c by (intro less.hyps) (auto simp: same)
    then obtain s' where s': "take_events os fuel timeout (length (filter (passes os s) es)) (counted e s1) =
         Some (map Some (filter (passes os s) es), s')" "world s' = world s"
        "same_counts (counting (filter (passes os s) es) (counted e s1)) s'"
      by (auto simp: c same)
    have "filter (passes os s) evs = e # filter (passes os s) es" using evs by (simp add: filter_empty_conv)
    moreover have "same_counts (counting (e # filter (passes os s) es) s) s'"
      using same_counts_trans [OF same_counts_counting [OF counted_counting [OF reader_moved_counts [OF s1(1)]]] s'(3)]
      by (simp add: counting_Cons)
    ultimately show ?thesis
      using call s'(1,2) by auto
  qed
qed

lemma take_events_pending:
  assumes "inotify_table s" and "pending s evs" and "\<forall>x\<in>set evs. valid_event x"
    and "\<forall>x\<in>set evs. length (event_text s x) < MAX_STRLEN" and "length evs \<le> fuel"
  shows "\<exists>s'. take_events os fuel timeout (length (filter (passes os s) evs)) s =
         Some (map Some (filter (passes os s) evs), s') \<and> world s' = world s"
  using take_events_counts [OF assms, of os timeout] by blast

text \<open>Every event counted once: for its watch, and in the totals.\<close>

definition counts_grown :: "event list \<Rightarrow> 'w machine \<Rightarrow> 'w machine \<Rightarrow> bool" where
  "counts_grown evs s t \<longleftrightarrow>
     (if collect_stats s
      then totals t = stats_replay (totals s) (map ev_mask (filter (\<lambda>x. watch_from_wd s (ev_wd x) \<noteq> None) evs)) \<and>
        (\<forall>wd n w. watch_from_wd s wd = Some n \<longrightarrow> watches s n = Some w \<longrightarrow>
           map_option w_stats (watches t n) =
             Some (stats_replay (w_stats w) (map ev_mask (filter (\<lambda>x. ev_wd x = wd) evs))))
      else totals t = totals s \<and> watches t = watches s)"

lemma counting_grown:
  assumes t: "inotify_table s" and c: "same_counts (counting evs s) t"
  shows "counts_grown evs s t"
proof -
  let ?rs = "map (\<lambda>e. (ev_wd e, ev_mask e)) evs"
  have inv: "table_inv s" using t by (simp add: inotify_table_def)
  have "masks_of wd ?rs = map ev_mask (filter (\<lambda>x. ev_wd x = wd) evs)" for wd
    by (simp add: masks_of_def filter_map comp_def)
  moreover have "map snd (filter (\<lambda>e. watch_from_wd s (fst e) \<noteq> None) ?rs) =
      map ev_mask (filter (\<lambda>x. watch_from_wd s (ev_wd x) \<noteq> None) evs)"
    by (simp add: filter_map comp_def)
  ultimately show ?thesis
    using c record_all_totals [of ?rs s] record_all_watch [OF inv, of _ _ _ ?rs]
    unfolding counts_grown_def by (auto simp: same_counts_def counting_def)
qed

subsection \<open>Properties\<close>

text \<open>C6.
  Delivery is exact: when a read has left events in the buffer, asking for as many events as pass
  the filter yields exactly those events, decoded as the kernel encoded them and in the order the
  kernel wrote them, and none of these calls reaches the system; an event is filtered by the
  regular expression on its full path unless it is a new directory in recursive mode. When
  statistics are collected, each delivered event has been counted once, in the counters of the
  watch of its descriptor and, if there is one, in the totals; otherwise no counter has changed.\<close>

theorem buffered_events_delivered:
  assumes t: "inotify_table s" and p: "pending s evs" and v: "\<forall>x\<in>set evs. valid_event x"
    and fits: "\<forall>x\<in>set evs. length (event_text s x) < MAX_STRLEN" and fuel: "length evs \<le> fuel"
    and passed: "passed = filter (passes os s) evs"
  shows "\<exists>s'. take_events os fuel timeout (length passed) s = Some (map Some passed, s') \<and>
    world s' = world s \<and>
    (if collect_stats s
     then totals s' = stats_replay (totals s)
            (map ev_mask (filter (\<lambda>x. watch_from_wd s (ev_wd x) \<noteq> None) passed)) \<and>
       (\<forall>wd n w. watch_from_wd s wd = Some n \<longrightarrow> watches s n = Some w \<longrightarrow>
          map_option w_stats (watches s' n) =
            Some (stats_replay (w_stats w) (map ev_mask (filter (\<lambda>x. ev_wd x = wd) passed))))
     else totals s' = totals s \<and> watches s' = watches s)"
proof -
  from take_events_counts [OF t p v fits fuel, of os timeout] obtain s' where
    s': "take_events os fuel timeout (length passed) s = Some (map Some passed, s')" "world s' = world s"
      "same_counts (counting passed s) s'" unfolding passed by blast
  with counting_grown [OF t s'(3)] show ?thesis
    unfolding counts_grown_def by (intro exI [of _ s']) blast
qed

text \<open>A buffer with events behind the first sixteen bytes.\<close>

definition with_events :: "event list \<Rightarrow> unit machine" where
  "with_events evs =
     (let bs = encode_events evs in wr_bytes 16 bs ((one_watch ''/d/'')
        \<lparr>first_byte := 16, bytes := 16 + int (length bs)\<rparr>))"

lemma bytes_at_wr: "off + length bs \<le> EVBUF_LEN \<Longrightarrow> bytes_at (wr_bytes off bs s) off bs"
  by (simp add: bytes_at_def wr_bytes_def)

lemma wr_bytes_fields [simp]:
  "watches (wr_bytes off bs s) = watches s" "by_wd (wr_bytes off bs s) = by_wd s"
  "by_fid (wr_bytes off bs s) = by_fid s" "by_filename (wr_bytes off bs s) = by_filename s"
  "next_id (wr_bytes off bs s) = next_id s" "next_fanotify_wd (wr_bytes off bs s) = next_fanotify_wd s"
  "initialized (wr_bytes off bs s) = initialized s" "fanotify_mode (wr_bytes off bs s) = fanotify_mode s"
  "evstr (wr_bytes off bs s) = evstr s" "first_byte (wr_bytes off bs s) = first_byte s"
  "bytes (wr_bytes off bs s) = bytes s" "regex (wr_bytes off bs s) = regex s"
  "world (wr_bytes off bs s) = world s" "ret_off (wr_bytes off bs s) = ret_off s"
  "this_bytes (wr_bytes off bs s) = this_bytes s" "collect_stats (wr_bytes off bs s) = collect_stats s"
  "invert_regexp (wr_bytes off bs s) = invert_regexp s" "fd (wr_bytes off bs s) = fd s"
  "recursive_watch (wr_bytes off bs s) = recursive_watch s" "verbosity (wr_bytes off bs s) = verbosity s"
  "self_pid (wr_bytes off bs s) = self_pid s" "error (wr_bytes off bs s) = error s"
  "fanotify_mark_type (wr_bytes off bs s) = fanotify_mark_type s"
  by (simp_all add: wr_bytes_def)

lemma with_events_ok:
  assumes "length (encode_events evs) \<le> 1000" and "evs \<noteq> []"
  shows "inotify_table (with_events evs)" and "pending (with_events evs) evs"
    and "event_text (with_events evs) e =
      (if ev_wd e = 3 then ''/d/'' else []) @ (if ev_len e > 0 then ev_name e else [])"
    and "regex (with_events evs) = None"
proof -
  note o = one_watch_facts [of "''/d/''"]
  have c: "cstring ''/d/'' = ''/d/''" by (simp add: cstring_def)
  have frame: "table_inv (with_events evs) = table_inv (one_watch ''/d/'')"
    by (simp add: with_events_def Let_def table_inv_def)
  have w: "watches (with_events evs) = [1 \<mapsto> new_watch 3 None ''/d/'' 0]"
    "by_wd (with_events evs) = [(3, 1)]"
    by (simp_all add: with_events_def Let_def o)
  show "inotify_table (with_events evs)"
    using frame o(1) one_watch_evstr [of "''/d/''"] o(2)
    by (simp add: inotify_table_def w) (simp add: with_events_def Let_def one_watch_def register_def)
  show "event_text (with_events evs) e =
      (if ev_wd e = 3 then ''/d/'' else []) @ (if ev_len e > 0 then ev_name e else [])"
    by (simp add: event_text_def wd_path_def watch_from_wd_def bt_get_def w c)
  show "regex (with_events evs) = None"
    by (simp add: with_events_def Let_def one_watch_def register_def)
  have "bytes_at (with_events evs) 16 (encode_events evs)"
    unfolding with_events_def Let_def using assms
    by (intro bytes_at_wr) (simp add: EVBUF_LEN_def size_defs)
  moreover have "first_byte (with_events evs) = 16"
    "bytes (with_events evs) = 16 + int (length (encode_events evs))"
    by (simp_all add: with_events_def Let_def)
  ultimately show "pending (with_events evs) evs"
    using assms by (simp add: pending_def size_defs)
qed

definition two_events :: "event list" where
  "two_events = [\<lparr>ev_wd = 3, ev_mask = IN_OPEN, ev_cookie = 0, ev_len = 16, ev_name = ''a''\<rparr>,
     \<lparr>ev_wd = 3, ev_mask = IN_DELETE_SELF, ev_cookie = 7, ev_len = 0, ev_name = []\<rparr>]"

theorem buffered_events_delivered_witness:
  "\<exists>s'. take_events quiet_os 2 5 2 (with_events two_events) = Some (map Some two_events, s')"
proof -
  have v: "\<forall>x\<in>set two_events. valid_event x"
    by (simp add: two_events_def valid_event_def)
  have "length (encode_events two_events) = 48"
    using v by (simp add: two_events_def length_encode_event EVENT_SIZE_def)
  then have len: "length (encode_events two_events) \<le> 1000" and ne: "two_events \<noteq> []"
    by (simp_all add: two_events_def)
  note ok = with_events_ok [OF len ne]
  have all: "filter (passes quiet_os (with_events two_events)) two_events = two_events"
    by (simp add: passes_def ok(4))
  have "\<forall>x\<in>set two_events. length (event_text (with_events two_events) x) < MAX_STRLEN"
    by (simp add: ok(3)) (simp add: two_events_def MAX_STRLEN_def)
  moreover have "length two_events = 2" by (simp add: two_events_def)
  ultimately show ?thesis
    using buffered_events_delivered [OF ok(1,2) v _ _ all [symmetric], of 2 5] by auto
qed

text \<open>Reading a batch of events.\<close>

lemma read_loaded:
  assumes t: "inotify_table s" and empty: "first_byte s = 0" and v: "\<forall>x\<in>set evs. valid_event x"
    and data: "length (encode_events evs) \<le> MAX_EVENTS * EVENT_SIZE" "encode_events evs \<noteq> []"
    and poll: "os_ppoll os (fd s) timeout (world s) = ((rc, err), w1)" "0 < rc"
    and avail: "os_fionread os (fd s) w1 = ((0, err', n), w2)" "int EVENT_SIZE * num_events \<le> int (unat n)"
    and read: "os_read os (fd s) (MAX_EVENTS * EVENT_SIZE) w2 =
      ((int (length (encode_events evs)), err'', encode_events evs), w3)"
  shows "\<exists>s1. (case take_buffered (set_error 0 s) of None \<Rightarrow> None
      | Some (src, s) \<Rightarrow> (case src of Buffered \<Rightarrow> Some (True, s)
                          | Must_read \<Rightarrow> read_more os (Suc fuel) timeout num_events s)) = Some (True, s1) \<and>
    loaded s1 evs \<and> world s1 = w3 \<and> inotify_table s1 \<and> event_text s1 = event_text s \<and>
    passes os s1 = passes os s \<and> fed s s1"
proof -
  let ?bs = "encode_events evs"
  let ?s0 = "(set_error 0 s)\<lparr>bytes := 0\<rparr>"
  let ?s1 = "(wr_bytes 0 ?bs (?s0\<lparr>world := w3\<rparr>))\<lparr>this_bytes := int (length ?bs)\<rparr>"
  have tb: "take_buffered (set_error 0 s) = Some (Must_read, ?s0)"
    using empty by (simp add: take_buffered_def set_error_def)
  have "read_more os (Suc fuel) timeout num_events ?s0 = Some (True, ?s1)"
    using poll avail read data by (simp add: read_more_def sys_def set_error_def size_defs mult.commute)
  moreover have "loaded ?s1 evs"
    using data empty bytes_at_wr [of 0 ?bs "?s0\<lparr>world := w3\<rparr>"]
    by (simp add: loaded_def set_error_def EVBUF_LEN_def size_defs bytes_at_def)
  moreover have tx: "event_text ?s1 = event_text s"
    by (rule ext) (simp add: event_text_def wd_path_def watch_from_wd_def set_error_def split: option.split)
  moreover have "passes os ?s1 = passes os s"
    by (rule ext) (use tx in \<open>simp add: passes_def set_error_def split: option.split\<close>)
  moreover have "inotify_table ?s1"
    using t by (simp add: inotify_table_def table_inv_def set_error_def)
  moreover have "fed s ?s1" by (simp add: fed_def wr_bytes_def set_error_def)
  ultimately show ?thesis using tb by (intro exI [of _ ?s1]) simp
qed

text \<open>C7.
  Reading loses nothing: when no event is waiting and the kernel hands over a batch of whole
  events, the call returns the first of them that passes the filter, decoded as it was encoded,
  and all events behind it are waiting for the next calls.\<close>

theorem read_batch_delivered:
  assumes t: "inotify_table s" and empty: "first_byte s = 0"
    and evs: "evs = pre @ e # es" "\<forall>x\<in>set pre. \<not> passes os s x" "passes os s e"
    and v: "\<forall>x\<in>set evs. valid_event x" "\<forall>x\<in>set evs. length (event_text s x) < MAX_STRLEN"
    and data: "length (encode_events evs) \<le> MAX_EVENTS * EVENT_SIZE"
    and num: "1 \<le> num_events" "num_events \<le> int MAX_EVENTS"
    and poll: "os_ppoll os (fd s) timeout (world s) = ((rc, err), w1)" "0 < rc"
    and avail: "os_fionread os (fd s) w1 = ((0, err', n), w2)" "int EVENT_SIZE * num_events \<le> int (unat n)"
    and read: "os_read os (fd s) (MAX_EVENTS * EVENT_SIZE) w2 =
      ((int (length (encode_events evs)), err'', encode_events evs), w3)"
    and fuel: "length evs \<le> fuel"
  shows "\<exists>s'. next_events os fuel timeout num_events s = Some (Some e, s') \<and> pending s' es \<and>
    inotify_table s' \<and> passes os s' = passes os s \<and> event_text s' = event_text s \<and> world s' = w3"
proof -
  have "evs \<noteq> []" using evs(1) by simp
  then obtain x xs where xs: "evs = x # xs" by (cases evs) auto
  then have "encode_events evs \<noteq> []"
    using v(1) length_encode_event [of x] by (auto simp: EVENT_SIZE_def)
  obtain f where f: "fuel = Suc f" using fuel xs by (cases fuel) auto
  from read_loaded [OF t empty v(1) data \<open>encode_events evs \<noteq> []\<close> poll avail read, of f]
  obtain s0 s1 src where s1: "take_buffered (set_error 0 s) = Some (src, s0)"
    "(case src of Buffered \<Rightarrow> Some (True, s0)
      | Must_read \<Rightarrow> read_more os (Suc f) timeout num_events s0) = Some (True, s1)"
    "loaded s1 evs" "world s1 = w3" "inotify_table s1" "event_text s1 = event_text s"
    "passes os s1 = passes os s" by (auto split: option.splits)
  from deliver_loaded [OF s1(5), of x xs os] s1(3,6) v xs obtain s2 where
    s2: "reader_moved s1 s2" "pending s2 xs" "current_event s2 = x"
      "deliver os s1 = Some (if passes os s x then (Event, counted x s2) else (Again, s2))"
    by (auto simp: s1(7))
  have step: "next_event_step os (Suc f) timeout num_events s = deliver os s1"
    using s1(1,2) by (simp add: next_event_step_def)
  note same = reader_moved_same [OF s2(1)] reader_moved_fields(10) [OF s2(1)]
  have ini: "assert_init s = s" using t by (simp add: inotify_table_def)
  have raw: "next_events os fuel timeout num_events s =
      map_option (\<lambda>(ok, s). (if ok then Some (current_event s) else None, s))
        (next_events_loop os fuel timeout num_events s)"
    using num ini by (cases "next_events_loop os fuel timeout num_events s")
      (auto simp: next_events_def next_events_raw_def niceassert_def)
  show ?thesis
  proof (cases pre)
    case Nil
    with evs xs have eq: "x = e" "xs = es" by auto
    have t2: "inotify_table s2" using s1(5) same by simp
    note c = counted_reader [OF t2]
    have "next_events_loop os fuel timeout num_events s = Some (True, counted e s2)"
      using step s2(4) evs(3) by (simp add: f eq)
    with c s2(2,3) same s1 show ?thesis by (simp add: raw eq)
  next
    case (Cons p ps)
    with evs xs have eq: "x = p" "xs = ps @ e # es" by auto
    have skip: "next_event_step os (Suc f) timeout num_events s = Some (Again, s2)"
      using step s2(4) evs(2) Cons by (simp add: eq)
    have "\<exists>s3. reader_moved s2 s3 \<and> pending s3 es \<and> current_event s3 = e \<and>
        next_events_loop os f timeout num_events s2 = Some (True, counted e s3)"
      using s2(2) v evs xs Cons eq fuel f s1(5-7) by (intro loop_pending) (auto simp: same)
    then obtain s3 where s3: "reader_moved s2 s3" "pending s3 es" "current_event s3 = e"
      "next_events_loop os f timeout num_events s2 = Some (True, counted e s3)" by blast
    note same3 = reader_moved_same [OF s3(1)] reader_moved_fields(10) [OF s3(1)]
    have t3: "inotify_table s3" using s1(5) same same3 by simp
    note c = counted_reader [OF t3]
    have "next_events_loop os fuel timeout num_events s = Some (True, counted e s3)"
      using skip s3(4) by (simp add: f)
    with c s3(2,3) same same3 s1 show ?thesis by (simp add: raw)
  qed
qed

definition batch_os :: "'w os" where
  "batch_os = quiet_os\<lparr>os_ppoll := (\<lambda>_ _ w. ((1, 0), w)), os_fionread := (\<lambda>_ w. ((0, 0, 48), w)),
     os_read := (\<lambda>_ _ w. ((48, 0, encode_events two_events), w))\<rparr>"

theorem read_batch_delivered_witness:
  "\<exists>s'. next_events batch_os 2 (-1) 1 (one_watch ''/d/'') = Some (Some (hd two_events), s') \<and>
     pending s' (tl two_events)"
proof -
  let ?s = "one_watch ''/d/''"
  note o = one_watch_facts [of "''/d/''"]
  have t: "inotify_table ?s"
    using o one_watch_evstr [of "''/d/''"]
    by (simp add: inotify_table_def) (simp add: one_watch_def register_def Let_def)
  have r: "regex ?s = None" "first_byte ?s = 0" by (simp_all add: one_watch_def register_def Let_def)
  have v: "\<forall>x\<in>set two_events. valid_event x" by (simp add: two_events_def valid_event_def)
  then have len: "length (encode_events two_events) = 48"
    by (simp add: two_events_def length_encode_event EVENT_SIZE_def)
  have split: "two_events = [] @ hd two_events # tl two_events" by (simp add: two_events_def)
  have wd: "wd_path ?s 3 = ''/d/''"
    by (simp add: wd_path_def watch_from_wd_def bt_get_def o cstring_def)
  have "\<forall>x\<in>set two_events. length (event_text ?s x) < MAX_STRLEN"
    by (simp add: two_events_def event_text_def wd MAX_STRLEN_def)
  moreover have "passes batch_os ?s (hd two_events)" by (simp add: passes_def r)
  moreover have "length two_events \<le> 2" by (simp add: two_events_def)
  ultimately have "\<exists>s'. next_events batch_os 2 (-1) 1 ?s = Some (Some (hd two_events), s') \<and>
      pending s' (tl two_events) \<and> inotify_table s' \<and> passes batch_os s' = passes batch_os ?s \<and>
      event_text s' = event_text ?s \<and> world s' = ()"
    by (intro read_batch_delivered [OF t r(2) split, where rc = 1 and err = 0 and err' = 0
          and err'' = 0 and n = 48 and ?w1.0 = "()" and ?w2.0 = "()"])
      (use v len in \<open>simp_all add: batch_os_def size_defs\<close>)
  then show ?thesis by blast
qed

text \<open>The outcome of waiting: the \<open>errno\<close> of the call that failed, or 0 for a timeout or the end of the file.\<close>

definition wait_error :: "int \<Rightarrow> int \<Rightarrow> int \<Rightarrow> int \<Rightarrow> int \<Rightarrow> int \<Rightarrow> int" where
  "wait_error polled poll_errno asked ask_errno got read_errno =
     (if polled < 0 then poll_errno else if polled = 0 then 0 else if asked = -1 then ask_errno
      else if got < 0 then read_errno else 0)"

lemma wait_without_event:
  assumes ini: "initialized s" and empty: "first_byte s = 0"
    and num: "1 \<le> num_events" "num_events \<le> int MAX_EVENTS"
    and poll: "os_ppoll os (fd s) timeout (world s) = ((rc, err), w1)"
    and avail: "os_fionread os (fd s) w1 = ((rc', err', n), w2)" "rc' \<noteq> 0 \<or> int EVENT_SIZE * num_events \<le> int (unat n)"
    and read: "os_read os (fd s) (MAX_EVENTS * EVENT_SIZE) w2 = ((got, err'', data), w3)"
    and none: "rc \<le> 0 \<or> rc' = -1 \<or> got \<le> 0" and fuel: "0 < fuel"
  shows "\<exists>s' msg. next_events os fuel timeout num_events s = Some (None, s') \<and>
    error s' = wait_error rc err rc' err' got err'' \<and> fed s (s'\<lparr>c_stderr := c_stderr s\<rparr>) \<and>
    evbuf s' = evbuf s \<and> first_byte s' = 0 \<and>
    world s' = (if rc \<le> 0 then w1 else if rc' = -1 then w2 else w3) \<and>
    c_stderr s' = c_stderr s @ msg \<and> (msg \<noteq> [] \<longleftrightarrow> 0 < rc \<and> rc' \<noteq> -1 \<and> got = 0)"
proof -
  obtain f where f: "fuel = Suc f" using fuel by (cases fuel) auto
  let ?s0 = "(set_error 0 s)\<lparr>bytes := 0\<rparr>"
  have tb: "take_buffered (set_error 0 s) = Some (Must_read, ?s0)"
    using empty by (simp add: take_buffered_def set_error_def)
  let ?P = "\<lambda>s' msg. error s' = wait_error rc err rc' err' got err'' \<and> fed s (s'\<lparr>c_stderr := c_stderr s\<rparr>) \<and>
    evbuf s' = evbuf s \<and> first_byte s' = 0 \<and> world s' = (if rc \<le> 0 then w1 else if rc' = -1 then w2 else w3) \<and>
    c_stderr s' = c_stderr s @ msg \<and> (msg \<noteq> [] \<longleftrightarrow> 0 < rc \<and> rc' \<noteq> -1 \<and> got = 0)"
  have "\<exists>s' msg. read_more os (Suc f) timeout num_events ?s0 = Some (False, s') \<and> ?P s' msg"
    using poll avail read none empty
    by (auto simp: read_more_def sys_def set_error_def size_defs mult.commute ceprint_def wait_error_def fed_def)
  then obtain s' msg where s': "read_more os (Suc f) timeout num_events ?s0 = Some (False, s')" "?P s' msg" by blast
  then have "next_events os fuel timeout num_events s = Some (None, s')"
    using tb num ini by (simp add: next_events_def next_events_raw_def niceassert_def f
        next_event_step_def)
  with s'(2) show ?thesis by blast
qed

text \<open>C27.
  Without an event the call says why: when no event is in the buffer and polling fails or times out,
  or asking for the number of bytes fails, or the read fails or finds the end of the file, the call
  returns no event, with \<open>error\<close> set to the \<open>errno\<close> of the call that failed, and to 0 for a timeout
  and at the end of the file, of which a message tells. Apart from the reader's own fields nothing
  of the library has changed: the watches, their counters and the buffer are as before.\<close>

theorem no_event_reported:
  assumes ini: "initialized s" and empty: "first_byte s = 0"
    and num: "1 \<le> num_events" "num_events \<le> int MAX_EVENTS"
    and poll: "os_ppoll os (fd s) timeout (world s) = ((rc, err), w1)"
    and avail: "os_fionread os (fd s) w1 = ((rc', err', n), w2)" "rc' \<noteq> 0 \<or> int EVENT_SIZE * num_events \<le> int (unat n)"
    and read: "os_read os (fd s) (MAX_EVENTS * EVENT_SIZE) w2 = ((got, err'', data), w3)"
    and none: "rc \<le> 0 \<or> rc' = -1 \<or> got \<le> 0" and fuel: "0 < fuel"
  shows "\<exists>s' msg. next_events os fuel timeout num_events s = Some (None, s') \<and>
    error s' = wait_error rc err rc' err' got err'' \<and> fed s (s'\<lparr>c_stderr := c_stderr s\<rparr>) \<and>
    evbuf s' = evbuf s \<and> first_byte s' = 0 \<and>
    world s' = (if rc \<le> 0 then w1 else if rc' = -1 then w2 else w3) \<and>
    c_stderr s' = c_stderr s @ msg \<and> (msg \<noteq> [] \<longleftrightarrow> 0 < rc \<and> rc' \<noteq> -1 \<and> got = 0)"
  by (rule wait_without_event [OF assms])

theorem no_event_reported_witness:
  "\<exists>s'. next_events (quiet_os\<lparr>os_ppoll := (\<lambda>_ _ w. ((1, 0), w)), os_fionread := (\<lambda>_ w. ((-1, 9, 0), w))\<rparr>) 1 5 1
     (one_watch ''/d/'') = Some (None, s') \<and> error s' = 9"
proof -
  let ?os = "quiet_os\<lparr>os_ppoll := (\<lambda>_ _ w. ((1, 0), w)), os_fionread := (\<lambda>_ w. ((-1, 9, 0), w))\<rparr>"
  have "first_byte (one_watch ''/d/'') = 0" by (simp add: one_watch_def register_def Let_def)
  from no_event_reported [OF one_watch_facts(2) this, where os = ?os
      and num_events = 1 and timeout = 5 and rc = 1 and err = 0 and rc' = "-1" and err' = 9 and n = 0 and got = 0
      and err'' = 0 and data = "[]" and fuel = 1 and ?w1.0 = "()" and ?w2.0 = "()" and ?w3.0 = "()"]
  show ?thesis
    by (simp add: quiet_os_def size_defs wait_error_def) blast
qed

subsection \<open>Fanotify events\<close>

text \<open>
  A fanotify event as the kernel writes it: the length, four bytes the library does not look at,
  the mask (of which the low word is used), a descriptor, the process, and the record with the
  fid.
\<close>

definition encode_fan :: "u8 list \<Rightarrow> u32 \<Rightarrow> u32 \<Rightarrow> u8 list \<Rightarrow> u32 \<Rightarrow> fid \<Rightarrow> u8 list" where
  "encode_fan vers m_lo m_hi fdb pid f =
     word_bytes (of_nat (META_LEN + length f)) @ vers @ word_bytes m_lo @ word_bytes m_hi @ fdb @
     word_bytes pid @ f"

lemma fan_fields:
  assumes "bytes_at s off (encode_fan vers m_lo m_hi fdb pid f)" and "length vers = 4" and "length fdb = 4"
  shows "rd_u32 s off = of_nat (META_LEN + length f)" "rd_u32 s (off + 8) = m_lo"
    "rd_u32 s (off + 20) = pid" "bytes_at s (off + 24) f"
  using assms by (auto simp: encode_fan_def bytes_at_append rd_u32_word add.assoc)

lemma bytes_at_wr_other:
  assumes "off + length bs \<le> k \<or> k + length xs \<le> off"
  shows "bytes_at (wr_bytes off bs s) k xs = bytes_at s k xs"
proof -
  have "evbuf (wr_bytes off bs s) (k + i) = evbuf s (k + i)" if "i < length xs" for i
    using assms that by (auto simp: wr_bytes_def)
  then show ?thesis by (simp add: bytes_at_def)
qed

lemma wr_u32_word: "wr_u32 off v s = wr_bytes off (word_bytes v) s"
proof -
  have "[0..<4] = [0, 1, 2, 3 :: nat]" by (simp add: upt_rec)
  then show ?thesis by (simp add: wr_u32_def word_bytes_def)
qed

lemma rd_byte_wr_other:
  "i < EVBUF_LEN \<Longrightarrow> i < off \<or> off + length bs \<le> i \<Longrightarrow> rd_byte (wr_bytes off bs s) i = rd_byte s i"
  by (auto simp: evbuf_small) (auto simp: wr_bytes_def)

lemma rd_u32_wr_other:
  assumes "k + 4 \<le> EVBUF_LEN" and "off + length bs \<le> k \<or> k + 4 \<le> off"
  shows "rd_u32 (wr_bytes off bs s) k = rd_u32 s k"
proof -
  have "rd_byte (wr_bytes off bs s) (k + i) = rd_byte s (k + i)" if "i < 4" for i
    using assms that by (intro rd_byte_wr_other) auto
  from this [of 0] this [of 1] this [of 2] this [of 3] show ?thesis
    by (simp add: rd_u32_def)
qed

lemma rd_u32_wr: "off + 4 \<le> EVBUF_LEN \<Longrightarrow> rd_u32 (wr_bytes off (word_bytes v) s) off = v"
  by (intro rd_u32_word bytes_at_wr) simp

lemma fid_get_slice:
  assumes "bytes_at s off f" and "i < length f"
  shows "fid_get (buf_slice s off EVBUF_LEN) i = fid_get f i" and "rd_byte s (off + i) = fid_get f i"
proof -
  have "off + i < EVBUF_LEN" "evbuf s (off + i) = f ! i" using assms by (auto simp: bytes_at_def)
  with assms(2) show "fid_get (buf_slice s off EVBUF_LEN) i = fid_get f i" "rd_byte s (off + i) = fid_get f i"
    by (auto simp: fid_get_def buf_slice_def evbuf_small)
qed

lemma unat_of_nat_small: "k < 4294967296 \<Longrightarrow> unat (of_nat k :: u32) = k"
  by (simp add: unat_of_nat)

lemma fan_record_named:
  assumes f: "names_entry f name" "name \<noteq> ''.''" and at: "bytes_at s info f"
    and small: "info + length f \<le> 65536"
  shows "fan_record info (of_nat (META_LEN + length f)) s =
    Some (\<lparr>fi_fid_off = Some info, fi_name_off = Some (info + fid_name_off f),
      fi_fid_len = int (fid_name_off f), fi_name_len = fid_name_len f\<rparr>, s)"
    and "hdr_len (buf_slice s info EVBUF_LEN) = hdr_len f"
proof -
  note n = names_entry_name_len [OF f(1)]
  let ?rec = "buf_slice s info EVBUF_LEN"
  have off: "fid_name_off f + length name < length f" "20 \<le> fid_name_off f"
    using n(1,2) by linarith (simp add: fid_name_off_def FID_HDR_def)
  have g: "fid_get ?rec i = fid_get f i" "rd_byte s (info + i) = fid_get f i" if "i < length f" for i
    using fid_get_slice [OF at that] by simp_all
  have hb: "handle_bytes ?rec = handle_bytes f"
    using off by (simp add: handle_bytes_def g)
  show hl: "hdr_len ?rec = hdr_len f"
    using off by (simp add: hdr_len_def g)
  have "0 < length f" using off(1) by linarith
  from g(2) [OF this] have t: "rd_byte s info = FAN_EVENT_INFO_TYPE_DFID_NAME"
    using f(1) by (simp add: names_entry_def info_type_def)
  have len: "META_LEN < unat (of_nat (META_LEN + length f) :: u32)"
  proof -
    have "META_LEN + length f < 4294967296" using small by (simp add: META_LEN_def)
    then show ?thesis using off(1) by (simp only: unat_of_nat_small)
  qed
  have hdr: "int (unat (hdr_len f)) = int (length f)" using f(1) by (simp add: names_entry_def)
  have w: "wrap32 (int (fid_name_off f)) = int (fid_name_off f)"
    "wrap32 (int (length f) - int (fid_name_off f)) = fid_name_len f"
    using small off n(1) by (auto intro!: wrap32_id)
  have ch: "fid_get f (fid_name_off f + i) = char_byte ((name @ [NUL]) ! i)" if "i \<le> length name" for i
    using n(3) [OF that] by (metis char_byte_byte_char)
  have ne: "name \<noteq> []" using f(1) by (simp add: names_entry_def)
  then have "1 \<le> length name" by (cases name) auto
  then have in_f: "fid_name_off f < length f" "fid_name_off f + 1 < length f" using off by linarith+
  have n0: "rd_byte s (info + fid_name_off f) = char_byte (name ! 0)"
    "rd_byte s (info + fid_name_off f + 1) = char_byte ((name @ [NUL]) ! 1)"
    using g(2) [OF in_f(1)] g(2) [OF in_f(2)] ch [of 0] ch [OF \<open>1 \<le> length name\<close>] ne
    by (simp_all add: add.assoc nth_append)
  obtain c cs where name: "name = c # cs" "c \<noteq> NUL" using f(1) by (cases name) (auto simp: names_entry_def)
  have cs: "cs \<noteq> []" if "c = CHR ''.''" using that name f(2) by auto
  have nn: "NUL \<notin> set cs" using f(1) name by (auto simp: names_entry_def)
  have not_dot: "\<not> (char_byte (name ! 0) = 0 \<or>
      char_byte (name ! 0) = char_byte (CHR ''.'') \<and> char_byte ((name @ [NUL]) ! 1) = 0)"
  proof -
    have "c = CHR ''.''" if "char_byte c = char_byte (CHR ''.'')"
      using that by (metis byte_char_char_byte)
    with cs name nn show ?thesis by (cases cs) auto
  qed
  have pos: "0 < fid_name_len f" using n(2) by simp
  have min: "min info EVBUF_LEN = info" using small by (simp add: EVBUF_LEN_def size_defs)
  have k: "info + FID_HDR + unat (handle_bytes f) = info + fid_name_off f"
    "int (FID_HDR + unat (handle_bytes f)) = int (fid_name_off f)"
    by (simp_all add: fid_name_off_def)
  show "fan_record info (of_nat (META_LEN + length f)) s =
    Some (\<lparr>fi_fid_off = Some info, fi_name_off = Some (info + fid_name_off f),
      fi_fid_len = int (fid_name_off f), fi_name_len = fid_name_len f\<rparr>, s)"
    using not_dot
    by (simp only: fan_record_def t min hb hl hdr k w n0 pos len Let_def option.case if_True if_False
        simp_thms)
qed

lemma copy_bytes:
  "bytes_at s src xs \<Longrightarrow> src + length xs \<le> lim \<Longrightarrow>
     map (\<lambda>i. if src + i < lim then evbuf s (src + i) else 0) [0..<length xs] = xs"
  by (rule nth_equalityI) (auto simp: bytes_at_def)

text \<open>
  Reading a fanotify event writes its inotify form into the second half of the buffer: the bytes
  that were read, in the first half, stay, and so does everything else but the position and, when
  verbose, the output.
\<close>

definition fan_moved :: "'w machine \<Rightarrow> 'w machine \<Rightarrow> bool" where
  "fan_moved s s' \<longleftrightarrow>
     s'\<lparr>error := error s, ret_off := ret_off s, first_byte := first_byte s, bytes := bytes s,
       this_bytes := this_bytes s, evbuf := evbuf s, c_stdout := c_stdout s\<rparr> = s \<and>
     (\<forall>i<65536. evbuf s' i = evbuf s i) \<and> rd_u32 s' 65544 = rd_u32 s 65544"

lemma wr_bytes_evbuf: "(wr_bytes off bs s)\<lparr>evbuf := x\<rparr> = s\<lparr>evbuf := x\<rparr>"
  by (simp add: wr_bytes_def)

lemma fan_store_named:
  assumes at: "bytes_at s src xs" and xs: "takeWhile (\<lambda>c. c \<noteq> 0) xs = map char_byte name" "xs \<noteq> []"
    and src: "src + length xs \<le> 65536" "meta + 24 \<le> src" and ret: "ret_off s = 65536"
    and wd: "- (2 ^ 31) \<le> wd" "wd < 2 ^ 31"
  shows "\<exists>s'. fan_store meta wd (Some src) (int (length xs)) s = Some s' \<and>
    current_event s' = \<lparr>ev_wd = wd, ev_mask = rd_u32 s (meta + 8),
      ev_cookie = rd_u32 s 65544, ev_len = of_nat (length xs), ev_name = name\<rparr> \<and>
    rd_u32 s' (meta + 20) = rd_u32 s (meta + 20) \<and> first_byte s' = first_byte s \<and> fan_moved s s' \<and>
    bytes s' = bytes s \<and> this_bytes s' = this_bytes s"
proof -
  let ?m = "rd_u32 s (meta + 8)"
  let ?s1 = "wr_bytes 65536 (word_bytes (word_of_int wd)) s"
  let ?s2 = "wr_bytes (65536 + 4) (word_bytes ?m) ?s1"
  let ?s3 = "wr_bytes (65536 + 12) (word_bytes (word_of_int (int (length xs)))) ?s2"
  let ?s4 = "wr_bytes (65536 + 16) xs ?s3"
  have E: "EVBUF_LEN = 131072" by (simp add: EVBUF_LEN_def size_defs)
  have "bytes_at ?s3 src xs"
    using at src by (simp add: bytes_at_wr_other)
  then have copy: "map (\<lambda>i. if src + i < 65536 then evbuf ?s3 (src + i) else 0) [0..<length xs] = xs"
    using src(1) by (rule copy_bytes)
  have n: "min (nat (int (length xs))) (65536 - EVENT_SIZE) = length xs"
    using src by (simp add: EVENT_SIZE_def)
  have ev: "MAX_EVENTS * EVENT_SIZE = 65536" "65536 + EVENT_SIZE = 65536 + 16" by (simp_all add: size_defs)
  have cond: "meta + 8 \<le> meta + 16 \<and> meta + 16 \<le> 131072" "0 < int (length xs)"
    using src xs(2) by simp_all
  have md: "(meta + 8) mod 2 ^ 64 = meta + 8" "(meta + 16) mod 2 ^ 64 = meta + 16"
    using src by simp_all
  have store: "fan_store meta wd (Some src) (int (length xs)) s = Some ?s4"
    by (simp only: fan_store_def md wr_u32_word ev n ret Let_def E wr_bytes_fields cond copy
        bind.bind_lunit simp_thms if_True)
  note o = rd_u32_wr_other E
  have rd: "rd_u32 ?s4 65536 = word_of_int wd" "rd_u32 ?s4 65540 = ?m"
    "rd_u32 ?s4 65548 = of_nat (length xs)" "rd_u32 ?s4 65544 = rd_u32 s 65544"
    "rd_u32 ?s4 (meta + 20) = rd_u32 s (meta + 20)"
    using src by (simp_all add: o rd_u32_wr)
  have ulen: "unat (of_nat (length xs) :: u32) = length xs"
    using src by (intro unat_of_nat_small) simp
  have "bytes_at ?s4 (65536 + 16) xs" using src by (intro bytes_at_wr) (simp add: E)
  then have "buf_slice ?s4 (65536 + 16) (65536 + 16 + length xs) = xs" by (rule buf_slice_at)
  moreover have "(of_nat (length xs) :: u32) \<noteq> 0" using ulen xs(2) by (metis length_0_conv unat_0)
  ultimately have "current_event ?s4 = \<lparr>ev_wd = wd, ev_mask = ?m, ev_cookie = rd_u32 s 65544,
      ev_len = of_nat (length xs), ev_name = name\<rparr>"
    using rd wd src ulen E ret xs(1)
    by (simp add: current_event_def EVENT_SIZE_def Let_def sint_of_int_32 word_neq_0_conv comp_def)
  moreover have "fan_moved s ?s4"
  proof -
    have "?s4\<lparr>error := error s, ret_off := ret_off s, first_byte := first_byte s, bytes := bytes s,
       this_bytes := this_bytes s, evbuf := evbuf s, c_stdout := c_stdout s\<rparr> = s" by (simp add: wr_bytes_def)
    moreover have "evbuf ?s4 i = evbuf s i" if "i < 65536" for i using that by (simp add: wr_bytes_def)
    ultimately show ?thesis using rd(4) by (simp add: fan_moved_def)
  qed
  ultimately show ?thesis using store rd by simp
qed

lemma fan_moved_trans:
  assumes "fan_moved s t" and "fan_moved t u"
  shows "fan_moved s u"
proof -
  from assms(2) have u: "u\<lparr>error := error t, ret_off := ret_off t, first_byte := first_byte t, bytes := bytes t,
       this_bytes := this_bytes t, evbuf := evbuf t, c_stdout := c_stdout t\<rparr> = t" by (simp add: fan_moved_def)
  from assms(1) have "t\<lparr>error := error s, ret_off := ret_off s, first_byte := first_byte s, bytes := bytes s,
       this_bytes := this_bytes s, evbuf := evbuf s, c_stdout := c_stdout s\<rparr> = s" by (simp add: fan_moved_def)
  then have "u\<lparr>error := error s, ret_off := ret_off s, first_byte := first_byte s, bytes := bytes s,
       this_bytes := this_bytes s, evbuf := evbuf s, c_stdout := c_stdout s\<rparr> = s"
    by (subst (asm) u [symmetric]) simp
  with assms show ?thesis by (simp add: fan_moved_def)
qed

lemma fan_moved_fields:
  assumes "fan_moved s t"
  shows "watches t = watches s" "by_wd t = by_wd s" "by_fid t = by_fid s" "by_filename t = by_filename s"
    "next_id t = next_id s" "next_fanotify_wd t = next_fanotify_wd s" "initialized t = initialized s"
    "fanotify_mode t = fanotify_mode s" "regex t = regex s" "self_pid t = self_pid s"
    "collect_stats t = collect_stats s" "totals t = totals s" "world t = world s" "fd t = fd s"
proof -
  have eq: "t\<lparr>error := error s, ret_off := ret_off s, first_byte := first_byte s, bytes := bytes s,
       this_bytes := this_bytes s, evbuf := evbuf s, c_stdout := c_stdout s\<rparr> = s"
    using assms by (simp add: fan_moved_def)
  show "watches t = watches s" using arg_cong [OF eq, of watches] by simp
  show "by_wd t = by_wd s" using arg_cong [OF eq, of by_wd] by simp
  show "by_fid t = by_fid s" using arg_cong [OF eq, of by_fid] by simp
  show "by_filename t = by_filename s" using arg_cong [OF eq, of by_filename] by simp
  show "next_id t = next_id s" using arg_cong [OF eq, of next_id] by simp
  show "next_fanotify_wd t = next_fanotify_wd s" using arg_cong [OF eq, of next_fanotify_wd] by simp
  show "initialized t = initialized s" using arg_cong [OF eq, of initialized] by simp
  show "fanotify_mode t = fanotify_mode s" using arg_cong [OF eq, of fanotify_mode] by simp
  show "regex t = regex s" using arg_cong [OF eq, of regex] by simp
  show "self_pid t = self_pid s" using arg_cong [OF eq, of self_pid] by simp
  show "collect_stats t = collect_stats s" using arg_cong [OF eq, of collect_stats] by simp
  show "totals t = totals s" using arg_cong [OF eq, of totals] by simp
  show "world t = world s" using arg_cong [OF eq, of world] by simp
  show "fd t = fd s" using arg_cong [OF eq, of fd] by simp
qed

text \<open>
  A fanotify event about a named entry becomes the inotify event of the descriptor that \<open>fan_watch\<close>
  finds or makes up: that descriptor, the mask, and the name, with the padding of the record as the
  event's length; the reader has stepped over the record, and the process of the event is reported.
\<close>

definition same_buffer :: "'w machine \<Rightarrow> 'w machine \<Rightarrow> bool" where
  "same_buffer s t \<longleftrightarrow> evbuf t = evbuf s \<and> ret_off t = ret_off s \<and> first_byte t = first_byte s \<and>
     bytes t = bytes s \<and> this_bytes t = this_bytes s"

lemma convert_entry:
  assumes f: "names_entry f name" "name \<noteq> ''.''"
    and at: "bytes_at s (ret_off s) (encode_fan vers m_lo m_hi fdb pid f)" "length vers = 4" "length fdb = 4"
    and small: "ret_off s + 24 + length f \<le> MAX_EVENTS * EVENT_SIZE"
    and w: "\<And>nm t. fan_moved s t \<Longrightarrow> \<exists>wd u. fan_watch os (ret_off s + 24) nm f t = Some (Some (Some wd), u) \<and>
      R t wd u \<and> same_buffer t u \<and> - (2 ^ 31) \<le> wd \<and> wd < 2 ^ 31"
  shows "\<exists>t wd u s'. convert_fanotify_event os s = Some ((True, sint pid), s') \<and>
    current_event s' = \<lparr>ev_wd = wd, ev_mask = m_lo,
      ev_cookie = rd_u32 s (MAX_EVENTS * EVENT_SIZE + 8),
      ev_len = of_nat (length f - fid_name_off f), ev_name = name\<rparr> \<and>
    first_byte s' = wrap32 (first_byte s + int (META_LEN + length f)) \<and>
    fan_moved s t \<and> R t wd u \<and> fan_moved u s' \<and> bytes s' = bytes s \<and> this_bytes s' = this_bytes s"
proof -
  let ?info = "ret_off s + 24"
  have E: "EVBUF_LEN = 131072" "MAX_EVENTS * EVENT_SIZE = 65536" by (simp_all add: EVBUF_LEN_def size_defs)
  note n = names_entry_name_len [OF f(1)]
  note ff = fan_fields [OF at]
  from f(1) obtain pad where pad: "drop (fid_name_off f) f = map char_byte name @ 0 # pad"
    by (auto simp: names_entry_def)
  let ?xs = "drop (fid_name_off f) f"
  have off: "fid_name_off f \<le> length f" "20 \<le> fid_name_off f"
    using n(1,2) by linarith (simp add: fid_name_off_def FID_HDR_def)
  have info: "(ret_off s + META_LEN) mod 2 ^ 64 = ?info" using small E by (simp add: META_LEN_def)
  have len32: "sint (of_nat (META_LEN + length f) :: u32) = int (META_LEN + length f)"
  proof -
    have "unat (of_nat (META_LEN + length f) :: u32) = META_LEN + length f"
      using small E by (intro unat_of_nat_small) (simp add: META_LEN_def)
    moreover have "META_LEN + length f < 2147483648" using small E by (simp add: META_LEN_def)
    ultimately show ?thesis by (metis sint_small)
  qed
  let ?s1 = "s\<lparr>first_byte := wrap32 (first_byte s + int (META_LEN + length f))\<rparr>"
  have at1: "bytes_at ?s1 ?info f" using ff(4) by (simp add: bytes_at_def)
  have sm: "?info + length f \<le> 65536" using small E by simp
  note rec = fan_record_named [OF f at1 sm]
  let ?fi = "\<lparr>fi_fid_off = Some ?info, fi_name_off = Some (?info + fid_name_off f),
      fi_fid_len = int (fid_name_off f), fi_name_len = fid_name_len f\<rparr>"
  let ?nm = "map byte_char (takeWhile (\<lambda>c. c \<noteq> 0)
      (buf_slice ?s1 (min (?info + fid_name_off f) EVBUF_LEN) EVBUF_LEN))"
  define s2 where "s2 = (fan_trace ?fi (of_nat (META_LEN + length f)) ?nm ?s1)
      \<lparr>ret_off := MAX_EVENTS * EVENT_SIZE\<rparr>"
  have s2: "evbuf s2 = evbuf s" "watches s2 = watches s" "by_fid s2 = by_fid s" "by_wd s2 = by_wd s"
    "world s2 = world s" "first_byte s2 = first_byte ?s1" "ret_off s2 = 65536"
    "bytes s2 = bytes s" "this_bytes s2 = this_bytes s"
    by (simp_all add: s2_def fan_trace_def cprint_def E)
  have buf: "buf_slice s2 = buf_slice s" "rd_u32 s2 = rd_u32 s"
    by (intro ext, simp only: buf_slice_def s2) (rule ext, simp only: rd_u32_def rd_byte_def s2)
  have at2: "bytes_at s2 ?info f" using ff(4) by (simp add: bytes_at_def s2)
  have hl: "unat (hdr_len (buf_slice s2 ?info EVBUF_LEN)) = length f"
    using fid_get_slice(1) [OF at2] fan_record_named(2) [OF f at2 sm] f(1) by (simp add: names_entry_def)
  have slice: "buf_slice s2 ?info (?info + length f) = f" by (rule buf_slice_at [OF at2])
  have moved: "fan_moved s s2"
  proof -
    have "s2\<lparr>error := error s, ret_off := ret_off s, first_byte := first_byte s, bytes := bytes s,
       this_bytes := this_bytes s, evbuf := evbuf s, c_stdout := c_stdout s\<rparr> = s"
      by (simp add: s2_def fan_trace_def cprint_def)
    then show ?thesis by (simp add: fan_moved_def s2 buf)
  qed
  from w [OF moved] obtain wd u where u: "fan_watch os ?info ?nm f s2 = Some (Some (Some wd), u)" "R s2 wd u"
    "same_buffer s2 u" "- (2 ^ 31) \<le> wd" "wd < 2 ^ 31"
    by blast
  have su: "evbuf u = evbuf s" "ret_off u = 65536" "first_byte u = first_byte ?s1" "bytes u = bytes s"
    "this_bytes u = this_bytes s"
    using u(3) by (simp_all add: same_buffer_def s2)
  have rdu: "rd_u32 u = rd_u32 s" by (rule ext, simp only: rd_u32_def rd_byte_def su)
  have at4: "bytes_at u ?info f" using ff(4) by (simp add: bytes_at_def su)
  have "f = take (fid_name_off f) f @ ?xs" by simp
  with at4 off have at3: "bytes_at u (?info + fid_name_off f) ?xs"
    by (metis bytes_at_append length_take min.absorb2)
  have xs: "takeWhile (\<lambda>c. c \<noteq> 0) ?xs = map char_byte name" "?xs \<noteq> []"
    unfolding pad using f(1) by (subst takeWhile_append2, auto simp: names_entry_def)
  have "\<exists>s'. fan_store (ret_off s) wd (Some (?info + fid_name_off f)) (int (length ?xs)) u = Some s' \<and>
    current_event s' = \<lparr>ev_wd = wd, ev_mask = rd_u32 u (ret_off s + 8),
      ev_cookie = rd_u32 u 65544, ev_len = of_nat (length ?xs), ev_name = name\<rparr> \<and>
    rd_u32 s' (ret_off s + 20) = rd_u32 u (ret_off s + 20) \<and> first_byte s' = first_byte u \<and> fan_moved u s' \<and>
    bytes s' = bytes u \<and> this_bytes s' = this_bytes u"
    using sm off by (intro fan_store_named [OF at3 xs _ _ su(2) u(4,5)]) simp_all
  then obtain s' where s': "fan_store (ret_off s) wd (Some (?info + fid_name_off f)) (int (length ?xs)) u = Some s'"
    "current_event s' = \<lparr>ev_wd = wd, ev_mask = m_lo, ev_cookie = rd_u32 s 65544,
       ev_len = of_nat (length ?xs), ev_name = name\<rparr>" "rd_u32 s' (ret_off s + 20) = pid"
    "first_byte s' = first_byte ?s1" "fan_moved u s'" "bytes s' = bytes s" "this_bytes s' = this_bytes s"
    using ff(2,3) by (auto simp: rdu su)
  have nlen: "fid_name_len f = int (length ?xs)" using n(1) off by simp
  then have store: "fan_store (ret_off s) wd (Some (?info + fid_name_off f)) (fid_name_len f) u = Some s'"
    using s'(1) by simp
  have stop: "min (?info + length f) (MAX_EVENTS * EVENT_SIZE) = ?info + length f" using small by simp
  have "convert_fanotify_event os s = Some ((True, sint pid), s')"
    by (simp only: convert_fanotify_event_def Let_def info ff(1) len32 rec(1) bind.bind_lunit case_prod_conv
        fan_info.simps option.case s2_def [symmetric] hl stop slice u(1) store s'(3) le_add1 if_True)
  then show ?thesis using s' u(2) moved by (auto simp: E)
qed

end
