(* ===== verification/Common.thy ===== *)
theory Common
  imports TreeWalk Reader
begin

text \<open>
  What the two tools share (\<open>src/src/common.rs\<close>): the lists of files to watch and to exclude, the
  options' values, the filters, setting up the watches, and following moves in a watched tree.
  What \<open>getopt_long\<close> makes of the command line is a parameter: the option and argument each call
  returns, and the arguments left.
\<close>

definition BLOCKING_TIMEOUT :: int where "BLOCKING_TIMEOUT = 0"
definition EXIT_SUCCESS :: int where "EXIT_SUCCESS = 0"
definition EXIT_FAILURE :: int where "EXIT_FAILURE = 1"
definition EXIT_TIMEOUT :: int where "EXIT_TIMEOUT = 2"
definition MAXLEN :: nat where "MAXLEN = 4096"

lemmas exit_defs = EXIT_SUCCESS_def EXIT_FAILURE_def EXIT_TIMEOUT_def

abbreviation nl :: string where "nl \<equiv> [CHR 0x0A]"
abbreviation tab :: string where "tab \<equiv> [CHR 0x09]"
abbreviation quote :: string where "quote \<equiv> [CHR 0x27]"

subsection \<open>Files to watch and files to exclude\<close>

record file_list =
  fl_watch :: "string list"
  fl_exclude :: "string list"

definition no_files :: file_list where
  "no_files = \<lparr>fl_watch = [], fl_exclude = []\<rparr>"

definition watch_more :: "string \<Rightarrow> file_list \<Rightarrow> file_list" where
  "watch_more name l = l\<lparr>fl_watch := fl_watch l @ [name]\<rparr>"

definition exclude_more :: "string \<Rightarrow> file_list \<Rightarrow> file_list" where
  "exclude_more name l = l\<lparr>fl_exclude := fl_exclude l @ [name]\<rparr>"

definition file_list_add :: "string \<Rightarrow> file_list \<Rightarrow> file_list" where
  "file_list_add name l =
     (if name = [] \<or> name = ''@'' then l
      else if hd name = CHR ''@'' then exclude_more (tl name) l
      else watch_more name l)"

text \<open>One line of \<open>--fromfile\<close>, as \<open>fgets\<close> returned it.\<close>

definition add_line :: "string \<Rightarrow> file_list \<Rightarrow> file_list" where
  "add_line name l =
     (if name = [] then l
      else let str_len = length name;
               name = (if name ! (str_len - 1) = CHR 0x0A then take (str_len - 1) name else name)
           in if str_len = 1 \<and> name \<noteq> [] \<and> hd name = CHR ''@'' then l
              else if name \<noteq> [] \<and> hd name = CHR ''@'' then exclude_more (tl name) l
              else watch_more name l)"

definition fgets :: "'w os \<Rightarrow> int \<Rightarrow> 'w machine \<Rightarrow> string option \<times> 'w machine" where
  "fgets os f s = (let (r, s) = sys (os_fgets os f MAXLEN) s in (map_option cstring r, s))"

text \<open>Reading to the end of the file; the fuel bounds the number of lines.\<close>

fun read_names :: "'w os \<Rightarrow> nat \<Rightarrow> int \<Rightarrow> file_list \<Rightarrow> 'w machine \<Rightarrow> (file_list \<times> 'w machine) option" where
  "read_names os 0 f l s = None"
| "read_names os (Suc fuel) f l s =
     (let (line, s) = fgets os f s
      in case line of
           None \<Rightarrow> Some (l, s)
         | Some name \<Rightarrow> read_names os fuel f (add_line name l) s)"

text \<open>The stream \<open>stdin\<close>, by the name the model gives it.\<close>

definition c_stdin :: int where "c_stdin = 0"

definition construct_path_list ::
  "'w os \<Rightarrow> nat \<Rightarrow> string list \<Rightarrow> string option \<Rightarrow> 'w machine \<Rightarrow>
     (file_list option \<times> 'w machine) option" where
  "construct_path_list os fuel args fromfile s =
     (case fromfile of
        None \<Rightarrow> Some (Some (fold file_list_add args no_files), s)
      | Some filename \<Rightarrow>
          if filename = ''-''
          then do {
            (l, s) \<leftarrow> read_names os fuel c_stdin no_files s;
            Some (Some (fold file_list_add args l), s)
          }
          else let ((f, e), s) = sys (os_fopen os (cstring filename) ''r'') s
               in case f of
                    None \<Rightarrow> Some (None, ceprint (''Couldn'' @ quote @ ''t open '' @ filename @ '': '' @
                              strerror os e @ nl) s)
                  | Some f \<Rightarrow> do {
                      (l, s) \<leftarrow> read_names os fuel f no_files s;
                      let (r, s) = sys (os_fclose os f) s;
                      Some (Some (fold file_list_add args l), s)
                    })"

subsection \<open>Stages\<close>

text \<open>
  The programs are written in stages; a stage ends the program with an exit code (\<open>Inl\<close>) or goes
  on (\<open>Inr\<close>).
\<close>

definition and_then ::
  "((int + 'a) \<times> 'w machine) option \<Rightarrow> ('a \<Rightarrow> 'w machine \<Rightarrow> ((int + 'b) \<times> 'w machine) option) \<Rightarrow>
     ((int + 'b) \<times> 'w machine) option" where
  "and_then m k =
     (case m of
        None \<Rightarrow> None
      | Some (Inl c, s) \<Rightarrow> Some (Inl c, s)
      | Some (Inr a, s) \<Rightarrow> k a s)"

subsection \<open>Option values\<close>

definition warn_inotify_init_error :: "'w os \<Rightarrow> bool \<Rightarrow> 'w machine \<Rightarrow> 'w machine" where
  "warn_inotify_init_error os fanotify s =
     (let backend = (if fanotify then ''fanotify'' else ''inotify'');
          resource = (if fanotify then ''groups'' else ''instances'');
          err = error s;
          s = ceprint (''Couldn'' @ quote @ ''t initialize '' @ backend @ '': '' @ strerror os err @ nl) s;
          s = (if err = EMFILE
               then ceprint (''Try increasing the value of /proc/sys/fs/'' @ backend @ ''/max_user_'' @
                      resource @ nl) s
               else s);
          s = (if fanotify \<and> err = EINVAL
               then ceprint (''fanotify support for reporting the events with file names was added in kernel v5.9.'' @ nl) s
               else s)
      in if fanotify \<and> err = EPERM
         then ceprint (''fanotify watch requires admin privileges'' @ nl) s else s)"

text \<open>The result is whether the value is valid, and the timeout, which is set even when it is not.\<close>

definition is_timeout_option_valid ::
  "'w os \<Rightarrow> int \<Rightarrow> string option \<Rightarrow> 'w machine \<Rightarrow> (bool \<times> int) \<times> 'w machine" where
  "is_timeout_option_valid os timeout arg s =
     (case arg of
        None \<Rightarrow> ((False, timeout), ceprint (''The provided value is not a valid timeout value.'' @ nl @
                  ''Please specify a long int value.'' @ nl) s)
      | Some a \<Rightarrow>
          if a = []
          then ((False, timeout), ceprint (''The provided value is not a valid timeout value.'' @ nl @
                  ''Please specify a long int value.'' @ nl) s)
          else let (timeout, e, consumed) = os_strtol os a
               in if e \<noteq> 0
                  then ((False, timeout), ceprint (strerror os e @ nl)
                         (ceprint (''Something went wrong with the timeout value you provided.'' @ nl) s))
                  else if consumed \<noteq> length a
                  then ((False, timeout), ceprint (quote @ a @ quote @ '' is not a valid timeout value.'' @ nl @
                         ''Please specify a long int value.'' @ nl) s)
                  else ((True, timeout), s))"

text \<open>POSIX \<open>basename\<close>: the slashes at the end are dropped, except the first character.\<close>

fun trim_end :: "string \<Rightarrow> nat \<Rightarrow> nat" where
  "trim_end path end =
     (if 1 < end \<and> path ! (end - 1) = CHR ''/'' then trim_end path (end - 1) else end)"

declare trim_end.simps [simp del]

definition basename :: "string \<Rightarrow> string" where
  "basename path =
     (if path = [] then ''.''
      else let trimmed = take (trim_end path (length path)) path
           in if trimmed = ''/'' then ''/''
              else case rposition (\<lambda>c. c = CHR ''/'') trimmed of
                     Some i \<Rightarrow> drop (i + 1) trimmed
                   | None \<Rightarrow> trimmed)"

definition invoked_as_fsnotify :: "string option \<Rightarrow> bool" where
  "invoked_as_fsnotify argv0 =
     (case argv0 of None \<Rightarrow> False | Some a \<Rightarrow> starts_with (basename a) ''fsnotify'')"

text \<open>
  \<open>GetOpt\<close>. The parser itself is \<open>getopt_long\<close> of the C library, a parameter: from the argument
  vector (which ends in a null pointer), the short and the long options it yields the results of
  its calls in order, each with the option's argument (\<open>optarg\<close>), and what it leaves: the argument
  vector, which it permutes, and \<open>optind\<close>.
\<close>

type_synonym long_opt = "string \<times> bool \<times> char"

text \<open>\<open>sys::option\<close>; \<open>flag\<close> is always null.\<close>

record sys_option =
  opt_name :: "string option"
  has_arg :: int
  opt_val :: int

definition NO_ARGUMENT :: int where "NO_ARGUMENT = 0"
definition REQUIRED_ARGUMENT :: int where "REQUIRED_ARGUMENT = 1"

record parsed =
  pa_results :: "(int \<times> string option) list"
  pa_argv :: "string option list"
  pa_optind :: int

type_synonym option_parser = "string option list \<Rightarrow> string \<Rightarrow> sys_option list \<Rightarrow> parsed"

record getopt =
  go_argv :: "string option list"
  go_results :: "(int \<times> string option) list"
  go_final_argv :: "string option list"
  go_optind :: int

definition long_options :: "long_opt list \<Rightarrow> sys_option list" where
  "long_options longs =
     map (\<lambda>(name, arg, c). \<lparr>opt_name = Some name,
            has_arg = (if arg then REQUIRED_ARGUMENT else NO_ARGUMENT), opt_val = of_char c\<rparr>) longs
       @ [\<lparr>opt_name = None, has_arg = 0, opt_val = 0\<rparr>]"

definition getopt_new :: "option_parser \<Rightarrow> string list \<Rightarrow> string \<Rightarrow> long_opt list \<Rightarrow> getopt" where
  "getopt_new parser args optstring longs =
     (let argv = map (\<lambda>a. Some (cstring a)) args @ [None];
          r = parser argv optstring (long_options longs)
      in \<lparr>go_argv = argv, go_results = pa_results r, go_final_argv = pa_argv r, go_optind = pa_optind r\<rparr>)"

definition argc :: "getopt \<Rightarrow> int" where
  "argc g = int (length (go_argv g)) - 1"

definition argv0 :: "getopt \<Rightarrow> string option" where
  "argv0 g = hd (go_argv g)"

text \<open>The arguments left after parsing.\<close>

definition remaining :: "getopt \<Rightarrow> string list" where
  "remaining g = map the (drop (nat (max (go_optind g) 0)) (butlast (go_final_argv g)))"

text \<open>A parsed command line to evaluate the model on.\<close>

definition sample_getopt :: "(int \<times> string option) list \<Rightarrow> string list \<Rightarrow> getopt" where
  "sample_getopt results rest =
     \<lparr>go_argv = [Some ''inotifywait'', None], go_results = results,
      go_final_argv = Some ''inotifywait'' # map Some rest @ [None], go_optind = 1\<rparr>"

lemma remaining_sample [simp]:
  "remaining (sample_getopt results rest) = rest" "go_results (sample_getopt results rest) = results"
  by (simp_all add: remaining_def sample_getopt_def butlast_append comp_def)

definition OPT_END :: int where "OPT_END = -1"
definition OPT_ERR :: int where "OPT_ERR = 63"

definition as_c_char :: "int \<Rightarrow> int" where
  "as_c_char r = sint (word_of_int r :: 8 word)"

definition next_opt :: "getopt \<Rightarrow> (int \<times> string option) \<times> getopt" where
  "next_opt g =
     (case go_results g of
        [] \<Rightarrow> ((OPT_END, None), g)
      | (r, arg) # rs \<Rightarrow> ((as_c_char r, arg), g\<lparr>go_results := rs\<rparr>))"

text \<open>The option character, \<open>curr_opt as u8\<close>.\<close>

definition opt_char :: "int \<Rightarrow> char" where
  "opt_char c = char_of (nat (c mod 256))"

definition help_name :: "getopt \<Rightarrow> string" where
  "help_name g =
     (case argv0 g of
        Some a \<Rightarrow> if argc g > 0 then basename a else ''<executable>''
      | None \<Rightarrow> ''<executable>'')"

definition parse_event :: "string option \<Rightarrow> 'w machine \<Rightarrow> u32 option \<times> 'w machine" where
  "parse_event optarg s =
     (let optarg = (case optarg of Some a \<Rightarrow> a | None \<Rightarrow> []);
          event = str_to_event (Some optarg)
      in if event = -1
         then (None, ceprint (quote @ optarg @ quote @ '' is not a valid event!  Run with the '' @ quote @
                ''--help'' @ quote @ '' option to see a list of events.'' @ nl) s)
         else (Some event, s))"

subsection \<open>Filters\<close>

record filters =
  f_exc :: "string option"
  f_exci :: "string option"
  f_inc :: "string option"
  f_inci :: "string option"

definition no_filters :: filters where
  "no_filters = \<lparr>f_exc = None, f_exci = None, f_inc = None, f_inci = None\<rparr>"

definition has_include :: "filters \<Rightarrow> bool" where
  "has_include f \<longleftrightarrow> f_inc f \<noteq> None \<or> f_inci f \<noteq> None"

definition validate :: "filters \<Rightarrow> 'w machine \<Rightarrow> bool \<times> 'w machine" where
  "validate f s =
     (if f_exc f \<noteq> None \<and> f_exci f \<noteq> None
      then (False, ceprint (''--exclude and --excludei cannot both be specified.'' @ nl) s)
      else if f_inc f \<noteq> None \<and> f_inci f \<noteq> None
      then (False, ceprint (''--include and --includei cannot both be specified.'' @ nl) s)
      else if has_include f \<and> (f_exc f \<noteq> None \<or> f_exci f \<noteq> None)
      then (False, ceprint (''include and exclude regexp cannot both be specified.'' @ nl) s)
      else (True, s))"

definition REG_EXTENDED :: int where "REG_EXTENDED = 1"
definition REG_ICASE :: int where "REG_ICASE = 2"

text \<open>The two loops of \<open>install\<close>: the expressions that are given are installed one by one.\<close>

fun install_each ::
  "(string option \<Rightarrow> int \<Rightarrow> 'w machine \<Rightarrow> bool \<times> 'w machine) \<Rightarrow> string \<Rightarrow>
     (string option \<times> int) list \<Rightarrow> 'w machine \<Rightarrow> bool \<times> 'w machine" where
  "install_each ignore msg [] s = (True, s)"
| "install_each ignore msg ((re, flags) # res) s =
     (if re = None then install_each ignore msg res s
      else let (ok, s) = ignore re flags s
           in if \<not> ok then (False, ceprint msg s) else install_each ignore msg res s)"

definition install :: "'w os \<Rightarrow> filters \<Rightarrow> int \<Rightarrow> 'w machine \<Rightarrow> bool \<times> 'w machine" where
  "install os f recursive s =
     (let icase = or_flag REG_EXTENDED REG_ICASE;
          (ok, s) = install_each (\<lambda>re flags. ignore_events_by_regex os re flags recursive)
            (''Error in `exclude'' @ quote @ '' regular expression.'' @ nl)
            [(f_exc f, REG_EXTENDED), (f_exci f, icase)] s
      in if \<not> ok then (False, s)
         else install_each (\<lambda>re flags. ignore_events_by_inverted_regex os re flags recursive)
            (''Error in `include'' @ quote @ '' regular expression.'' @ nl)
            [(f_inc f, REG_EXTENDED), (f_inci f, icase)] s)"

subsection \<open>Setting up the watches\<close>

text \<open>
  The loop over the files: \<open>all\<close> is the whole list, \<open>out\<close> receives error messages, \<open>before\<close> and
  \<open>after\<close> are called around each watch.
\<close>

fun watch_list_loop ::
  "'w os \<Rightarrow> nat \<Rightarrow> file_list \<Rightarrow> u32 \<Rightarrow> bool \<Rightarrow> bool \<Rightarrow> bool \<Rightarrow> string \<Rightarrow>
     (string \<Rightarrow> 'w machine \<Rightarrow> 'w machine) \<Rightarrow> (string \<Rightarrow> 'w machine \<Rightarrow> 'w machine) \<Rightarrow>
     (string \<Rightarrow> 'w machine \<Rightarrow> 'w machine) \<Rightarrow> string list \<Rightarrow> 'w machine \<Rightarrow> (bool \<times> 'w machine) option" where
  "watch_list_loop os fuel l events recursive filesystem fanotify fail_verb out before after [] s =
     Some (True, s)"
| "watch_list_loop os fuel l events recursive filesystem fanotify fail_verb out before after (this_file # fs) s =
     (let backend = (if fanotify then ''fanotify'' else ''inotify'');
          resource = (if fanotify then ''marks'' else ''watches'');
          s = before this_file s
      in if filesystem
         then case watch_files os (fl_watch l) events s of
                None \<Rightarrow> None
              | Some (ok, s) \<Rightarrow>
                  if ok then Some (True, s)
                  else Some (False, out (''Couldn'' @ quote @ ''t add filesystem watch '' @ this_file @ '': '' @
                         strerror os (error s) @ nl) s)
         else case (if recursive
                    then watch_recursively_with_exclude os fuel this_file events (fl_exclude l) s
                    else watch_file os this_file events s) of
                None \<Rightarrow> None
              | Some (ok, s) \<Rightarrow>
                  if ok
                  then watch_list_loop os fuel l events recursive filesystem fanotify fail_verb
                         out before after fs (after this_file s)
                  else Some (False,
                    if error s = ENOSPC
                    then out (''Please increase the amount of '' @ backend @ '' '' @ resource @
                           '' allowed per user via `/proc/sys/fs/'' @ backend @ ''/max_user_'' @ resource @
                           quote @ ''.'' @ nl)
                         (out (''Failed to watch '' @ this_file @ ''; upper limit on '' @ backend @ '' '' @
                           resource @ '' reached!'' @ nl) s)
                    else out (fail_verb @ this_file @ '': '' @ strerror os (error s) @ nl) s))"

definition watch_list where
  "watch_list os fuel l events recursive filesystem fanotify fail_verb out before after s =
     watch_list_loop os fuel l events recursive filesystem fanotify fail_verb out before after
       (fl_watch l) s"

subsection \<open>Following moves\<close>

text \<open>
  \<open>MoveTracker::handle\<close>; the tracker's state, the directory a \<open>MOVED_FROM\<close> announced, is
  threaded. First, a move that was not completed: the directory left the tree.
\<close>

definition drop_moved ::
  "'w os \<Rightarrow> string option \<Rightarrow> event \<Rightarrow> (string \<Rightarrow> 'w machine \<Rightarrow> 'w machine) \<Rightarrow> 'w machine \<Rightarrow>
     (string option \<times> 'w machine) option" where
  "drop_moved os moved_from event out s =
     (case moved_from of
        Some mf \<Rightarrow>
          if ev_mask event AND IN_MOVED_TO = 0
          then do {
            (ok, s) \<leftarrow> remove_watch_by_filename os mf s;
            Some (None, if ok then s
                  else out (''Error removing watch on '' @ mf @ '': '' @ strerror os (error s) @ nl) s)
          }
          else Some (Some mf, s)
      | None \<Rightarrow> Some (None, s))"

text \<open>A new file: if it is a directory, watch it.\<close>

definition watch_new ::
  "'w os \<Rightarrow> nat \<Rightarrow> event \<Rightarrow> u32 \<Rightarrow> bool \<Rightarrow> (string \<Rightarrow> 'w machine \<Rightarrow> 'w machine) \<Rightarrow> 'w machine \<Rightarrow>
     'w machine option" where
  "watch_new os fuel event events announce out s = do {
     (f, s) \<leftarrow> dirpath_from_event os event s;
     case f of
       None \<Rightarrow> Some s
     | Some new_file \<Rightarrow>
         if new_file = [] then Some s
         else let (dir, s) = isdir os new_file s
              in if \<not> dir then Some s
                 else let s = (if announce then out (''Watching new directory '' @ new_file @ nl) s else s)
                      in do {
                           (ok, s) \<leftarrow> watch_recursively os fuel new_file events s;
                           Some (if ok then s
                                 else out (''Couldn'' @ quote @ ''t watch new directory '' @ new_file @ '': '' @
                                        strerror os (error s) @ nl) s)
                         }
   }"

definition handle_event ::
  "'w os \<Rightarrow> nat \<Rightarrow> string option \<Rightarrow> event \<Rightarrow> bool \<Rightarrow> u32 \<Rightarrow> bool \<Rightarrow> (string \<Rightarrow> 'w machine \<Rightarrow> 'w machine) \<Rightarrow>
     'w machine \<Rightarrow> (string option \<times> 'w machine) option" where
  "handle_event os fuel moved_from event recursive events announce out s = do {
     let mask = ev_mask event;
     (moved_from, s) \<leftarrow> drop_moved os moved_from event out s;
     if \<not> recursive then Some (moved_from, s)
     else if mask AND IN_CREATE \<noteq> 0 \<or> moved_from = None \<and> mask AND IN_MOVED_TO \<noteq> 0
     then do {
       s \<leftarrow> watch_new os fuel event events announce out s;
       Some (moved_from, s)
     }
     else if mask AND IN_MOVED_FROM \<noteq> 0
     then do {
       (mf, s) \<leftarrow> dirpath_from_event os event s;
       (wd, s) \<leftarrow> wd_from_filename (case mf of Some f \<Rightarrow> f | None \<Rightarrow> []) s;
       Some (if wd = -1 then None else mf, s)
     }
     else if mask AND IN_MOVED_TO \<noteq> 0
     then case moved_from of
            Some mf \<Rightarrow> do {
              (new_name, s) \<leftarrow> dirpath_from_event os event s;
              s \<leftarrow> replace_filename mf (case new_name of Some f \<Rightarrow> f | None \<Rightarrow> []) s;
              Some (None, s)
            }
          | None \<Rightarrow> Some (None, s)
     else Some (moved_from, s)
   }"

subsection \<open>The lists of files\<close>

text \<open>What reading a stream to its end delivers.\<close>

fun file_lines :: "'w os \<Rightarrow> int \<Rightarrow> 'w \<Rightarrow> string list \<Rightarrow> 'w \<Rightarrow> bool" where
  "file_lines os f w [] w' \<longleftrightarrow> os_fgets os f MAXLEN w = (None, w')"
| "file_lines os f w (l # ls) w' \<longleftrightarrow>
     (\<exists>v. os_fgets os f MAXLEN w = (Some l, v) \<and> file_lines os f v ls w')"

text \<open>The names in the lines of a file, in arguments, and how they are sorted out.\<close>

definition line_name :: "string \<Rightarrow> string" where
  "line_name l = (if l \<noteq> [] \<and> last l = CHR 0x0A then butlast l else l)"

definition line_names :: "string list \<Rightarrow> string list" where
  "line_names ls = map line_name (filter (\<lambda>l. l \<noteq> [] \<and> l \<noteq> ''@'') (map cstring ls))"

definition arg_names :: "string list \<Rightarrow> string list" where
  "arg_names as = filter (\<lambda>a. a \<noteq> [] \<and> a \<noteq> ''@'') as"

definition marked_excluded :: "string \<Rightarrow> bool" where
  "marked_excluded n \<longleftrightarrow> n \<noteq> [] \<and> hd n = CHR ''@''"

definition sorted_out :: "string list \<Rightarrow> file_list" where
  "sorted_out ns = \<lparr>fl_watch = filter (\<lambda>n. \<not> marked_excluded n) ns,
     fl_exclude = map tl (filter marked_excluded ns)\<rparr>"

lemma add_name_sorted:
  "(if marked_excluded n then exclude_more (tl n) (sorted_out ns) else watch_more n (sorted_out ns)) =
     sorted_out (ns @ [n])"
  by (simp add: sorted_out_def exclude_more_def watch_more_def)

lemma add_line_sorted: "add_line (cstring l) (sorted_out ns) = sorted_out (ns @ line_names [l])"
proof -
  let ?l = "cstring l"
  have name: "(if ?l ! (length ?l - 1) = CHR 0x0A then take (length ?l - 1) ?l else ?l) = line_name ?l"
    if "?l \<noteq> []"
    using that by (simp add: line_name_def last_conv_nth butlast_conv_take)
  have at: "length ?l = 1 \<and> line_name ?l \<noteq> [] \<and> hd (line_name ?l) = CHR ''@'' \<longleftrightarrow> ?l = ''@''"
    by (auto simp: line_name_def length_Suc_conv)
  show ?thesis
  proof (cases "?l = [] \<or> ?l = ''@''")
    case True
    then show ?thesis
      by (auto simp: add_line_def line_names_def)
  next
    case False
    then have nm: "?l \<noteq> []" by blast
    have "add_line ?l (sorted_out ns) =
      (if marked_excluded (line_name ?l) then exclude_more (tl (line_name ?l)) (sorted_out ns)
       else watch_more (line_name ?l) (sorted_out ns))"
      unfolding add_line_def marked_excluded_def Let_def name [OF nm] using False at by auto
    with False show ?thesis
      by (simp add: add_name_sorted line_names_def)
  qed
qed

lemma read_names_sorted:
  "file_lines os f (world s) ls w' \<Longrightarrow> length ls < fuel \<Longrightarrow>
    read_names os fuel f (sorted_out ns) s = Some (sorted_out (ns @ line_names ls), s\<lparr>world := w'\<rparr>)"
proof (induction ls arbitrary: fuel s ns)
  case Nil
  then show ?case by (cases fuel) (simp_all add: fgets_def sys_def line_names_def)
next
  case (Cons l ls)
  then obtain k v where *: "fuel = Suc k" "os_fgets os f MAXLEN (world s) = (Some l, v)"
    "file_lines os f v ls w'" "length ls < k"
    by (cases fuel) auto
  with Cons.IH [of "s\<lparr>world := v\<rparr>" k "ns @ line_names [l]"] show ?case
    by (simp add: fgets_def sys_def add_line_sorted) (simp add: line_names_def)
qed

lemma fold_file_list_add: "fold file_list_add as (sorted_out ns) = sorted_out (ns @ arg_names as)"
proof (induction as arbitrary: ns)
  case Nil
  then show ?case by (simp add: arg_names_def)
next
  case (Cons a as)
  have "file_list_add a (sorted_out ns) = sorted_out (ns @ arg_names [a])"
    using add_name_sorted [of a ns]
    by (auto simp: file_list_add_def arg_names_def marked_excluded_def)
  with Cons show ?case by (simp add: arg_names_def)
qed

lemma no_files_sorted: "no_files = sorted_out []"
  by (simp add: no_files_def sorted_out_def)

text \<open>C31.
  The lists of files: with \<open>--fromfile\<close> (a file that can be opened, with enough fuel for its
  lines) the names are those of the lines in order, the newline cut off, then those of the
  arguments; lines and arguments that are empty or only \<open>@\<close> are skipped (a line that is just a
  newline gives an empty name); a name that starts with \<open>@\<close> is an excluded file, all others are
  watched, in order.\<close>

theorem construct_path_list_correct:
  assumes opened: "os_fopen os (cstring file) ''r'' (world s) = ((Some f, e), w1)" "file \<noteq> ''-''"
    and lines: "file_lines os f w1 ls w2" "length ls < fuel"
    and closed: "os_fclose os f w2 = (r, w3)"
  shows "construct_path_list os fuel args (Some file) s =
      Some (Some (sorted_out (line_names ls @ arg_names args)), s\<lparr>world := w3\<rparr>) \<and>
    construct_path_list os fuel args None s = Some (Some (sorted_out (arg_names args)), s)"
proof -
  have "read_names os fuel f no_files (s\<lparr>world := w1\<rparr>) = Some (sorted_out (line_names ls), s\<lparr>world := w2\<rparr>)"
    using read_names_sorted [of os f "s\<lparr>world := w1\<rparr>" ls w2 fuel "[]"] lines no_files_sorted by simp
  with opened closed show ?thesis
    using fold_file_list_add [of args "[]"]
    by (simp add: construct_path_list_def sys_def no_files_sorted fold_file_list_add)
qed

definition lines_os :: "string list os" where
  "lines_os = quiet_os\<lparr>os_fopen := (\<lambda>_ _ w. ((Some 5, 0), w)),
     os_fgets := (\<lambda>_ _ w. case w of [] \<Rightarrow> (None, w) | l # ls \<Rightarrow> (Some l, ls))\<rparr>"

theorem construct_path_list_correct_witness:
  "\<exists>s'. construct_path_list lines_os 9 [''@y'', ''c''] (Some ''l'')
      (machine_new [''a'' @ nl, ''@b'' @ nl, ''x'']) =
    Some (Some \<lparr>fl_watch = [''a'', ''x'', ''c''], fl_exclude = [''b'', ''y'']\<rparr>, s')"
proof -
  let ?ls = "[''a'' @ nl, ''@b'' @ nl, ''x'']"
  have o': "os_fopen lines_os (cstring ''l'') ''r'' (world (machine_new ?ls)) = ((Some 5, 0), ?ls)"
    by (simp add: lines_os_def)
  have l: "file_lines lines_os 5 ?ls ?ls []" by (simp add: lines_os_def)
  have c: "os_fclose lines_os 5 [] = (0, [])" by (simp add: lines_os_def quiet_os_def)
  have n: "sorted_out (line_names ?ls @ arg_names [''@y'', ''c'']) =
      \<lparr>fl_watch = [''a'', ''x'', ''c''], fl_exclude = [''b'', ''y'']\<rparr>"
    by (simp add: sorted_out_def line_names_def arg_names_def line_name_def marked_excluded_def
        cstring_def)
  show ?thesis
    using construct_path_list_correct [OF o' _ l _ c, of 9 "[''@y'', ''c'']"] n by simp
qed

subsection \<open>Base names\<close>

lemma trim_end_slashes:
  "0 < length a \<Longrightarrow> length a = 1 \<or> last a \<noteq> CHR ''/'' \<Longrightarrow>
    trim_end (a @ replicate (j + k) (CHR ''/'')) (length a + j) = length a"
proof (induction j arbitrary: k)
  case 0
  then show ?case
    by (subst trim_end.simps) (auto simp: last_conv_nth nth_append)
next
  case (Suc j)
  then show ?case
  proof -
    let ?p = "a @ replicate (Suc j + k) (CHR ''/'')"
    have "?p ! (length a + Suc j - 1) = CHR ''/''"
      by (simp add: nth_append del: replicate.simps)
    moreover have "1 < length a + Suc j" using Suc.prems(1) by simp
    ultimately have "trim_end ?p (length a + Suc j) = trim_end ?p (length a + j)"
      by (subst trim_end.simps) simp
    moreover have "?p = a @ replicate (j + Suc k) (CHR ''/'')" by simp
    ultimately show ?thesis using Suc.IH [OF Suc.prems, of "Suc k"] by simp
  qed
qed

lemma basename_trimmed:
  assumes "0 < length a" and "length a = 1 \<or> last a \<noteq> CHR ''/''"
  shows "basename (a @ replicate k (CHR ''/'')) =
    (if a = ''/'' then ''/'' else case rposition (\<lambda>c. c = CHR ''/'') a of
       Some i \<Rightarrow> drop (i + 1) a | None \<Rightarrow> a)"
  using trim_end_slashes [OF assms, of k 0] assms(1) by (auto simp: basename_def Let_def)

text \<open>
  The base name of a path is its last component: slashes at the end do not count, and a path of
  slashes only has the base name \<open>/
\<close>, an empty one \<open>.\<close>. So a tool is recognised as one of the
  \<open>fsnotify\<close> tools just by the beginning of its last component.\<close>

lemma basename_correct:
  assumes name: "name \<noteq> []" "CHR ''/'' \<notin> set name" and dir: "dir = [] \<or> last dir = CHR ''/''"
  shows "basename (dir @ name @ replicate k (CHR ''/'')) = name \<and>
    basename (replicate (Suc k) (CHR ''/'')) = ''/'' \<and> basename [] = ''.'' \<and>
    (invoked_as_fsnotify (Some (dir @ name @ replicate k (CHR ''/''))) \<longleftrightarrow> starts_with name ''fsnotify'')"
proof -
  have "last (dir @ name) \<in> set name" using name(1) by simp
  with name(2) have no_slash: "last (dir @ name) \<noteq> CHR ''/''" by metis
  then have "dir @ name \<noteq> ''/''" by (metis last_ConsL)
  moreover note no_slash
  moreover have "0 < length (dir @ name)" using name(1) by simp
  moreover have "(case rposition (\<lambda>c. c = CHR ''/'') (dir @ name) of
      Some i \<Rightarrow> drop (i + 1) (dir @ name) | None \<Rightarrow> dir @ name) = name"
  proof (cases "dir = []")
    case True
    then have "rposition (\<lambda>c. c = CHR ''/'') (dir @ name) = None"
      unfolding True append_Nil rposition_None using name(2) by blast
    from this show ?thesis unfolding True append_Nil by (simp only: option.case)
  next
    case False
    with dir obtain d where d: "dir = d @ ''/''" by (metis append_butlast_last_id)
    have "rposition (\<lambda>c. c = CHR ''/'') (d @ CHR ''/'' # name) = Some (length d)"
      using name(2) by (intro rposition_append_hit) auto
    with d show ?thesis by simp
  qed
  ultimately have b: "basename (dir @ name @ replicate k (CHR ''/'')) = name"
    using basename_trimmed [of "dir @ name" k] by simp
  have "basename (replicate (Suc k) (CHR ''/'')) = ''/''"
    using basename_trimmed [of "''/''" k] by simp
  with b show ?thesis by (simp add: basename_def invoked_as_fsnotify_def)
qed

subsection \<open>Installing the filters\<close>

text \<open>The expressions that are given: pattern, flags, and whether the match is inverted.\<close>

definition given_filters :: "filters \<Rightarrow> (string \<times> int \<times> bool) list" where
  "given_filters f =
     (case f_exc f of Some p \<Rightarrow> [(p, REG_EXTENDED, False)] | None \<Rightarrow> []) @
     (case f_exci f of Some p \<Rightarrow> [(p, or_flag REG_EXTENDED REG_ICASE, False)] | None \<Rightarrow> []) @
     (case f_inc f of Some p \<Rightarrow> [(p, REG_EXTENDED, True)] | None \<Rightarrow> []) @
     (case f_inci f of Some p \<Rightarrow> [(p, or_flag REG_EXTENDED REG_ICASE, True)] | None \<Rightarrow> [])"

text \<open>Whether an expression compiles, and the library with it as the filter.\<close>

definition compiles :: "'w os \<Rightarrow> string \<times> int \<times> bool \<Rightarrow> bool" where
  "compiles os = (\<lambda>(p, flags, inverted). os_regcomp os (cstring p) (or_flag flags REG_NOSUB) = 0)"

definition with_filter :: "int \<Rightarrow> string \<times> int \<times> bool \<Rightarrow> 'w machine \<Rightarrow> 'w machine" where
  "with_filter recursive = (\<lambda>(p, flags, inverted) s. s\<lparr>invert_regexp := inverted, recursive_watch := recursive,
     regex := Some \<lparr>re_pattern = cstring p, re_flags = or_flag flags REG_NOSUB\<rparr>\<rparr>)"

definition filter_error :: "bool \<Rightarrow> string" where
  "filter_error inverted =
     (if inverted then ''Error in `include'' else ''Error in `exclude'') @ quote @ '' regular expression.'' @ nl"

lemma install_filters_in_order:
  "install os f recursive s =
     (case dropWhile (compiles os) (given_filters f) of
        [] \<Rightarrow> (True, fold (with_filter recursive) (given_filters f) s)
      | (p, flags, inverted) # _ \<Rightarrow> (False, ceprint (filter_error inverted)
          ((fold (with_filter recursive) (takeWhile (compiles os) (given_filters f)) s)
             \<lparr>regex := None, invert_regexp := inverted, recursive_watch := recursive, error := EINVAL\<rparr>)))"
proof -
  have ign: "do_ignore_events_by_regex os (Some p) flags inverted recursive s =
      (if compiles os (p, flags, inverted) then (True, with_filter recursive (p, flags, inverted) s)
       else (False, s\<lparr>regex := None, invert_regexp := inverted, recursive_watch := recursive, error := EINVAL\<rparr>))"
    for p flags inverted and s :: "'a machine"
    by (simp add: do_ignore_events_by_regex_def compiles_def with_filter_def)
  show ?thesis
    by (cases "f_exc f"; cases "f_exci f"; cases "f_inc f"; cases "f_inci f")
      (simp_all add: given_filters_def install_def Let_def ignore_events_by_regex_def
        ignore_events_by_inverted_regex_def ign filter_error_def)
qed

text \<open>C34.
  The filter options are accepted exactly when at most one of them is given; a message is printed
  otherwise. Installing takes the expressions that are given one after the other (\<open>--exclude\<close>,
  \<open>--excludei\<close>, \<open>--include\<close>, \<open>--includei\<close>), each replacing the filter before it, up to the first that
  does not compile. When all do, the last is the library's filter, inverted for the include options,
  and nothing else has changed. At one that does not compile, installation fails with a message that
  names its kind and the error \<open>EINVAL\<close>, and there is no filter.\<close>

theorem install_correct:
  "(if length (given_filters f) \<le> 1 then validate f s = (True, s)
    else \<exists>msg. msg \<noteq> [] \<and> validate f s = (False, ceprint msg s)) \<and>
   install os f recursive s =
     (case dropWhile (compiles os) (given_filters f) of
        [] \<Rightarrow> (True, fold (with_filter recursive) (given_filters f) s)
      | (p, flags, inverted) # _ \<Rightarrow> (False, ceprint (filter_error inverted)
          ((fold (with_filter recursive) (takeWhile (compiles os) (given_filters f)) s)
             \<lparr>regex := None, invert_regexp := inverted, recursive_watch := recursive, error := EINVAL\<rparr>)))"
proof -
  have "if length (given_filters f) \<le> 1 then validate f s = (True, s)
      else \<exists>msg. msg \<noteq> [] \<and> validate f s = (False, ceprint msg s)"
    by (cases "f_exc f"; cases "f_exci f"; cases "f_inc f"; cases "f_inci f")
      (simp_all add: given_filters_def validate_def has_include_def ceprint_def exI [of _ "_ # _"])
  then show ?thesis
    by (simp only: install_filters_in_order)
qed

subsection \<open>Following moves\<close>

text \<open>A directory below a watched one, as an event reports it (inotify).\<close>

definition event_dir :: "'w machine \<Rightarrow> event \<Rightarrow> string \<Rightarrow> bool" where
  "event_dir s ev d \<longleftrightarrow> (\<exists>n w. ev_wd ev \<noteq> 0 \<and> watch_from_wd s (ev_wd ev) = Some n \<and>
     watches s n = Some w \<and> w_fid w = None \<and> w_filename w \<noteq> [] \<and> ev_mask ev AND IN_ISDIR \<noteq> 0 \<and>
     NUL \<notin> set (ev_name ev) \<and> d = w_filename w @ ev_name ev @ ''/'')"

lemma event_dirpath:
  assumes "initialized s" and "\<not> fanotify_mode s" and "event_dir s ev d"
  shows "dirpath_from_event os ev s = Some (Some d, s)"
  using assms
  by (auto simp: event_dir_def dirpath_from_event_def filename_from_wd_def filename_from_watch_id_def
      watch_at_def)

lemma event_dir_text: "table_inv s \<Longrightarrow> event_dir s ev d \<Longrightarrow> d \<noteq> [] \<and> NUL \<notin> set d"
  by (auto simp: event_dir_def watch_ok_def dest: table_invD(4))

lemma handle_plain: "handle_event os fuel None ev False events announce out s = Some (None, s)"
  by (simp add: handle_event_def drop_moved_def)

lemma no_bits: "m AND (a OR b) = (0 :: u32) \<Longrightarrow> m AND a = 0 \<and> m AND b = 0"
  by (simp add: bit.conj_disj_distrib or_eq_0_iff)

lemma handle_moved_from:
  assumes inv: "table_inv s" and ini: "initialized s" and mode: "\<not> fanotify_mode s"
    and mask: "ev_mask ev AND IN_MOVED_FROM \<noteq> 0" "ev_mask ev AND (IN_CREATE OR IN_MOVED_TO) = 0"
    and dir: "event_dir s ev old" "watch_from_filename s old = Some n"
  shows "handle_event os fuel None ev True events announce out s = Some (Some old, s)"
proof -
  obtain w where w: "watches s n = Some w" "0 < w_wd w"
    using watch_from_filename_found [OF inv dir(2)] table_invD(4) [OF inv] by (metis watch_ok_def)
  with dir ini event_dir_text [OF inv dir(1)] have "wd_from_filename old s = Some (w_wd w, s)"
    by (simp add: wd_from_filename_def watch_at_def)
  with w(2) mask(1) no_bits [OF mask(2)] event_dirpath [OF ini mode dir(1)] show ?thesis
    by (simp add: handle_event_def drop_moved_def)
qed

text \<open>C10.
  A move within the watched tree, reported as \<open>MOVED_FROM\<close> and \<open>MOVED_TO\<close> one after the other:
  the first event is remembered and changes nothing, the second renames, so that every path that
  was watched below the old directory is watched by the same watch below the new one and no longer
  below the old one, every other path is watched as before, and no watch was removed or added.\<close>

theorem move_followed:
  assumes inv: "table_inv s" and ini: "initialized s" and mode: "\<not> fanotify_mode s"
    and mask1: "ev_mask ev1 AND IN_MOVED_FROM \<noteq> 0" "ev_mask ev1 AND (IN_CREATE OR IN_MOVED_TO) = 0"
    and old: "event_dir s ev1 old" "watch_from_filename s old = Some n"
    and mask2: "ev_mask ev2 AND IN_MOVED_TO \<noteq> 0" "ev_mask ev2 AND (IN_CREATE OR IN_MOVED_FROM) = 0"
    and new: "event_dir s ev2 new"
    and free: "\<And>r. watch_from_filename s (old @ r) \<noteq> None \<Longrightarrow> watch_from_filename s (new @ r) = None"
  shows "\<exists>s'. handle_event os fuel None ev1 True events announce out s = Some (Some old, s) \<and>
    handle_event os fuel (Some old) ev2 True events announce out s = Some (None, s') \<and>
    table_inv s' \<and> by_wd s' = by_wd s \<and> dom (watches s') = dom (watches s) \<and>
    (\<forall>r k. watch_from_filename s (old @ r) = Some k \<longrightarrow>
       watch_from_filename s' (new @ r) = Some k \<and> watch_from_filename s' (old @ r) = None) \<and>
    (\<forall>k. \<not> starts_with k old \<and> \<not> starts_with k new \<longrightarrow>
       watch_from_filename s' k = watch_from_filename s k)"
proof -
  note text_old = event_dir_text [OF inv old(1)] and text_new = event_dir_text [OF inv new]
  from replace_filename_renames [OF inv, of old new] text_old text_new
  obtain s' where s': "replace_filename old new s = Some s'" "table_inv s'" "by_wd s' = by_wd s"
    "\<forall>n. watches s' n = (if \<exists>name. watch_from_filename s name = Some n
        then map_option (move_name old new) (watches s n) else watches s n)" by blast
  have "handle_event os fuel (Some old) ev2 True events announce out s = Some (None, s')"
    using mask2(1) no_bits [OF mask2(2)] event_dirpath [OF ini mode new] s'(1)
    by (simp add: handle_event_def drop_moved_def)
  moreover have "handle_event os fuel None ev1 True events announce out s = Some (Some old, s)"
    by (rule handle_moved_from [OF inv ini mode mask1 old])
  moreover have "dom (watches s') = dom (watches s)"
    using s'(4) by (auto simp: dom_def)
  moreover have "old @ r \<noteq> new" if "watch_from_filename s (old @ r) = Some k" for r k
    using free [of "[]"] old(2) that by fastforce
  moreover note replace_filename_index [OF inv _ _ _ free s'(1)]
  ultimately show ?thesis
    using s'(2,3) text_old text_new by (intro exI [of _ s']) blast
qed

text \<open>A watched directory with a watched subdirectory.\<close>

definition two_watches :: "unit machine" where
  "two_watches = register quiet_os 4 None ''/a/d/'' 0 (one_watch ''/a/'')"

lemma two_watches_facts:
  "table_inv two_watches" "initialized two_watches" "\<not> fanotify_mode two_watches"
  "watch_from_filename two_watches k = (if k = ''/a/'' then Some 1 else if k = ''/a/d/'' then Some 2 else None)"
  "watch_from_wd two_watches k' = (if k' = 3 then Some 1 else if k' = 4 then Some 2 else None)"
  "watches two_watches = [1 \<mapsto> new_watch 3 None ''/a/'' 0, 2 \<mapsto> new_watch 4 None ''/a/d/'' 0]"
proof -
  have c: "cstring ''/a/'' = ''/a/''" "cstring ''/a/d/'' = ''/a/d/''" by (simp_all add: cstring_def)
  have one: "initialized (one_watch ''/a/'')" "\<not> fanotify_mode (one_watch ''/a/'')" "next_id (one_watch ''/a/'') = 2"
    by (simp_all add: one_watch_def register_def Let_def)
  show "table_inv two_watches"
    unfolding two_watches_def by (rule register_inv [OF one_watch_facts(1)]) simp
  show "watch_from_filename two_watches k = (if k = ''/a/'' then Some 1 else if k = ''/a/d/'' then Some 2 else None)"
    "watch_from_wd two_watches k' = (if k' = 3 then Some 1 else if k' = 4 then Some 2 else None)"
    using register_table(1,2) [OF one_watch_facts(1) [of "''/a/''"], of quiet_os 4 None "''/a/d/''" 0] one(3) c
    by (simp_all add: two_watches_def watch_from_filename_def watch_from_wd_def filed_def one_watch_facts bt_get_def)
  have "watches two_watches = (watches (one_watch ''/a/''))(2 \<mapsto> new_watch 4 None ''/a/d/'' 0)"
    using one(3) by (simp add: two_watches_def register_def Let_def one_watch_facts bt_get_def)
  then show "watches two_watches = [1 \<mapsto> new_watch 3 None ''/a/'' 0, 2 \<mapsto> new_watch 4 None ''/a/d/'' 0]"
    by (simp add: one_watch_facts)
  have "settings two_watches = settings (one_watch ''/a/'')"
    unfolding two_watches_def by (rule grownD(3) [OF register_grown [OF one_watch_facts(1)]]) simp
  from settings_sel(1,2) [OF this] one(1,2)
  show "initialized two_watches" "\<not> fanotify_mode two_watches" by simp_all
qed

definition dir_event :: "u32 \<Rightarrow> string \<Rightarrow> event" where
  "dir_event m name = event_default\<lparr>ev_wd := 3, ev_mask := m OR IN_ISDIR, ev_name := name\<rparr>"

lemma dir_event_dir:
  "NUL \<notin> set name \<Longrightarrow> event_dir two_watches (dir_event m name) (''/a/'' @ name @ ''/'')"
  unfolding event_dir_def
  by (intro exI [of _ 1] exI [of _ "new_watch 3 None ''/a/'' 0"])
    (simp add: dir_event_def event_default_def two_watches_facts IN_ISDIR_def cstring_def
      bit.conj_disj_distrib2 or_eq_0_iff)

theorem move_followed_witness:
  "\<exists>s'. handle_event quiet_os 9 None (dir_event IN_MOVED_FROM ''d'') True 0 False ceprint two_watches =
      Some (Some ''/a/d/'', two_watches) \<and>
    handle_event quiet_os 9 (Some ''/a/d/'') (dir_event IN_MOVED_TO ''e'') True 0 False ceprint two_watches =
      Some (None, s') \<and>
    watch_from_filename s' ''/a/e/'' = Some 2 \<and> watch_from_filename s' ''/a/d/'' = None"
proof -
  let ?s = two_watches
  have m: "ev_mask (dir_event IN_MOVED_FROM ''d'') AND IN_MOVED_FROM \<noteq> 0"
    "ev_mask (dir_event IN_MOVED_FROM ''d'') AND (IN_CREATE OR IN_MOVED_TO) = 0"
    "ev_mask (dir_event IN_MOVED_TO ''e'') AND IN_MOVED_TO \<noteq> 0"
    "ev_mask (dir_event IN_MOVED_TO ''e'') AND (IN_CREATE OR IN_MOVED_FROM) = 0"
    by (simp_all add: dir_event_def event_default_def IN_ISDIR_def IN_MOVED_FROM_def IN_CREATE_def IN_MOVED_TO_def)
  have d: "event_dir ?s (dir_event IN_MOVED_FROM ''d'') ''/a/d/''"
    "event_dir ?s (dir_event IN_MOVED_TO ''e'') ''/a/e/''"
    using dir_event_dir [of "''d''"] dir_event_dir [of "''e''"] by simp_all
  have w: "watch_from_filename ?s ''/a/d/'' = Some 2" by (simp add: two_watches_facts)
  have free: "watch_from_filename ?s (''/a/e/'' @ r) = None" for r by (simp add: two_watches_facts)
  from move_followed [OF two_watches_facts(1-3) m(1,2) d(1) w m(3,4) d(2) free, of quiet_os 9 0 False ceprint]
  obtain s' where *: "handle_event quiet_os 9 None (dir_event IN_MOVED_FROM ''d'') True 0 False ceprint ?s =
      Some (Some ''/a/d/'', ?s)"
    "handle_event quiet_os 9 (Some ''/a/d/'') (dir_event IN_MOVED_TO ''e'') True 0 False ceprint ?s = Some (None, s')"
    "\<forall>r k. watch_from_filename ?s (''/a/d/'' @ r) = Some k \<longrightarrow>
       watch_from_filename s' (''/a/e/'' @ r) = Some k \<and> watch_from_filename s' (''/a/d/'' @ r) = None"
    by (elim exE conjE) (rule that)
  from *(3) w have "watch_from_filename s' ''/a/e/'' = Some 2 \<and> watch_from_filename s' ''/a/d/'' = None"
    by (metis append_Nil2)
  with *(1,2) show ?thesis by (intro exI [of _ s'] conjI) simp_all
qed

text \<open>What a tool writes does not touch the library.\<close>

definition only_writes :: "(string \<Rightarrow> 'w machine \<Rightarrow> 'w machine) \<Rightarrow> bool" where
  "only_writes out \<longleftrightarrow> (\<forall>m s. same_lib s (out m s))"

lemma only_writesD: "only_writes out \<Longrightarrow> same_lib s (out m s)"
  by (simp add: only_writes_def)

text \<open>C25.
  A directory that was moved out of the watched tree (no \<open>MOVED_TO\<close> follows): its watch is removed,
  from the table and all indexes, when the kernel agrees; otherwise the table stays as it was. The
  watches of its subdirectories are not touched.\<close>

theorem moved_away_unwatched:
  assumes inv: "table_inv s" and ini: "initialized s" and out: "only_writes out"
    and old: "watch_from_filename s old = Some n" "watches s n = Some w" "w_fid w = None"
    and mask: "ev_mask ev AND (IN_CREATE OR (IN_MOVED_FROM OR IN_MOVED_TO)) = 0"
    and rm: "os_inotify_rm_watch os (fd s) (w_wd w) (world s) = ((status, e), w')"
  shows "\<exists>s'. handle_event os fuel (Some old) ev recursive events announce out s = Some (None, s') \<and>
    table_inv s' \<and> by_fid s' = by_fid s \<and>
    watches s' = (if 0 \<le> status then (watches s)(n := None) else watches s) \<and>
    bt_get (by_wd s') = (if 0 \<le> status then (bt_get (by_wd s))(w_wd w := None) else bt_get (by_wd s)) \<and>
    watch_from_filename s' = (if 0 \<le> status then (watch_from_filename s)(old := None) else watch_from_filename s)"
proof -
  have name: "w_filename w = old"
    using watch_from_filename_found [OF inv old(1)] old(2) by auto
  have m: "ev_mask ev AND IN_CREATE = 0" "ev_mask ev AND IN_MOVED_FROM = 0" "ev_mask ev AND IN_MOVED_TO = 0"
    using no_bits [OF mask] no_bits [of "ev_mask ev" IN_MOVED_FROM IN_MOVED_TO] by auto
  from remove_watch_cases [OF inv ini old(2), of os] obtain ok t where
    t: "remove_watch os (Some n) s = Some (ok, t)" "table_inv t"
      "if ok then w_fid w = None \<and> watches t = (watches s)(n := None) \<and>
        bt_get (by_wd t) = (bt_get (by_wd s))(w_wd w := None) \<and>
        bt_get (by_filename t) = (bt_get (by_filename s))(w_filename w := None) \<and>
        by_fid t = by_fid s
     else (w_fid w \<noteq> None \<or> error t < 0) \<and> watches t = watches s \<and> by_wd t = by_wd s \<and>
        by_filename t = by_filename s \<and> by_fid t = by_fid s" by blast
  have ok: "ok \<longleftrightarrow> 0 \<le> status"
    using t(1) ini old(2,3) rm
    by (auto simp: remove_watch_def remove_inotify_watch_def watch_at_def sys_def Let_def
        split: if_splits bind_splits)
  define s' where "s' = (if ok then t else out (''Error removing watch on '' @ old @ '': '' @
      strerror os (error t) @ nl) t)"
  have same: "same_lib t s'" using only_writesD [OF out] by (simp add: s'_def)
  have "drop_moved os (Some old) ev out s = Some (None, s')"
    using t(1) old(1) m(3) by (simp add: drop_moved_def remove_watch_by_filename_def s'_def)
  with m have run: "handle_event os fuel (Some old) ev recursive events announce out s = Some (None, s')"
    by (cases recursive) (simp_all add: handle_event_def)
  have lookup: "watch_from_filename s' = bt_get (by_filename s')" "watch_from_filename s = bt_get (by_filename s)"
    by (simp_all add: watch_from_filename_def fun_eq_iff)
  show ?thesis
    using run t(2,3) ok name same_lib_table [OF same] same_lib_inv [OF same]
    by (intro exI [of _ s']) (simp only: lookup, cases ok, simp_all)
qed

theorem moved_away_unwatched_witness:
  "\<exists>s'. handle_event quiet_os 9 (Some ''/a/d/'') (event_default\<lparr>ev_mask := IN_OPEN\<rparr>) True 0 False ceprint
      two_watches = Some (None, s') \<and>
    table_inv s' \<and> watch_from_filename s' ''/a/d/'' = None \<and> watch_from_filename s' ''/a/'' = Some 1"
proof -
  have out: "only_writes ceprint" by (simp add: only_writes_def ceprint_def)
  have w: "watch_from_filename two_watches ''/a/d/'' = Some 2"
    "watches two_watches 2 = Some (new_watch 4 None ''/a/d/'' 0)" "w_fid (new_watch 4 None ''/a/d/'' 0) = None"
    by (simp_all add: two_watches_facts)
  have m: "ev_mask (event_default\<lparr>ev_mask := IN_OPEN\<rparr>) AND (IN_CREATE OR (IN_MOVED_FROM OR IN_MOVED_TO)) = 0"
    by (simp add: IN_OPEN_def IN_CREATE_def IN_MOVED_FROM_def IN_MOVED_TO_def)
  have rm: "os_inotify_rm_watch quiet_os (fd two_watches) (w_wd (new_watch 4 None ''/a/d/'' 0))
      (world two_watches) = ((0, 0), world two_watches)"
    by (simp add: quiet_os_def)
  from moved_away_unwatched [OF two_watches_facts(1,2) out w m rm, of 9 True 0 False]
  show ?thesis by (auto simp: two_watches_facts)
qed

text \<open>C24.
  A directory that appears in the watched tree (created, or moved in from outside) is watched with
  its whole subtree, on any system that serves a file system: besides what was watched before,
  exactly its directories are watched then.\<close>

theorem new_directory_watched:
  assumes serves: "serves os view fs (fd s)"
    and s: "table_inv s" "initialized s" "\<not> fanotify_mode s"
    and out: "only_writes out" "\<And>m s. view (world (out m s)) = view (world s)"
    and mask: "ev_mask ev AND (IN_CREATE OR IN_MOVED_TO) \<noteq> 0"
    and dir: "event_dir s ev d" "fs d = Some t" "is_dir t" "laid_out fs d t" "size t < fuel"
  shows "\<exists>s'. handle_event os fuel None ev True events announce out s = Some (None, s') \<and>
    table_inv s' \<and> view (world s') = view (world s) \<and>
    (\<forall>f. watch_from_filename s' f \<noteq> None \<longleftrightarrow> watch_from_filename s f \<noteq> None \<or> f \<in> set (tree_dirs [] d t))"
proof -
  have d: "d \<noteq> []" "NUL \<notin> set d" "slashed d = d" "cstring d = d"
    using event_dir_text [OF s(1) dir(1)] dir(1) by (auto simp: event_dir_def slashed_def cstring_id)
  obtain e mode w' where l: "os_lstat os d (world s) = ((0, e, mode), w')" "view w' = view (world s)"
    "mode AND S_IFMT = S_IFDIR"
    using servesD(6) [OF serves dir(2)] dir(3) by metis
  let ?t = "s\<lparr>world := w'\<rparr>"
  define u where "u = (if announce then out (''Watching new directory '' @ d @ nl) ?t else ?t)"
  have same: "same_lib ?t u" using only_writesD [OF out(1)] by (simp add: u_def)
  have view_u: "view (world u) = view (world s)" using out(2) l(2) by (simp add: u_def)
  have lib: "inotifytools.truncate u = inotifytools.truncate s"
    using same by (simp add: same_lib_def inotifytools.truncate_def)
  then have u: "walker (fd s) u"
    using s by (auto simp: walker_def same_lib_inv [OF same] inotifytools.truncate_def)
  have names: "by_filename u = by_filename s" using same_lib_table(4) [OF same] by simp
  from walk_correct(1) [OF serves dir(3) _ dir(2) d(2) u dir(5), of events "[]"] dir(4) d(3)
  obtain x where x: "watch_recursively_with_exclude os fuel d events [] u = Some (True, x)"
    "walked view u (set (tree_dirs [] d t)) (view (world u)) x" by auto
  have "watch_new os fuel ev events announce out s = Some x"
    using event_dirpath [OF s(2,3) dir(1)] d l x(1)
    by (simp add: watch_new_def isdir_def sys_def watch_recursively_def flip: u_def)
  moreover have "ev_mask ev AND IN_CREATE \<noteq> 0 \<or> ev_mask ev AND IN_MOVED_TO \<noteq> 0"
    using mask by (auto simp: bit.conj_disj_distrib)
  ultimately have "handle_event os fuel None ev True events announce out s = Some (None, x)"
    by (auto simp: handle_event_def drop_moved_def)
  moreover have "watch_from_filename x f \<noteq> None \<longleftrightarrow> watch_from_filename s f \<noteq> None \<or>
      f \<in> set (tree_dirs [] d t)" for f
    using x(2) names unfolding walked_def watch_from_filename_def by (metis Un_iff domIff)
  moreover from x(2) obtain k where "grown k u x" by (auto simp: walked_def)
  ultimately show ?thesis
    using x(2) view_u grownD(1) by (intro exI [of _ x]) (auto simp: walked_def)
qed

theorem new_directory_watched_witness:
  "let s = register (tree_os small_fs) 3 None ''d/'' 0 (ready (machine_new []))
   in \<exists>s'. handle_event (tree_os small_fs) 9 None (dir_event IN_CREATE ''s'') True 0 True ceprint s = Some (None, s') \<and>
     table_inv s' \<and> watch_from_filename s' ''d/s/'' \<noteq> None"
proof -
  let ?o = "tree_os small_fs" and ?i = "ready (machine_new []) :: string list option list machine"
  let ?s = "register ?o 3 None ''d/'' 0 ?i" and ?ev = "dir_event IN_CREATE ''s''"
  have i: "table_inv ?i" by simp
  have inv: "table_inv ?s" by (rule register_inv [OF i]) simp
  have "settings ?s = settings ?i" by (rule grownD(3) [OF register_grown [OF i]]) simp
  from settings_sel(1,2) [OF this] have f: "initialized ?s" "\<not> fanotify_mode ?s" by simp_all
  have "watch_from_wd ?s 3 = Some (next_id ?i)" "watches ?s (next_id ?i) = Some (new_watch 3 None ''d/'' 0)"
    using register_table(1) [OF i, of ?o 3 None "''d/''" 0] register_stored [of ?i 3]
    by (simp_all add: watch_from_wd_def filed_def)
  then have d: "event_dir ?s ?ev ''d/s/''"
    unfolding event_dir_def
    by (intro exI [of _ "next_id ?i"] exI [of _ "new_watch 3 None ''d/'' 0"])
      (simp add: dir_event_def event_default_def IN_ISDIR_def cstring_def IN_CREATE_def)
  have out: "only_writes ceprint" by (simp add: only_writes_def ceprint_def)
  have view: "stream_view (world (ceprint m s)) = stream_view (world s)" for m s by (simp add: ceprint_def)
  have m: "ev_mask ?ev AND (IN_CREATE OR IN_MOVED_TO) \<noteq> 0"
    by (simp add: dir_event_def event_default_def IN_ISDIR_def IN_CREATE_def IN_MOVED_TO_def)
  have t: "small_fs ''d/s/'' = Some (Dir No_more)" "is_dir (Dir No_more)" "size (Dir No_more) < 9"
    "laid_out small_fs ''d/s/'' (Dir No_more)"
    by (simp_all add: small_fs_def)
  from new_directory_watched [OF tree_os_serves inv f out view m d t(1,2,4,3), of 0 True]
  show ?thesis by (auto simp: Let_def)
qed

end
