(* ===== verification/Help.thy ===== *)
theory Help
  imports Common
begin

text \<open>
  What \<open>--help\<close> prints (\<open>print_event_descriptions\<close> in \<open>common.rs\<close>, \<open>print_help\<close> in the two
  tools): \<open>t\<close> is the tool's name, \<open>v\<close> the package version the build generates.
\<close>

definition event_descriptions :: string where
  "event_descriptions =
     tab @ ''access'' @ tab @ tab @ ''file or directory contents were read'' @ nl @ tab @
     ''modify'' @ tab @ tab @ ''file or directory contents were written'' @ nl @ tab @
     ''attrib'' @ tab @ tab @ ''file or directory attributes changed'' @ nl @ tab @
     ''close_write'' @ tab @ ''file or directory closed, after being opened in'' @ nl @ tab @
     ''           '' @ tab @ ''writable mode'' @ nl @ tab @ ''close_nowrite'' @ tab @
     ''file or directory closed, after being opened in'' @ nl @ tab @ ''           '' @ tab @
     ''read-only mode'' @ nl @ tab @ ''close'' @ tab @ tab @
     ''file or directory closed, regardless of read/write mode'' @ nl @ tab @ ''open'' @ tab @
     tab @ ''file or directory opened'' @ nl @ tab @ ''moved_to'' @ tab @
     ''file or directory moved to watched directory'' @ nl @ tab @ ''moved_from'' @ tab @
     ''file or directory moved from watched directory'' @ nl @ tab @ ''move'' @ tab @ tab @
     ''file or directory moved to or from watched directory'' @ nl @ tab @ ''move_self'' @ tab @
     tab @ ''A watched file or directory was moved.'' @ nl @ tab @ ''create'' @ tab @ tab @
     ''file or directory created within watched directory'' @ nl @ tab @ ''delete'' @ tab @ tab @
     ''file or directory deleted within watched directory'' @ nl @ tab @ ''delete_self'' @ tab @
     ''file or directory was deleted'' @ nl @ tab @ ''unmount'' @ tab @ tab @
     ''file system containing file or directory unmounted'' @ nl"

definition wait_help :: "string \<Rightarrow> string \<Rightarrow> string" where
  "wait_help v t =
     t @ '' '' @ v @ nl @ ''Wait for a particular event on a file or set of files.'' @ nl @
     ''Usage: '' @ t @ '' [ options ] file1 [ file2 ] [ file3 ] [ ... ]'' @ nl @ ''Options:'' @
     nl @ tab @ ''-h|--help     '' @ tab @ ''Show this help text.'' @ nl @ tab @
     ''@<file>       '' @ tab @ ''Exclude the specified file from being watched.'' @ nl @ tab @
     ''--exclude <pattern>'' @ nl @ tab @ ''              '' @ tab @
     ''Exclude all events on files matching the'' @ nl @ tab @ ''              '' @ tab @
     ''extended regular expression <pattern>.'' @ nl @ tab @ ''              '' @ tab @
     ''Only the last --exclude option will be'' @ nl @ tab @ ''              '' @ tab @
     ''taken into consideration.'' @ nl @ tab @ ''--excludei <pattern>'' @ nl @ tab @
     ''              '' @ tab @ ''Like --exclude but case insensitive.'' @ nl @ tab @
     ''--include <pattern>'' @ nl @ tab @ ''              '' @ tab @
     ''Exclude all events on files except the ones'' @ nl @ tab @ ''              '' @ tab @
     ''matching the extended regular expression'' @ nl @ tab @ ''              '' @ tab @
     ''<pattern>.'' @ nl @ tab @ ''--includei <pattern>'' @ nl @ tab @ ''              '' @ tab @
     ''Like --include but case insensitive.'' @ nl @ tab @ ''-m|--monitor  '' @ tab @
     ''Keep listening for events forever or until --timeout expires.'' @ nl @ tab @
     ''              '' @ tab @ ''Without this option, '' @ t @
     '' will exit after one event is received.'' @ nl @ tab @ ''-d|--daemon   '' @ tab @
     ''Same as --monitor, except run in the background'' @ nl @ tab @ ''              '' @ tab @
     ''logging events to a file specified by --outfile.'' @ nl @ tab @ ''              '' @ tab @
     ''Implies --syslog.'' @ nl @ tab @ ''-P|--no-dereference'' @ nl @ tab @ ''              '' @
     tab @ ''Do not follow symlinks.'' @ nl @ tab @ ''-r|--recursive'' @ tab @
     ''Watch directories recursively.'' @ nl @ tab @ ''-I|--inotify'' @ tab @
     ''Watch with inotify.'' @ nl @ tab @ ''-F|--fanotify'' @ tab @ ''Watch with fanotify.'' @
     nl @ tab @ ''-S|--filesystem'' @ tab @ ''Watch entire filesystem with fanotify.'' @ nl @
     tab @ ''--fromfile <file>'' @ nl @ tab @ ''              '' @ tab @
     ''Read files to watch from <file> or `-'' @ quote @ '' for stdin.'' @ nl @ tab @
     ''-o|--outfile <file>'' @ nl @ tab @ ''              '' @ tab @
     ''Print events to <file> rather than stdout.'' @ nl @ tab @ ''-s|--syslog   '' @ tab @
     ''Send errors to syslog rather than stderr.'' @ nl @ tab @ ''-q|--quiet    '' @ tab @
     ''Print less (only print events).'' @ nl @ tab @ ''-qq           '' @ tab @
     ''Print nothing (not even events).'' @ nl @ tab @ ''--format <fmt>'' @ tab @
     ''Print using a specified printf-like format'' @ nl @ tab @ ''              '' @ tab @
     ''string; read the man page for more details.'' @ nl @ tab @ ''--no-newline  '' @ tab @
     ''Don'' @ quote @ ''t print newline symbol after'' @ nl @ tab @ ''              '' @ tab @
     ''--format string.'' @ nl @ tab @ ''--timefmt <fmt>'' @ tab @
     ''strftime-compatible format string for use with'' @ nl @ tab @ ''              '' @ tab @
     ''%T in --format string.'' @ nl @ tab @ ''-c|--csv      '' @ tab @
     ''Print events in CSV format.'' @ nl @ tab @ ''-t|--timeout <seconds>'' @ nl @ tab @
     ''              '' @ tab @ ''When listening for a single event, time out after'' @ nl @
     tab @ ''              '' @ tab @ ''waiting for an event for <seconds> seconds.'' @ nl @
     tab @ ''              '' @ tab @ ''If <seconds> is zero, '' @ t @
     '' will never time out.'' @ nl @ tab @ ''-e|--event <event1> [ -e|--event <event2> ... ]'' @
     nl @ tab @ tab @ ''Listen for specific event(s).  If omitted, all events are '' @ nl @ tab @
     tab @ ''listened for.'' @ nl @ nl @ ''Exit status:'' @ nl @ tab @ show_int EXIT_SUCCESS @
     ''  -  An event you asked to watch for was received.'' @ nl @ tab @ show_int EXIT_FAILURE @
     ''  -  An event you did not ask to watch for was received'' @ nl @ tab @
     ''      (usually delete_self or unmount), or some error occurred.'' @ nl @ tab @
     show_int EXIT_TIMEOUT @ ''  -  The --timeout option was given and no events occurred'' @
     nl @ tab @ ''      in the specified interval of time.'' @ nl @ nl @ ''Events:'' @ nl @
     event_descriptions"

definition watch_help :: "string \<Rightarrow> string \<Rightarrow> string" where
  "watch_help v t =
     t @ '' '' @ v @ nl @ ''Gather filesystem usage statistics using '' @ t @ ''.'' @ nl @
     ''Usage: '' @ t @ '' [ options ] file1 [ file2 ] [ ... ]'' @ nl @ ''Options:'' @ nl @ tab @
     ''-h|--help    '' @ tab @ ''Show this help text.'' @ nl @ tab @ ''-v|--verbose '' @ tab @
     ''Be verbose.'' @ nl @ tab @ ''@<file>       '' @ tab @
     ''Exclude the specified file from being watched.'' @ nl @ tab @ ''--fromfile <file>'' @ nl @
     tab @ tab @ ''Read files to watch from <file> or `-'' @ quote @ '' for stdin.'' @ nl @ tab @
     ''--exclude <pattern>'' @ nl @ tab @ tab @
     ''Exclude all events on files matching the extended regular'' @ nl @ tab @ tab @
     ''expression <pattern>.'' @ nl @ tab @ ''--excludei <pattern>'' @ nl @ tab @ tab @
     ''Like --exclude but case insensitive.'' @ nl @ tab @ ''--include <pattern>'' @ nl @ tab @
     tab @ ''Exclude all events on files except the ones'' @ nl @ tab @ tab @
     ''matching the extended regular expression'' @ nl @ tab @ tab @ ''<pattern>.'' @ nl @ tab @
     ''--includei <pattern>'' @ nl @ tab @ tab @ ''Like --include but case insensitive.'' @ nl @
     tab @ ''-z|--zero'' @ nl @ tab @ tab @
     ''In the final table of results, output rows and columns even'' @ nl @ tab @ tab @
     ''if they consist only of zeros (the default is to not output'' @ nl @ tab @ tab @
     ''these rows and columns).'' @ nl @ tab @ ''-r|--recursive'' @ tab @
     ''Watch directories recursively.'' @ nl @ tab @ ''-I|--inotify'' @ tab @
     ''Watch with inotify.'' @ nl @ tab @ ''-F|--fanotify'' @ tab @ ''Watch with fanotify.'' @
     nl @ tab @ ''-S|--filesystem'' @ tab @ ''Watch entire filesystem with fanotify.'' @ nl @
     tab @ ''-P|--no-dereference'' @ nl @ tab @ tab @ ''Do not follow symlinks.'' @ nl @ tab @
     ''-t|--timeout <seconds>'' @ nl @ tab @ tab @
     ''Listen only for specified amount of time in seconds; if'' @ nl @ tab @ tab @
     ''omitted or zero, '' @ t @ '' will execute until receiving an'' @ nl @ tab @ tab @
     ''interrupt signal.'' @ nl @ tab @ ''-e|--event <event1> [ -e|--event <event2> ... ]'' @
     nl @ tab @ tab @ ''Listen for specific event(s).  If omitted, all events are '' @ nl @ tab @
     tab @ ''listened for.'' @ nl @ tab @ ''-a|--ascending <event>'' @ nl @ tab @ tab @
     ''Sort ascending by a particular event, or `total'' @ quote @ ''.'' @ nl @ tab @
     ''-d|--descending <event>'' @ nl @ tab @ tab @
     ''Sort descending by a particular event, or `total'' @ quote @ ''.'' @ nl @ nl @
     ''Exit status:'' @ nl @ tab @ show_int EXIT_SUCCESS @ ''  -  Exited normally.'' @ nl @ tab @
     show_int EXIT_FAILURE @ ''  -  Some error occurred.'' @ nl @ nl @ ''Events:'' @ nl @
     event_descriptions"

end
