(* ===== verification/Delivery.thy ===== *)
theory Delivery
  imports Reader
begin

text \<open>
  What a program sees that asks for one event after the other (\<open>next_event\<close> of \<open>inotify.rs\<close>): while
  events are pending it gets the first that passes the filter, and when none is left the answer of
  the next poll. Both programs' main loops rest on these two facts.
\<close>

text \<open>The path of an event in inotify mode.\<close>

definition inotify_path :: "'w machine \<Rightarrow> event \<Rightarrow> event_path" where
  "inotify_path s ev = \<lparr>ep_filename = wd_path s (ev_wd ev), ep_dirnamelen = length (wd_path s (ev_wd ev)),
     ep_eventname = (if ev_len ev > 0 then ev_name ev else [])\<rparr>"

lemma filename_from_event_inotify:
  "inotify_table s \<Longrightarrow> filename_from_event os ev s = Some (inotify_path s ev, s)"
  by (simp add: filename_from_event_plain inotify_path_def)

lemma wd_path_same:
  assumes "event_text s = event_text s'"
  shows "wd_path s = wd_path s'"
proof
  fix wd
  have "event_text s (event_default\<lparr>ev_wd := wd\<rparr>) = event_text s' (event_default\<lparr>ev_wd := wd\<rparr>)"
    by (simp only: assms)
  then show "wd_path s wd = wd_path s' wd" by (simp add: event_text_def event_default_def)
qed

lemma inotify_path_same: "event_text s = event_text s' \<Longrightarrow> inotify_path s = inotify_path s'"
  using wd_path_same [of s s'] by (simp add: inotify_path_def fun_eq_iff)

text \<open>Fields that the reader, counting and formatting leave alone.\<close>

lemma reader_moved_more:
  assumes "reader_moved s s'"
  shows "fd s' = fd s" "c_stdout s' = c_stdout s" "c_stderr s' = c_stderr s"
proof -
  have eq: "s'\<lparr>error := error s, ret_off := ret_off s, first_byte := first_byte s, bytes := bytes s,
       this_bytes := this_bytes s\<rparr> = s" using assms by (simp add: reader_moved_def)
  show "fd s' = fd s" using arg_cong [OF eq, of fd] by simp
  show "c_stdout s' = c_stdout s" using arg_cong [OF eq, of c_stdout] by simp
  show "c_stderr s' = c_stderr s" using arg_cong [OF eq, of c_stderr] by simp
qed

lemma counted_more:
  "fd (counted e s) = fd s" "c_stdout (counted e s) = c_stdout s" "c_stderr (counted e s) = c_stderr s"
  "timefmt (counted e s) = timefmt s"
  by (auto simp: counted_def record_stats_def split: option.splits)

lemma formats_reader:
  assumes "formats s t" and "inotify_table s"
  shows "inotify_table t" "pending t evs = pending s evs" "event_text t = event_text s"
    "passes os t = passes os s" "fd t = fd s"
proof -
  note f = formats_fields [OF assms(1)]
  have tx: "event_text t ev = event_text s ev" for ev
    by (simp add: event_text_def wd_path_def watch_from_wd_def f split: option.split)
  then show "event_text t = event_text s" by (rule ext)
  show "passes os t = passes os s" by (rule ext) (simp add: passes_def f tx split: option.split)
  show "inotify_table t" using assms(2) by (simp add: inotify_table_def table_inv_def f)
  show "pending t evs = pending s evs" by (simp add: pending_def bytes_at_def f)
  show "fd t = fd s" by (rule f)
qed

text \<open>Pending events that can be delivered.\<close>

definition deliverable :: "'w machine \<Rightarrow> event list \<Rightarrow> bool" where
  "deliverable s evs \<longleftrightarrow>
     inotify_table s \<and> pending s evs \<and>
     (\<forall>x\<in>set evs. valid_event x \<and> length (event_text s x) < MAX_STRLEN)"

lemma deliverableI:
  "inotify_table s \<Longrightarrow> pending s evs \<Longrightarrow> \<forall>x\<in>set evs. valid_event x \<Longrightarrow>
     \<forall>x\<in>set evs. length (event_text s x) < MAX_STRLEN \<Longrightarrow> deliverable s evs"
  by (simp add: deliverable_def)

lemma deliverable_inotify: "deliverable s evs \<Longrightarrow> inotify_table s"
  by (simp add: deliverable_def)

lemma deliverable_formats: "formats s t \<Longrightarrow> deliverable s evs \<Longrightarrow> deliverable t evs"
  using formats_reader [of s t] by (simp add: deliverable_def)

lemma next_event_loop:
  "initialized s \<Longrightarrow> next_event os fuel timeout s =
     map_option (\<lambda>(ok, s). (if ok then Some (current_event s) else None, s))
       (next_events_loop os fuel (if timeout = 0 then -1 else timeout) 1 s)"
  by (cases "next_events_loop os fuel (if timeout = 0 then -1 else timeout) 1 s")
    (auto simp: next_event_def next_events_def next_events_raw_def niceassert_def MAX_EVENTS_def)

text \<open>The state after the delivery of an event.\<close>

definition delivered :: "'w os \<Rightarrow> event \<Rightarrow> 'w machine \<Rightarrow> 'w machine \<Rightarrow> bool" where
  "delivered os ev s t \<longleftrightarrow>
     (\<exists>s1. reader_moved s s1 \<and> t = counted ev s1) \<and> inotify_table t \<and> event_text t = event_text s \<and>
     passes os t = passes os s \<and> world t = world s \<and> fd t = fd s \<and> c_stdout t = c_stdout s \<and>
     c_stderr t = c_stderr s"

lemma deliveredD:
  assumes "delivered os ev s t"
  shows "inotify_table t" "event_text t = event_text s" "passes os t = passes os s"
    "world t = world s" "fd t = fd s" "c_stdout t = c_stdout s" "c_stderr t = c_stderr s"
    "inotify_path t = inotify_path s"
  using assms inotify_path_same [of t s] by (simp_all add: delivered_def)

lemma next_event_first:
  assumes d: "deliverable s evs" and e: "e \<in> set evs" "passes os s e" and fuel: "length evs < fuel"
  obtains pre x es t where "evs = pre @ x # es" and "filter (passes os s) pre = []" and "passes os s x"
    and "next_event os fuel timeout s = Some (Some x, t)" and "delivered os x s t" and "deliverable t es"
proof -
  from e obtain pre x es where evs: "evs = pre @ x # es" "passes os s x" "\<forall>y\<in>set pre. \<not> passes os s y"
    by (metis split_list_first_propE)
  have "\<exists>s1. reader_moved s s1 \<and> pending s1 es \<and> current_event s1 = x \<and>
     next_events_loop os fuel (if timeout = 0 then -1 else timeout) 1 s = Some (True, counted x s1)"
    using d evs fuel by (intro loop_pending [of s pre x es]) (auto simp: deliverable_def)
  then obtain s1 where s1: "reader_moved s s1" "pending s1 es" "current_event s1 = x"
    "next_events_loop os fuel (if timeout = 0 then -1 else timeout) 1 s = Some (True, counted x s1)"
    by blast
  note same = reader_moved_same [OF s1(1)] reader_moved_fields(10) [OF s1(1)] reader_moved_more [OF s1(1)]
  have t1: "inotify_table s1" using d same by (simp add: deliverable_def)
  note c = counted_reader [OF t1] counted_more [of x s1]
  have "next_event os fuel timeout s = Some (Some x, counted x s1)"
    using next_event_loop [of s os fuel timeout] d s1(3,4) c(2)
    by (simp add: deliverable_def inotify_table_def)
  moreover have "delivered os x s (counted x s1)"
    using s1(1) c same by (auto simp: delivered_def)
  moreover have "deliverable (counted x s1) es"
    using d evs(1) s1(2) c same by (simp add: deliverable_def)
  moreover have "filter (passes os s) pre = []" using evs(3) by (simp add: filter_empty_conv)
  ultimately show ?thesis using evs that by blast
qed

text \<open>Events that do not pass the filter are skipped, up to the next poll.\<close>

lemma loop_skip:
  "deliverable s evs \<Longrightarrow> \<forall>x\<in>set evs. \<not> passes os s x \<Longrightarrow> length evs < fuel \<Longrightarrow>
     \<exists>s1 f. reader_moved s s1 \<and> first_byte s1 = 0 \<and> Suc f + length evs = fuel \<and>
       next_events_loop os fuel timeout num_events s = next_events_loop os (Suc f) timeout num_events s1"
proof (induction evs arbitrary: s fuel)
  case Nil
  then obtain f where f: "fuel = Suc f" by (cases fuel) auto
  have "first_byte s = 0" using Nil(1) by (simp add: deliverable_def pending_def)
  moreover have "reader_moved s s" by (simp add: reader_moved_def)
  ultimately show ?case unfolding f by auto
next
  case (Cons x evs)
  then obtain f where f: "fuel = Suc f" by (cases fuel) auto
  from Cons.prems step_pending [of s x evs os fuel timeout num_events] obtain s1 where
    s1: "reader_moved s s1" "pending s1 evs"
      "next_event_step os fuel timeout num_events s = Some (Again, s1)" by (auto simp: deliverable_def)
  note same = reader_moved_same [OF s1(1)]
  have "\<exists>s2 k. reader_moved s1 s2 \<and> first_byte s2 = 0 \<and> Suc k + length evs = f \<and>
      next_events_loop os f timeout num_events s1 = next_events_loop os (Suc k) timeout num_events s2"
    using Cons.prems s1(2) f by (intro Cons.IH) (simp_all add: same deliverable_def)
  then obtain s2 k where s2: "reader_moved s1 s2" "first_byte s2 = 0" "Suc k + length (x # evs) = fuel"
    "next_events_loop os f timeout num_events s1 = next_events_loop os (Suc k) timeout num_events s2"
    by (auto simp: f)
  moreover have "next_events_loop os fuel timeout num_events s = next_events_loop os f timeout num_events s1"
    using s1(3) by (simp add: f)
  ultimately show ?case using reader_moved_trans [OF s1(1) s2(1)] by metis
qed

text \<open>Nothing left: the answer of the poll, no event when it fails or times out.\<close>

definition idle :: "int \<Rightarrow> 'w \<Rightarrow> 'w machine \<Rightarrow> 'w machine \<Rightarrow> bool" where
  "idle e w s t \<longleftrightarrow>
     error t = e \<and> world t = w \<and> (\<exists>s1. reader_moved s s1 \<and> t = s1\<lparr>error := e, world := w\<rparr>)"

lemma idleD:
  assumes "idle e w s t"
  shows "error t = e" "world t = w" "c_stdout t = c_stdout s" "c_stderr t = c_stderr s"
    "watches t = watches s" "by_wd t = by_wd s" "totals t = totals s" "collect_stats t = collect_stats s"
    "inotify_table t = inotify_table s"
proof -
  from assms obtain s1 where s1: "reader_moved s s1" "t = s1\<lparr>error := e, world := w\<rparr>"
    by (auto simp: idle_def)
  note f = reader_moved_fields [OF s1(1)] reader_moved_more [OF s1(1)] reader_moved_same(1) [OF s1(1)]
  show "error t = e" "world t = w" using s1(2) by simp_all
  show "c_stdout t = c_stdout s" "c_stderr t = c_stderr s" "watches t = watches s" "by_wd t = by_wd s"
    "totals t = totals s" "collect_stats t = collect_stats s"
    using s1(2) f by simp_all
  show "inotify_table t = inotify_table s"
    unfolding f(21) [symmetric] unfolding s1(2) by (simp add: inotify_table_def table_inv_def)
qed

lemma next_event_none:
  assumes d: "deliverable s evs" and none: "filter (passes os s) evs = []" and fuel: "length evs < fuel"
    and poll: "os_ppoll os (fd s) (if timeout = 0 then -1 else timeout) (world s) = ((rc, e), w)" "rc \<le> 0"
  shows "\<exists>t. next_event os fuel timeout s = Some (None, t) \<and> idle (if rc = 0 then 0 else e) w s t"
proof -
  let ?t = "if timeout = 0 then -1 else timeout"
  from loop_skip [OF d _ fuel, of os ?t 1] none obtain s1 f where
    s1: "reader_moved s s1" "first_byte s1 = 0"
      "next_events_loop os fuel ?t 1 s = next_events_loop os (Suc f) ?t 1 s1"
    by (auto simp: filter_empty_conv)
  note same = reader_moved_fields(10) [OF s1(1)] reader_moved_more(1) [OF s1(1)]
  let ?u = "s1\<lparr>error := (if rc = 0 then 0 else e), bytes := 0, world := w\<rparr>"
  have "next_events_loop os (Suc f) ?t 1 s1 = Some (False, ?u)"
    using poll s1(2) same
    by (auto simp: next_event_step_def take_buffered_def read_more_def sys_def set_error_def)
  with s1(3) d have "next_event os fuel timeout s = Some (None, ?u)"
    using next_event_loop [of s os fuel timeout]
    by (simp add: deliverable_def inotify_table_def del: next_events_loop.simps)
  moreover have "reader_moved s (s1\<lparr>bytes := 0\<rparr>)"
    using s1(1) by (simp add: reader_moved_def)
  then have "idle (if rc = 0 then 0 else e) w s ?u"
    unfolding idle_def by (intro conjI exI [of _ "s1\<lparr>bytes := 0\<rparr>"]) simp_all
  ultimately show ?thesis by blast
qed

end
