(* ===== verification/Feed.thy ===== *)
theory Feed
  imports Delivery
begin

text \<open>
  Monitoring a kernel that hands over batch after batch. \<open>queued w bs\<close> says that in the world \<open>w\<close> the
  batches that reads will return are \<open>bs\<close>; \<open>feeds\<close> says how the calls of the reader (\<open>ppoll\<close>,
  \<open>FIONREAD\<close>, \<open>read\<close>, documented in \<open>inotify(7)\<close>) answer then. A program that asks for one event after
  the other gets the events of all batches that pass the filter, in order, across the reads.
\<close>

subsection \<open>The kernel\<close>

text \<open>\<open>stop\<close> is the answer of the poll when nothing is left: a timeout, or an interruption.\<close>

definition feeds ::
  "'w os \<Rightarrow> ('w \<Rightarrow> event list list \<Rightarrow> bool) \<Rightarrow> int \<Rightarrow> int \<Rightarrow> (int \<times> int \<Rightarrow> 'w \<Rightarrow> bool) \<Rightarrow> bool" where
  "feeds os queued d timeout stop \<longleftrightarrow>
     (\<forall>w. queued w [] \<longrightarrow> (\<exists>rc e w'. os_ppoll os d timeout w = ((rc, e), w') \<and> rc \<le> 0 \<and> stop (rc, e) w')) \<and>
     (\<forall>w b bs. queued w (b # bs) \<longrightarrow>
        (\<exists>e w' e' n w'' e'' w'''. os_ppoll os d timeout w = ((1, e), w') \<and>
           os_fionread os d w' = ((0, e', n), w'') \<and> EVENT_SIZE \<le> unat n \<and>
           os_read os d (MAX_EVENTS * EVENT_SIZE) w'' =
             ((int (length (encode_events b)), e'', encode_events b), w''') \<and> queued w''' bs))"

text \<open>A batch is not empty and fits the buffer.\<close>

definition batch_ok :: "event list \<Rightarrow> bool" where
  "batch_ok b \<longleftrightarrow> b \<noteq> [] \<and> length (encode_events b) \<le> MAX_EVENTS * EVENT_SIZE"

text \<open>Events waiting in the buffer, and behind them in the kernel.\<close>

definition waiting :: "('w \<Rightarrow> event list list \<Rightarrow> bool) \<Rightarrow> 'w machine \<Rightarrow> event list \<Rightarrow> event list list \<Rightarrow> bool" where
  "waiting queued s evs bs \<longleftrightarrow>
     inotify_table s \<and> pending s evs \<and> queued (world s) bs \<and> (\<forall>b\<in>set bs. batch_ok b) \<and>
     (\<forall>x\<in>set (evs @ concat bs). valid_event x \<and> length (event_text s x) < MAX_STRLEN)"

lemma waitingD:
  assumes "waiting queued s evs bs"
  shows "inotify_table s" "pending s evs" "queued (world s) bs" "\<forall>b\<in>set bs. batch_ok b"
    "\<forall>x\<in>set (evs @ concat bs). valid_event x" "\<forall>x\<in>set (evs @ concat bs). length (event_text s x) < MAX_STRLEN"
    "deliverable s evs"
  using assms by (auto simp: waiting_def deliverable_def)

lemma waiting_again:
  "waiting queued s evs bs \<Longrightarrow> inotify_table t \<Longrightarrow> event_text t = event_text s \<Longrightarrow> pending t es \<Longrightarrow>
     queued (world t) cs \<Longrightarrow> set es \<subseteq> set (evs @ concat bs) \<Longrightarrow> set cs \<subseteq> set bs \<Longrightarrow> waiting queued t es cs"
  unfolding waiting_def by (fastforce dest: subsetD)

lemma waiting_inotify: "waiting queued s evs bs \<Longrightarrow> inotify_table s"
  by (rule waitingD)

lemma waiting_world:
  "waiting queued s evs bs \<Longrightarrow> inotify_table t \<Longrightarrow> pending t = pending s \<Longrightarrow> event_text t = event_text s \<Longrightarrow>
     world t = world s \<Longrightarrow> waiting queued t evs bs"
  by (simp add: waiting_def)

lemma feedsD:
  assumes "feeds os queued d timeout stop"
  shows "queued w [] \<Longrightarrow> \<exists>rc e w'. os_ppoll os d timeout w = ((rc, e), w') \<and> rc \<le> 0 \<and> stop (rc, e) w'"
    and "queued w (b # bs) \<Longrightarrow> \<exists>e w' e' n w'' e'' w'''. os_ppoll os d timeout w = ((1, e), w') \<and>
           os_fionread os d w' = ((0, e', n), w'') \<and> EVENT_SIZE \<le> unat n \<and>
           os_read os d (MAX_EVENTS * EVENT_SIZE) w'' =
             ((int (length (encode_events b)), e'', encode_events b), w''') \<and> queued w''' bs"
  using assms by (simp_all add: feeds_def)

subsection \<open>What stays the same\<close>

lemma reader_moved_fed: "reader_moved s t \<Longrightarrow> fed s t"
proof -
  assume r: "reader_moved s t"
  have "evbuf t = evbuf s" "world t = world s" using reader_moved_fields [OF r] by simp_all
  then have "t\<lparr>error := error s, ret_off := ret_off s, first_byte := first_byte s, bytes := bytes s,
       this_bytes := this_bytes s, evbuf := evbuf s, world := world s\<rparr> =
     t\<lparr>error := error s, ret_off := ret_off s, first_byte := first_byte s, bytes := bytes s,
       this_bytes := this_bytes s\<rparr>" by simp
  with r show "fed s t" unfolding fed_def reader_moved_def by simp
qed

lemma fed_trans:
  assumes "fed s t" and "fed t u"
  shows "fed s u"
proof -
  from assms(2) have u: "u\<lparr>error := error t, ret_off := ret_off t, first_byte := first_byte t,
      bytes := bytes t, this_bytes := this_bytes t, evbuf := evbuf t, world := world t\<rparr> = t"
    by (simp add: fed_def)
  from assms(1) have "t\<lparr>error := error s, ret_off := ret_off s, first_byte := first_byte s,
      bytes := bytes s, this_bytes := this_bytes s, evbuf := evbuf s, world := world s\<rparr> = s"
    by (simp add: fed_def)
  then show ?thesis
    unfolding fed_def by (subst (asm) u [symmetric]) simp
qed

lemma fed_fields:
  assumes "fed s t"
  shows "watches t = watches s" "by_wd t = by_wd s" "by_fid t = by_fid s" "by_filename t = by_filename s"
    "next_id t = next_id s" "next_fanotify_wd t = next_fanotify_wd s" "initialized t = initialized s"
    "evstr t = evstr s" "regex t = regex s" "invert_regexp t = invert_regexp s"
    "recursive_watch t = recursive_watch s" "collect_stats t = collect_stats s" "totals t = totals s"
    "fanotify_mode t = fanotify_mode s" "fd t = fd s" "c_stdout t = c_stdout s" "c_stderr t = c_stderr s"
    "timefmt t = timefmt s"
proof -
  have eq: "t\<lparr>error := error s, ret_off := ret_off s, first_byte := first_byte s, bytes := bytes s,
       this_bytes := this_bytes s, evbuf := evbuf s, world := world s\<rparr> = s"
    using assms by (simp add: fed_def)
  show "watches t = watches s" using arg_cong [OF eq, of watches] by simp
  show "by_wd t = by_wd s" using arg_cong [OF eq, of by_wd] by simp
  show "by_fid t = by_fid s" using arg_cong [OF eq, of by_fid] by simp
  show "by_filename t = by_filename s" using arg_cong [OF eq, of by_filename] by simp
  show "next_id t = next_id s" using arg_cong [OF eq, of next_id] by simp
  show "next_fanotify_wd t = next_fanotify_wd s" using arg_cong [OF eq, of next_fanotify_wd] by simp
  show "initialized t = initialized s" using arg_cong [OF eq, of initialized] by simp
  show "evstr t = evstr s" using arg_cong [OF eq, of evstr] by simp
  show "regex t = regex s" using arg_cong [OF eq, of regex] by simp
  show "invert_regexp t = invert_regexp s" using arg_cong [OF eq, of invert_regexp] by simp
  show "recursive_watch t = recursive_watch s" using arg_cong [OF eq, of recursive_watch] by simp
  show "collect_stats t = collect_stats s" using arg_cong [OF eq, of collect_stats] by simp
  show "totals t = totals s" using arg_cong [OF eq, of totals] by simp
  show "fanotify_mode t = fanotify_mode s" using arg_cong [OF eq, of fanotify_mode] by simp
  show "fd t = fd s" using arg_cong [OF eq, of fd] by simp
  show "c_stdout t = c_stdout s" using arg_cong [OF eq, of c_stdout] by simp
  show "c_stderr t = c_stderr s" using arg_cong [OF eq, of c_stderr] by simp
  show "timefmt t = timefmt s" using arg_cong [OF eq, of timefmt] by simp
qed

lemma fed_same:
  assumes "fed s t"
  shows "inotify_table t = inotify_table s" "passes os t = passes os s" "event_text t = event_text s"
proof -
  note f = fed_fields [OF assms]
  have tx: "event_text t ev = event_text s ev" for ev
    by (simp add: event_text_def wd_path_def watch_from_wd_def f split: option.split)
  then show "event_text t = event_text s" by (rule ext)
  show "passes os t = passes os s" by (rule ext) (simp add: passes_def f tx split: option.split)
  show "inotify_table t = inotify_table s" by (simp add: inotify_table_def table_inv_def f)
qed

subsection \<open>One event after the other\<close>

text \<open>With nothing in the buffer, a step reads the next batch and looks at its first event.\<close>

lemma step_feed:
  assumes w: "waiting queued s [] ((x # xs) # bs)" and k: "feeds os queued (fd s) timeout stop"
  shows "\<exists>s1. fed s s1 \<and> current_event s1 = x \<and> waiting queued s1 xs bs \<and>
    next_event_step os (Suc f) timeout 1 s = Some (if passes os s x then (Event, counted x s1) else (Again, s1))"
proof -
  note wd = waitingD [OF w]
  have empty: "first_byte s = 0" using wd(2) by (simp add: pending_def)
  have v: "\<forall>y\<in>set (x # xs). valid_event y" and fits: "length (event_text s x) < MAX_STRLEN"
    using wd(5,6) by auto
  have data: "length (encode_events (x # xs)) \<le> MAX_EVENTS * EVENT_SIZE" "encode_events (x # xs) \<noteq> []"
    using wd(4) v length_encode_event [of x] by (auto simp: batch_ok_def EVENT_SIZE_def)
  from feedsD(2) [OF k wd(3)] obtain e w1 e' n w2 e'' w3 where
    poll: "os_ppoll os (fd s) timeout (world s) = ((1, e), w1)"
    and avail: "os_fionread os (fd s) w1 = ((0, e', n), w2)" "EVENT_SIZE \<le> unat n"
    and read: "os_read os (fd s) (MAX_EVENTS * EVENT_SIZE) w2 =
      ((int (length (encode_events (x # xs))), e'', encode_events (x # xs)), w3)"
    and q: "queued w3 bs" by blast
  have room: "int EVENT_SIZE * 1 \<le> int (unat n)"
    using avail(2) by (simp only: mult_1_right of_nat_le_iff)
  from read_loaded [OF wd(1) empty v data poll _ avail(1) room read, of f] obtain src s0 s1 where
    s1: "take_buffered (set_error 0 s) = Some (src, s0)"
      "(case src of Buffered \<Rightarrow> Some (True, s0)
        | Must_read \<Rightarrow> read_more os (Suc f) timeout 1 s0) = Some (True, s1)"
      "loaded s1 (x # xs)" "world s1 = w3" "inotify_table s1" "event_text s1 = event_text s"
      "passes os s1 = passes os s" "fed s s1" by (auto split: option.splits)
  from deliver_loaded [OF s1(5,3) v, of os] fits s1(6) obtain s2 where
    s2: "reader_moved s1 s2" "pending s2 xs" "current_event s2 = x"
      "deliver os s1 = Some (if passes os s x then (Event, counted x s2) else (Again, s2))"
    by (auto simp: s1(7))
  have f: "fed s s2" by (rule fed_trans [OF s1(8) reader_moved_fed [OF s2(1)]])
  have "waiting queued s2 xs bs"
    using waiting_again [OF w _ _ s2(2), of bs] fed_same [OF f] wd(1) s1(4) q reader_moved_fields(10) [OF s2(1)]
    by auto
  moreover have "next_event_step os (Suc f) timeout 1 s = deliver os s1"
    using s1(1,2) by (simp add: next_event_step_def)
  ultimately show ?thesis using f s2(3,4) by auto
qed

text \<open>The call ends with the first event that passes, or, when there is none, with the timeout.\<close>

definition feed_result ::
  "'w os \<Rightarrow> ('w \<Rightarrow> event list list \<Rightarrow> bool) \<Rightarrow> (int \<times> int \<Rightarrow> 'w \<Rightarrow> bool) \<Rightarrow> 'w machine \<Rightarrow> event list \<Rightarrow>
    (bool \<times> 'w machine) option \<Rightarrow> bool" where
  "feed_result os queued stop s all r \<longleftrightarrow>
     (\<exists>rc e s1. filter (passes os s) all = [] \<and> r = Some (False, s1) \<and> fed s s1 \<and>
        stop (rc, e) (world s1) \<and> error s1 = (if rc = 0 then 0 else e)) \<or>
     (\<exists>pre x es cs s1. all = pre @ x # es @ concat cs \<and> filter (passes os s) pre = [] \<and>
        passes os s x \<and> r = Some (True, counted x s1) \<and> current_event s1 = x \<and> fed s s1 \<and>
        waiting queued s1 es cs)"

lemma feed_result_none:
  "filter (passes os s) all = [] \<Longrightarrow> fed s s1 \<Longrightarrow> stop (rc, e) (world s1) \<Longrightarrow>
     error s1 = (if rc = 0 then 0 else e) \<Longrightarrow> feed_result os queued stop s all (Some (False, s1))"
  unfolding feed_result_def by blast

lemma feed_result_event:
  "filter (passes os s) pre = [] \<Longrightarrow> passes os s x \<Longrightarrow> current_event s1 = x \<Longrightarrow> fed s s1 \<Longrightarrow>
     waiting queued s1 es cs \<Longrightarrow>
     feed_result os queued stop s (pre @ x # es @ concat cs) (Some (True, counted x s1))"
  unfolding feed_result_def by blast

lemma feed_resultE:
  assumes "feed_result os queued stop s all r"
  obtains (none) rc e s1 where "filter (passes os s) all = []" and "r = Some (False, s1)" and "fed s s1"
      and "stop (rc, e) (world s1)" and "error s1 = (if rc = 0 then 0 else e)"
    | (event) pre x es cs s1 where "all = pre @ x # es @ concat cs" and "filter (passes os s) pre = []"
      and "passes os s x" and "r = Some (True, counted x s1)" and "current_event s1 = x" and "fed s s1"
      and "waiting queued s1 es cs"
  using assms unfolding feed_result_def by blast

lemma feed_result_skip:
  assumes r: "feed_result os queued stop t all r" and f: "fed s t" and skip: "filter (passes os s) pre = []"
  shows "feed_result os queued stop s (pre @ all) r"
  using r
proof (cases rule: feed_resultE)
  case (none rc e s1)
  then show ?thesis
    using skip fed_trans [OF f] feed_result_none [of os s "pre @ all" s1 stop rc e queued]
    by (simp add: fed_same(2) [OF f])
next
  case (event q x es cs s1)
  then show ?thesis
    using feed_result_event [of os s "pre @ q" x s1 queued es cs stop] skip fed_trans [OF f]
    by (simp add: fed_same(2) [OF f])
qed

lemma loop_feed_pending:
  assumes w: "waiting queued s evs bs" and e: "e \<in> set evs" "passes os s e" and fuel: "length evs < fuel"
  shows "feed_result os queued stop s (evs @ concat bs) (next_events_loop os fuel timeout 1 s)"
proof -
  note wd = waitingD [OF w]
  from e obtain pre x es where evs: "evs = pre @ x # es" "passes os s x" "\<forall>y\<in>set pre. \<not> passes os s y"
    by (metis split_list_first_propE)
  have "\<exists>s1. reader_moved s s1 \<and> pending s1 es \<and> current_event s1 = x \<and>
     next_events_loop os fuel timeout 1 s = Some (True, counted x s1)"
    using wd evs fuel by (intro loop_pending [of s pre x es]) auto
  then obtain s1 where s1: "reader_moved s s1" "pending s1 es" "current_event s1 = x"
    "next_events_loop os fuel timeout 1 s = Some (True, counted x s1)" by blast
  note f = reader_moved_fed [OF s1(1)]
  have "waiting queued s1 es bs"
    using waiting_again [OF w _ _ s1(2), of bs] fed_same [OF f] wd(1,3) reader_moved_fields(10) [OF s1(1)] evs(1)
    by auto
  then show ?thesis
    using feed_result_event [of os s pre x s1 queued es bs stop] evs s1(3,4) f by (simp add: filter_empty_conv)
qed

lemma loop_feed_skip:
  assumes w: "waiting queued s evs bs" and none: "filter (passes os s) evs = []" and fuel: "length evs < fuel"
  shows "\<exists>s1 f. fed s s1 \<and> waiting queued s1 [] bs \<and> Suc f + length evs = fuel \<and>
    next_events_loop os fuel timeout 1 s = next_events_loop os (Suc f) timeout 1 s1"
proof -
  note wd = waitingD [OF w]
  from loop_skip [OF wd(7) _ fuel, of os timeout 1] none obtain s1 f where
    s1: "reader_moved s s1" "first_byte s1 = 0" "Suc f + length evs = fuel"
      "next_events_loop os fuel timeout 1 s = next_events_loop os (Suc f) timeout 1 s1"
    by (auto simp: filter_empty_conv)
  note f = reader_moved_fed [OF s1(1)]
  have "pending s1 []" using s1(2) by (simp add: pending_def)
  then have "waiting queued s1 [] bs"
    using waiting_again [OF w, of s1 "[]" bs] fed_same [OF f] wd(1,3) reader_moved_fields(10) [OF s1(1)] by simp
  with f s1(3,4) show ?thesis by metis
qed

lemma loop_feed:
  "waiting queued s evs bs \<Longrightarrow> feeds os queued (fd s) timeout stop \<Longrightarrow> length (evs @ concat bs) < fuel \<Longrightarrow>
     feed_result os queued stop s (evs @ concat bs) (next_events_loop os fuel timeout 1 s)"
proof (induction bs arbitrary: s evs fuel)
  case Nil
  show ?case
  proof (cases "filter (passes os s) evs = []")
    case False
    then show ?thesis using loop_feed_pending [OF Nil(1)] Nil(3) by (auto simp: filter_empty_conv)
  next
    case True
    have "length evs < fuel" using Nil(3) by simp
    from loop_feed_skip [OF Nil(1) True this, of timeout] obtain s1 f where
      s1: "fed s s1" "waiting queued s1 [] []"
        "next_events_loop os fuel timeout 1 s = next_events_loop os (Suc f) timeout 1 s1" by metis
    note wd = waitingD [OF s1(2)]
    from feedsD(1) [OF Nil(2) wd(3)] fed_fields(15) [OF s1(1)] obtain rc e w where
      poll: "os_ppoll os (fd s1) timeout (world s1) = ((rc, e), w)" "rc \<le> 0" "stop (rc, e) w" by auto
    let ?t = "s1\<lparr>error := (if rc = 0 then 0 else e), bytes := 0, world := w\<rparr>"
    have "next_events_loop os (Suc f) timeout 1 s1 = Some (False, ?t)"
      using wd(2) poll(1,2) by (simp add: pending_def next_event_step_def take_buffered_def read_more_def sys_def set_error_def)
    moreover have "fed s ?t"
      using s1(1) by (rule fed_trans) (simp add: fed_def)
    ultimately show ?thesis
      using True s1(3) poll(3) feed_result_none [of os s "evs @ concat []" ?t stop rc e queued] by simp
  qed
next
  case (Cons b bs)
  show ?case
  proof (cases "filter (passes os s) evs = []")
    case False
    then show ?thesis using loop_feed_pending [OF Cons(2)] Cons(4) by (auto simp: filter_empty_conv)
  next
    case True
    have "length evs < fuel" using Cons(4) by simp
    from loop_feed_skip [OF Cons(2) True this, of timeout] obtain s1 f where
      s1: "fed s s1" "waiting queued s1 [] (b # bs)" "Suc f + length evs = fuel"
        "next_events_loop os fuel timeout 1 s = next_events_loop os (Suc f) timeout 1 s1" by metis
    from waitingD(4) [OF s1(2)] obtain x xs where b: "b = x # xs"
      by (cases b) (auto simp: batch_ok_def)
    have k: "feeds os queued (fd s1) timeout stop" using Cons(3) fed_fields(15) [OF s1(1)] by simp
    from step_feed [OF s1(2) [unfolded b] k, of f] obtain s2 where
      s2: "fed s1 s2" "current_event s2 = x" "waiting queued s2 xs bs"
        "next_event_step os (Suc f) timeout 1 s1 = Some (if passes os s1 x then (Event, counted x s2) else (Again, s2))"
      by blast
    have "feed_result os queued stop s1 (concat (b # bs)) (next_events_loop os (Suc f) timeout 1 s1)"
    proof (cases "passes os s1 x")
      case True
      then show ?thesis using s2 feed_result_event [of os s1 "[]" x s2 queued xs bs stop] b by simp
    next
      case False
      have "feed_result os queued stop s2 (xs @ concat bs) (next_events_loop os f timeout 1 s2)"
        using s2(3) k fed_fields(15) [OF s2(1)] Cons(4) s1(3) b by (intro Cons.IH) simp_all
      then show ?thesis
        using False s2 feed_result_skip [OF _ s2(1), of os queued stop "xs @ concat bs" _ "[x]"] b by simp
    qed
    then show ?thesis
      using feed_result_skip [OF _ s1(1) True] s1(4) by simp
  qed
qed

subsection \<open>All batches\<close>

lemma fed_counts: "fed s t \<Longrightarrow> same_counts s t"
  by (simp add: same_counts_def fed_fields)

lemma take_events_feed:
  "waiting queued s evs bs \<Longrightarrow> feeds os queued (fd s) (if timeout = 0 then -1 else timeout) stop \<Longrightarrow>
     length (evs @ concat bs) < fuel \<Longrightarrow>
     \<exists>s' rc e. take_events os fuel timeout (Suc (length (filter (passes os s) (evs @ concat bs)))) s =
         Some (map Some (filter (passes os s) (evs @ concat bs)) @ [None], s') \<and>
       stop (rc, e) (world s') \<and> error s' = (if rc = 0 then 0 else e) \<and>
       same_counts (counting (filter (passes os s) (evs @ concat bs)) s) s'"
proof (induction "length (evs @ concat bs)" arbitrary: evs bs s rule: less_induct)
  case less
  let ?t = "if timeout = 0 then -1 else timeout"
  have ini: "initialized s" using waiting_inotify [OF less.prems(1)] by (simp add: inotify_table_def)
  note call = next_event_loop [OF ini, of os fuel timeout]
  from loop_feed [OF less.prems] show ?case
  proof (cases rule: feed_resultE)
    case (none rc e s1)
    then show ?thesis
      using call fed_counts [OF none(3)] by (intro exI [of _ s1] exI [of _ rc] exI [of _ e]) simp
  next
    case (event pre x es cs s1)
    let ?u = "counted x s1"
    note t1 = waiting_inotify [OF event(7)] and f = fed_same [OF event(6)]
    note c = counted_reader [OF t1]
    have w: "waiting queued ?u es cs"
      using c by (intro waiting_world [OF event(7)]) (auto simp: fun_eq_iff)
    have p: "passes os ?u = passes os s" by (rule ext) (simp add: c f)
    have "feeds os queued (fd ?u) ?t stop"
      using less.prems(2) fed_fields(15) [OF event(6)] by (simp only: counted_more)
    with w event(1) less.prems(3) have "\<exists>s' rc e.
        take_events os fuel timeout (Suc (length (filter (passes os ?u) (es @ concat cs)))) ?u =
         Some (map Some (filter (passes os ?u) (es @ concat cs)) @ [None], s') \<and>
       stop (rc, e) (world s') \<and> error s' = (if rc = 0 then 0 else e) \<and>
       same_counts (counting (filter (passes os ?u) (es @ concat cs)) ?u) s'"
      by (intro less.hyps) simp_all
    then obtain s' rc e where s': "take_events os fuel timeout (Suc (length (filter (passes os s) (es @ concat cs)))) ?u =
         Some (map Some (filter (passes os s) (es @ concat cs)) @ [None], s')" "stop (rc, e) (world s')"
       "error s' = (if rc = 0 then 0 else e)" "same_counts (counting (filter (passes os s) (es @ concat cs)) ?u) s'"
      unfolding p by blast
    define ys where "ys = filter (passes os s) (es @ concat cs)"
    have all: "filter (passes os s) (evs @ concat bs) = x # ys"
      using event(2,3) unfolding event(1) ys_def by simp
    have nx: "next_event os fuel timeout s = Some (Some x, ?u)"
      using call event(4,5) c(2) by simp
    have "take_events os fuel timeout (Suc (length (x # ys))) s = Some (map Some (x # ys) @ [None], s')"
      unfolding list.size take_events.simps(2) [of _ _ _ _ s] nx
      using s'(1) [folded ys_def] by (simp del: take_events.simps)
    moreover have "same_counts (counting (x # ys) s) s'"
      using same_counts_trans [OF same_counts_counting [OF counted_counting [OF fed_counts [OF event(6)]]] s'(4) [folded ys_def]]
      by (simp add: counting_Cons)
    ultimately show ?thesis using s'(2,3) unfolding all by blast
  qed
qed

text \<open>C26.
  Nothing is lost across reads: with events waiting in the buffer and a kernel that hands over batch
  after batch and then answers a poll with a timeout or an error, asking for one event after the
  other yields exactly the events of the buffer and of all batches that pass the filter, in order,
  and then no event, with \<open>error\<close> set to 0 after a timeout and to the poll's \<open>errno\<close> otherwise. When
  statistics are collected, each delivered event has been counted once; otherwise no counter has
  changed.\<close>

theorem all_batches_delivered:
  assumes w: "waiting queued s evs bs" and passed: "passed = filter (passes os s) (evs @ concat bs)"
    and kernel: "feeds os queued (fd s) (if timeout = 0 then -1 else timeout) stop"
    and fuel: "length (evs @ concat bs) < fuel"
  shows "\<exists>s' rc e. take_events os fuel timeout (Suc (length passed)) s = Some (map Some passed @ [None], s') \<and>
    stop (rc, e) (world s') \<and> error s' = (if rc = 0 then 0 else e) \<and> counts_grown passed s s'"
  using take_events_feed [OF w kernel fuel] counting_grown waitingD(1) [OF w] unfolding passed by blast

text \<open>The same library in a world of its own.\<close>

definition at_world :: "'w \<Rightarrow> unit machine \<Rightarrow> 'w machine" where
  "at_world w s = inotifytools.extend (inotifytools.truncate s)
     \<lparr>world = w, c_stdout = c_stdout s, c_stderr = c_stderr s\<rparr>"

lemma at_world_fields:
  "watches (at_world w s) = watches s" "by_wd (at_world w s) = by_wd s" "by_fid (at_world w s) = by_fid s"
  "by_filename (at_world w s) = by_filename s" "next_id (at_world w s) = next_id s"
  "next_fanotify_wd (at_world w s) = next_fanotify_wd s" "initialized (at_world w s) = initialized s"
  "fanotify_mode (at_world w s) = fanotify_mode s" "evstr (at_world w s) = evstr s"
  "evbuf (at_world w s) = evbuf s" "first_byte (at_world w s) = first_byte s" "bytes (at_world w s) = bytes s"
  "regex (at_world w s) = regex s" "totals (at_world w s) = totals s" "world (at_world w s) = w"
  by (simp_all add: at_world_def inotifytools.extend_def inotifytools.truncate_def)

lemma at_world_reader:
  "inotify_table (at_world w s) = inotify_table s" "pending (at_world w s) evs = pending s evs"
  "event_text (at_world w s) ev = event_text s ev"
  by (simp_all add: inotify_table_def table_inv_def pending_def bytes_at_def event_text_def wd_path_def
      watch_from_wd_def at_world_fields split: option.split)

text \<open>
  A kernel whose world is the queue of batches, and a library that counts the events of a directory:
  one event waits in the buffer, another one and one of an unwatched descriptor come in two reads.
\<close>

definition queue_os :: "event list list os" where
  "queue_os = quiet_os\<lparr>
     os_ppoll := (\<lambda>_ _ w. ((if w = [] then 0 else 1, 0), w)),
     os_fionread := (\<lambda>_ w. ((0, 0, 4096), w)),
     os_read := (\<lambda>_ _ w. case w of [] \<Rightarrow> ((0, 0, []), [])
       | b # bs \<Rightarrow> ((int (length (encode_events b)), 0, encode_events b), bs))\<rparr>"

definition queue_machine :: "event list list machine" where
  "queue_machine = (at_world [[two_events ! 1], [\<lparr>ev_wd = 4, ev_mask = IN_OPEN, ev_cookie = 0, ev_len = 0, ev_name = []\<rparr>]]
     (with_events [two_events ! 0]))\<lparr>collect_stats := True\<rparr>"

theorem all_batches_delivered_witness:
  "\<exists>s'. take_events queue_os 4 1 4 queue_machine = Some (map Some two_events @
      [Some \<lparr>ev_wd = 4, ev_mask = IN_OPEN, ev_cookie = 0, ev_len = 0, ev_name = []\<rparr>, None], s') \<and>
    world s' = [] \<and> error s' = 0 \<and> totals s' = stats_replay stats_default [IN_OPEN, IN_DELETE_SELF]"
proof -
  let ?s = queue_machine and ?e = "two_events ! 0" and ?x = "two_events ! 1"
  let ?y = "\<lparr>ev_wd = 4, ev_mask = IN_OPEN, ev_cookie = 0, ev_len = 0, ev_name = []\<rparr>"
  have v: "valid_event ?e" "valid_event ?x" "valid_event ?y"
    by (simp_all add: two_events_def valid_event_def)
  have len: "length (encode_events [?e]) \<le> 1000"
    using v(1) by (simp add: two_events_def length_encode_event EVENT_SIZE_def)
  note ok = with_events_ok [OF len]
  have frame: "inotify_table (s\<lparr>collect_stats := c\<rparr>) = inotify_table s"
    "pending (s\<lparr>collect_stats := c\<rparr>) evs = pending s evs" "event_text (s\<lparr>collect_stats := c\<rparr>) ev = event_text s ev"
    for s :: "event list list machine" and c evs ev
    by (simp_all add: inotify_table_def table_inv_def pending_def bytes_at_def event_text_def wd_path_def
        watch_from_wd_def split: option.split)
  have tx: "event_text ?s ev = (if ev_wd ev = 3 then ''/d/'' else []) @ (if ev_len ev > 0 then ev_name ev else [])" for ev
    using ok(3) by (simp add: queue_machine_def frame at_world_reader)
  have w: "waiting (=) ?s [?e] [[?x], [?y]]"
    unfolding waiting_def
  proof (intro conjI)
    show "inotify_table ?s" "pending ?s [?e]"
      using ok(1,2) by (simp_all add: queue_machine_def frame at_world_reader)
    show "world ?s = [[?x], [?y]]" by (simp add: queue_machine_def at_world_fields)
    show "\<forall>b\<in>set [[?x], [?y]]. batch_ok b"
      using v by (simp add: batch_ok_def length_encode_event size_defs) (simp add: two_events_def)
    show "\<forall>z\<in>set ([?e] @ concat [[?x], [?y]]). valid_event z \<and> length (event_text ?s z) < MAX_STRLEN"
      using v by (simp add: tx) (simp add: two_events_def MAX_STRLEN_def)
  qed
  have k: "feeds queue_os (=) (fd ?s) (if (1 :: int) = 0 then -1 else 1) (\<lambda>(rc, e) w. rc = 0 \<and> w = [])"
    by (auto simp: feeds_def queue_os_def EVENT_SIZE_def)
  have re: "regex ?s = None" by (simp add: queue_machine_def at_world_fields ok(4))
  have two: "two_events = [?e, ?x]" by (simp add: two_events_def)
  have p: "two_events @ [?y] = filter (passes queue_os ?s) ([?e] @ concat [[?x], [?y]])"
    by (subst two) (simp add: passes_def re)
  have fuel: "length ([?e] @ concat [[?x], [?y]]) < 4" by simp
  from all_batches_delivered [OF w p k fuel] obtain s' rc e where
    s': "take_events queue_os 4 1 (Suc (length (two_events @ [?y]))) ?s = Some (map Some (two_events @ [?y]) @ [None], s')"
      "rc = 0 \<and> world s' = []" "error s' = (if rc = 0 then 0 else e)" "counts_grown (two_events @ [?y]) ?s s'"
    by auto
  have "watch_from_wd ?s 3 = Some 1" "watch_from_wd ?s 4 = None"
    by (simp_all add: watch_from_wd_def bt_get_def queue_machine_def at_world_fields with_events_def Let_def one_watch_facts)
  moreover have "totals ?s = stats_default"
    by (simp add: queue_machine_def at_world_fields with_events_def Let_def wr_bytes_def one_watch_def register_def)
  moreover have "collect_stats ?s" by (simp add: queue_machine_def)
  ultimately have "totals s' = stats_replay stats_default [IN_OPEN, IN_DELETE_SELF]"
    using s'(4) by (simp add: counts_grown_def two_events_def)
  moreover have "Suc (length (two_events @ [?y])) = 4" by (simp add: two_events_def)
  ultimately show ?thesis using s'(1-3) by (intro exI [of _ s']) simp
qed

end
