(* ===== verification/WaitTool.thy ===== *)
theory WaitTool
  imports Help Feed
begin

text \<open>
  \<open>inotifywait\<close> (\<open>src/src/inotifywait.rs\<close>): its options, its output (CSV or a format), and the
  program. A stage of the program either ends it with an exit code (\<open>Inl\<close>) or goes on (\<open>Inr\<close>).
\<close>

subsection \<open>Options\<close>

record wait_opts =
  o_events :: u32
  o_monitor :: bool
  o_quiet :: int
  o_timeout :: int
  o_recursive :: int
  o_csv :: bool
  o_daemon :: bool
  o_syslog :: bool
  o_no_dereference :: bool
  o_format :: "string option"
  o_timefmt :: "string option"
  o_fromfile :: "string option"
  o_outfile :: "string option"
  o_filters :: filters
  o_no_newline :: bool
  o_fanotify :: bool
  o_filesystem :: bool

definition wait_opts_default :: wait_opts where
  "wait_opts_default = \<lparr>o_events = 0, o_monitor = False, o_quiet = 0, o_timeout = BLOCKING_TIMEOUT,
     o_recursive = 0, o_csv = False, o_daemon = False, o_syslog = False, o_no_dereference = False,
     o_format = None, o_timefmt = None, o_fromfile = None, o_outfile = None, o_filters = no_filters,
     o_no_newline = False, o_fanotify = False, o_filesystem = False\<rparr>"

text \<open>One option with its argument; \<open>None\<close> ends the program with failure.\<close>

definition wait_option ::
  "'w os \<Rightarrow> string \<Rightarrow> getopt \<Rightarrow> char \<Rightarrow> string option \<Rightarrow> wait_opts \<Rightarrow> 'w machine \<Rightarrow>
     wait_opts option \<times> 'w machine" where
  "wait_option os v g c arg o' s =
     (let keep = (\<lambda>o'. (Some o', s))
      in if c = CHR ''h'' then (None, cprint (wait_help v (help_name g)) s)
         else if c = CHR ''m'' then keep (o'\<lparr>o_monitor := True\<rparr>)
         else if c = CHR ''q'' then keep (o'\<lparr>o_quiet := wrap32 (o_quiet o' + 1)\<rparr>)
         else if c = CHR ''r'' then keep (o'\<lparr>o_recursive := wrap32 (o_recursive o' + 1)\<rparr>)
         else if c = CHR ''I'' then keep (o'\<lparr>o_fanotify := False\<rparr>)
         else if c = CHR ''F'' then keep (o'\<lparr>o_fanotify := True\<rparr>)
         else if c = CHR ''S'' then keep (o'\<lparr>o_filesystem := True, o_fanotify := True\<rparr>)
         else if c = CHR ''c'' then keep (o'\<lparr>o_csv := True\<rparr>)
         else if c = CHR ''d'' then keep (o'\<lparr>o_daemon := True, o_monitor := True, o_syslog := True\<rparr>)
         else if c = CHR ''s'' then keep (o'\<lparr>o_syslog := True\<rparr>)
         else if c = CHR ''P'' then keep (o'\<lparr>o_no_dereference := True\<rparr>)
         else if c = CHR ''f''
         then (None, ceprint (''The '' @ quote @ ''--filename'' @ quote @
                '' option no longer exists.  The option it enabled in earlier'' @ nl @
                ''versions of inotifywait is now turned on by default.'' @ nl) s)
         else if c = CHR ''n'' then keep (o'\<lparr>o_format := arg\<rparr>)
         else if c = CHR ''0'' then keep (o'\<lparr>o_no_newline := True\<rparr>)
         else if c = CHR ''i'' then keep (o'\<lparr>o_timefmt := arg\<rparr>)
         else if c = CHR ''a'' then keep (o'\<lparr>o_filters := (o_filters o')\<lparr>f_exc := arg\<rparr>\<rparr>)
         else if c = CHR ''b'' then keep (o'\<lparr>o_filters := (o_filters o')\<lparr>f_exci := arg\<rparr>\<rparr>)
         else if c = CHR ''j'' then keep (o'\<lparr>o_filters := (o_filters o')\<lparr>f_inc := arg\<rparr>\<rparr>)
         else if c = CHR ''k'' then keep (o'\<lparr>o_filters := (o_filters o')\<lparr>f_inci := arg\<rparr>\<rparr>)
         else if c = CHR ''z''
         then if o_fromfile o' \<noteq> None then (None, ceprint (''Multiple --fromfile options given.'' @ nl) s)
              else keep (o'\<lparr>o_fromfile := arg\<rparr>)
         else if c = CHR ''o''
         then if o_outfile o' \<noteq> None then (None, ceprint (''Multiple --outfile options given.'' @ nl) s)
              else keep (o'\<lparr>o_outfile := arg\<rparr>)
         else if c = CHR ''t''
         then let ((ok, t), s) = is_timeout_option_valid os (o_timeout o') arg s
              in (if ok then Some (o'\<lparr>o_timeout := t\<rparr>) else None, s)
         else if c = CHR ''e''
         then let (e, s) = parse_event arg s
              in (case e of None \<Rightarrow> None | Some e \<Rightarrow> Some (o'\<lparr>o_events := o_events o' OR e\<rparr>), s)
         else keep o')"

text \<open>
  The loop over the options; the last argument but two counts \<open>--exclude\<close> and \<open>--excludei\<close>. The
  result has the option the loop stopped at.
\<close>

fun wait_options ::
  "'w os \<Rightarrow> string \<Rightarrow> getopt \<Rightarrow> (int \<times> string option) list \<Rightarrow> nat \<times> nat \<Rightarrow> wait_opts \<Rightarrow> 'w machine \<Rightarrow>
     (int \<times> (nat \<times> nat) \<times> wait_opts) option \<times> 'w machine" where
  "wait_options os v g [] n o' s = (Some (OPT_END, n, o'), s)"
| "wait_options os v g ((r, arg) # rs) n o' s =
     (let curr_opt = as_c_char r; c = opt_char curr_opt
      in if curr_opt = OPT_ERR \<or> curr_opt = OPT_END then (Some (curr_opt, n, o'), s)
         else case wait_option os v g c arg o' s of
                (None, s) \<Rightarrow> (None, s)
              | (Some o', s) \<Rightarrow>
                  wait_options os v g rs
                    (fst n + (if c = CHR ''a'' then 1 else 0), snd n + (if c = CHR ''b'' then 1 else 0)) o' s)"

definition has_directive_T :: "string \<Rightarrow> bool" where
  "has_directive_T f = list_ex (\<lambda>i. take 2 (drop i f) = ''%T'') [0..<length f - 1]"

text \<open>The checks after the loop.\<close>

definition wait_checks :: "wait_opts \<Rightarrow> 'w machine \<Rightarrow> bool \<times> 'w machine" where
  "wait_checks o' s =
     (let (ok, s) = validate (o_filters o') s
      in if \<not> ok then (False, s)
         else if o_format o' \<noteq> None \<and> o_csv o'
         then (False, ceprint (''-c and --format cannot both be specified.'' @ nl) s)
         else if o_format o' = None \<and> o_no_newline o'
         then (False, ceprint (''--no-newline cannot be specified without --format.'' @ nl) s)
         else if o_format o' = None \<and> o_timefmt o' \<noteq> None
         then (False, ceprint (''--timefmt cannot be specified without --format.'' @ nl) s)
         else if (case o_format o' of Some f \<Rightarrow> has_directive_T f | None \<Rightarrow> False) \<and> o_timefmt o' = None
         then (False, ceprint (''%T is in --format string, but --timefmt was not specified.'' @ nl) s)
         else if o_daemon o' \<and> o_outfile o' = None
         then (False, ceprint (''-o must be specified with -d.'' @ nl) s)
         else (True, s))"

definition wait_parse_opts ::
  "'w os \<Rightarrow> string \<Rightarrow> getopt \<Rightarrow> wait_opts \<Rightarrow> 'w machine \<Rightarrow>
     (string list \<times> wait_opts) option \<times> 'w machine" where
  "wait_parse_opts os v g o' s =
     (case wait_options os v g (go_results g) (0, 0) o' s of
        (None, s) \<Rightarrow> (None, s)
      | (Some (curr_opt, (exclude_count, excludei_count), o'), s) \<Rightarrow>
          let o' = (if \<not> o_no_newline o' then o'\<lparr>o_format := map_option (\<lambda>f. f @ nl) (o_format o')\<rparr>
                    else o');
              (ok, s) = wait_checks o' s;
              regex_warning = ''only the last option will be taken into consideration.'' @ nl
          in if \<not> ok then (None, s)
             else let s = (if exclude_count > 1 then ceprint (''--exclude: '' @ regex_warning) s else s);
                      s = (if excludei_count > 1 then ceprint (''--excludei: '' @ regex_warning) s else s)
                  in (if curr_opt = OPT_ERR then None else Some (remaining g, o'), s))"

subsection \<open>Output\<close>

definition csv_escape_len :: "string \<Rightarrow> nat \<Rightarrow> string" where
  "csv_escape_len string len =
     (if len = 0 \<or> len > MAX_STRLEN \<or> len > length string then []
      else if CHR 0x22 \<notin> set string \<and> CHR '','' \<notin> set string \<and> CHR 0x0A \<notin> set string \<and>
              string ! 0 \<noteq> CHR '' '' \<and> string ! (len - 1) \<noteq> CHR '' ''
      then take len string
      else [CHR 0x22] @ concat (map (\<lambda>c. if c = CHR 0x22 then [CHR 0x22, c] else [c]) (take len string))
             @ [CHR 0x22])"

definition csv_escape :: "string \<Rightarrow> string" where
  "csv_escape string = csv_escape_len string (length string)"

text \<open>A format is tried out on a made-up event; a result \<open>Some\<close> is the exit of the program.\<close>

definition validate_format :: "'w os \<Rightarrow> string \<Rightarrow> 'w machine \<Rightarrow> (int option \<times> 'w machine) option" where
  "validate_format os fmt s =
     (let event = \<lparr>ev_wd = 0, ev_mask = IN_ALL_EVENTS, ev_cookie = 0, ev_len = 3, ev_name = []\<rparr>;
          ((devnull, e), s) = sys (os_fopen os ''/dev/null'' ''a'') s
      in case devnull of
           None \<Rightarrow> Some (None, ceprint (''Couldn'' @ quote @ ''t open /dev/null: '' @ strerror os e @ nl) s)
         | Some devnull \<Rightarrow> do {
             (ret, s) \<leftarrow> fprintf_to os (\<lambda>m s. s) event (Some fmt) s;
             if ret = -1
             then let (r, s) = sys (os_fclose os devnull)
                                 (ceprint (''Something is wrong with your format string.'' @ nl) s)
                  in Some (Some EXIT_FAILURE, s)
             else let (r, s) = sys (os_fclose os devnull) s in Some (None, s)
           })"

definition output_event_csv :: "'w os \<Rightarrow> event \<Rightarrow> 'w machine \<Rightarrow> 'w machine option" where
  "output_event_csv os event s = do {
     (path, s) \<leftarrow> filename_from_event os event s;
     let filename = csv_escape_len (ep_filename path) (ep_dirnamelen path);
     let s = (if filename \<noteq> [] then cprint (filename @ '','') s else s);
     (names, s) \<leftarrow> mask_to_str (ev_mask event) (CHR '','') s;
     let s = cprint (csv_escape names @ '','') s;
     Some (cprint nl (cprint (csv_escape (ep_eventname path)) s))
   }"

definition output_error :: "'w os \<Rightarrow> bool \<Rightarrow> string \<Rightarrow> 'w machine \<Rightarrow> 'w machine" where
  "output_error os syslog msg s = (if syslog then sysw (os_syslog os (cstring msg)) s else ceprint msg s)"

definition output_event :: "'w os \<Rightarrow> wait_opts \<Rightarrow> event \<Rightarrow> 'w machine \<Rightarrow> 'w machine option" where
  "output_event os o' event s =
     (if o_csv o' then output_event_csv os event s
      else case o_format o' of
             Some f \<Rightarrow> map_option snd (printf os event (Some f) s)
           | None \<Rightarrow> map_option snd (printf os event (Some (''%w %,e %f'' @ nl)) s))"

definition O_WRONLY :: int where "O_WRONLY = 1"
definition O_CREAT :: int where "O_CREAT = 0x40"
definition O_APPEND :: int where "O_APPEND = 0x400"
definition STDIN_FILENO :: int where "STDIN_FILENO = 0"
definition STDOUT_FILENO :: int where "STDOUT_FILENO = 1"
definition STDERR_FILENO :: int where "STDERR_FILENO = 2"

definition redirect :: "'w os \<Rightarrow> string \<Rightarrow> int \<Rightarrow> int \<Rightarrow> int \<Rightarrow> 'w machine \<Rightarrow> bool \<times> 'w machine" where
  "redirect os path flags mode target s =
     (let ((f, e), s) = sys (os_open os path flags mode) s
      in if f < 0 then (False, s)
         else (True, if f \<noteq> target then sysw (os_close os f) (sysw (os_dup2 os f target) s) else s))"

subsection \<open>The program\<close>

text \<open>Options, library, filters and format.\<close>

definition wait_setup ::
  "'w os \<Rightarrow> string \<Rightarrow> getopt \<Rightarrow> 'w machine \<Rightarrow> ((int + string list \<times> wait_opts) \<times> 'w machine) option" where
  "wait_setup os v g s =
     (let o' = wait_opts_default\<lparr>o_fanotify := (argc g > 0 \<and> invoked_as_fsnotify (argv0 g))\<rparr>
      in case wait_parse_opts os v g o' s of
           (None, s) \<Rightarrow> Some (Inl EXIT_FAILURE, s)
         | (Some (args, o'), s) \<Rightarrow>
             let (ok, s) = init os (o_fanotify o') (o_filesystem o') (if o_quiet o' = 0 then 1 else 0) s
             in if \<not> ok then Some (Inl EXIT_FAILURE, warn_inotify_init_error os (o_fanotify o') s)
                else let s = (case o_timefmt o' of Some t \<Rightarrow> set_printf_timefmt t s | None \<Rightarrow> s);
                         (ok, s) = install os (o_filters o') (o_recursive o') s
                     in if \<not> ok then Some (Inl EXIT_FAILURE, s)
                        else case o_format o' of
                               None \<Rightarrow> Some (Inr (args, o'), s)
                             | Some f \<Rightarrow> do {
                                 (ended, s) \<leftarrow> validate_format os f s;
                                 Some (case ended of Some c \<Rightarrow> Inl c | None \<Rightarrow> Inr (args, o'), s)
                               })"

text \<open>The events asked for, and the events to be watched.\<close>

definition wanted_events :: "wait_opts \<Rightarrow> u32" where
  "wanted_events o' = (if o_events o' = 0 then IN_ALL_EVENTS else o_events o')"

definition watched_events :: "wait_opts \<Rightarrow> u32" where
  "watched_events o' =
     (let events = wanted_events o';
          events = (if o_monitor o' \<and> o_recursive o' \<noteq> 0
                    then events OR (IN_CREATE OR IN_MOVED_TO OR IN_MOVED_FROM) else events);
          events = (if o_no_dereference o' then events OR IN_DONT_FOLLOW else events)
      in if o_fanotify o' then events OR IN_ISDIR else events)"

text \<open>Redirecting the output, for a daemon or to a file.\<close>

definition wait_redirect :: "'w os \<Rightarrow> wait_opts \<Rightarrow> 'w machine \<Rightarrow> (int + unit) \<times> 'w machine" where
  "wait_redirect os o' s =
     (let append = or_flag (or_flag O_WRONLY O_CREAT) O_APPEND
      in if o_daemon o'
         then let outfile = (case o_outfile o' of Some f \<Rightarrow> f | None \<Rightarrow> []);
                  ((path, e), s) = sys (os_realpath os (cstring outfile)) s
              in case path of
                   None \<Rightarrow> (Inl EXIT_FAILURE, ceprint (strerror os e @ '': '' @ outfile @ nl) s)
                 | Some logfile \<Rightarrow>
                     let (d, s) = sys (os_daemon os) s
                     in if d \<noteq> 0 then (Inl EXIT_FAILURE, ceprint (''Failed to daemonize!'' @ nl) s)
                        else let (r, s) = redirect os ''/dev/null'' O_RDONLY 0 STDIN_FILENO s;
                                 (ok, s) = redirect os (cstring logfile) append 0x180 STDOUT_FILENO s
                             in if \<not> ok
                                then (Inl EXIT_FAILURE, ceprint (''Failed to open output file '' @
                                        cstring logfile @ nl) s)
                                else let (r, s) = redirect os ''/dev/null'' O_WRONLY 0 STDERR_FILENO s
                                     in (Inr (), s)
         else case o_outfile o' of
                None \<Rightarrow> (Inr (), s)
              | Some outfile \<Rightarrow>
                  let (ok, s) = redirect os (cstring outfile) append 0x180 STDOUT_FILENO s
                  in if \<not> ok then (Inl EXIT_FAILURE, ceprint (''Failed to open output file '' @ outfile @ nl) s)
                     else (Inr (), s))"

text \<open>Setting up the watches.\<close>

definition wait_watch ::
  "'w os \<Rightarrow> nat \<Rightarrow> string list \<Rightarrow> wait_opts \<Rightarrow> 'w machine \<Rightarrow> ((int + unit) \<times> 'w machine) option" where
  "wait_watch os fuel args o' s = do {
     (l, s) \<leftarrow> construct_path_list os fuel args (o_fromfile o') s;
     case l of
       None \<Rightarrow> Some (Inl EXIT_FAILURE, s)
     | Some l \<Rightarrow>
         if fl_watch l = [] then Some (Inl EXIT_FAILURE, ceprint (''No files specified to watch!'' @ nl) s)
         else and_then (Some (wait_redirect os o' s)) (\<lambda>_ s.
           let s = (if o_syslog o' then sysw (os_openlog os ''inotifywait'') s else s);
               out = output_error os (o_syslog o');
               s = (if o_quiet o' = 0
                    then out (if o_filesystem o' then ''Setting up filesystem watches.'' @ nl
                              else if o_recursive o' \<noteq> 0
                              then ''Setting up watches.  Beware: since -r was given, this may take a while!'' @ nl
                              else ''Setting up watches.'' @ nl) s
                    else s)
           in do {
             (ok, s) \<leftarrow> watch_list os fuel l (watched_events o') (o_recursive o' \<noteq> 0) (o_filesystem o')
                         (o_fanotify o') (''Couldn'' @ quote @ ''t watch '') out (\<lambda>_ s. s) (\<lambda>_ s. s) s;
             if \<not> ok then Some (Inl EXIT_FAILURE, s)
             else let s = (if o_quiet o' = 0 then out (''Watches established.'' @ nl) s else s)
                  in if o_timeout o' < 0
                     then Some (Inl EXIT_FAILURE, ceprint (''Negative timeout specified - abort!'' @ nl) s)
                     else Some (Inr (), s)
           })
   }"

text \<open>Is the event printed?\<close>

definition event_shown :: "wait_opts \<Rightarrow> event \<Rightarrow> bool" where
  "event_shown o' event \<longleftrightarrow> o_quiet o' < 2 \<and> ev_mask event AND wanted_events o' \<noteq> 0 \<and>
     (\<not> has_include (o_filters o') \<or> ev_mask event AND IN_ISDIR = 0)"

text \<open>
  What happens to one event: the state of the move tracker is threaded; \<open>Inr\<close> says whether the
  loop goes on.
\<close>

definition wait_event ::
  "'w os \<Rightarrow> nat \<Rightarrow> wait_opts \<Rightarrow> event \<Rightarrow> string option \<Rightarrow> 'w machine \<Rightarrow>
     (string option \<times> 'w machine) option" where
  "wait_event os fuel o' event mf s = do {
     s \<leftarrow> (if event_shown o' event then output_event os o' event s else Some s);
     if o_filesystem o' then Some (mf, s)
     else handle_event os fuel mf event (o_monitor o' \<and> o_recursive o' \<noteq> 0) (watched_events o')
            (o_quiet o' = 0) (output_error os (o_syslog o')) s
   }"

text \<open>The main loop; the fuel bounds the number of events, and what each of them may take.\<close>

fun wait_loop ::
  "'w os \<Rightarrow> nat \<Rightarrow> wait_opts \<Rightarrow> string option \<Rightarrow> 'w machine \<Rightarrow> ((int + event) \<times> 'w machine) option" where
  "wait_loop os 0 o' mf s = None"
| "wait_loop os (Suc fuel) o' mf s =
     (case next_event os (Suc fuel) (o_timeout o') s of
        None \<Rightarrow> None
      | Some (None, s) \<Rightarrow>
          Some (if error s = 0 then (Inl EXIT_TIMEOUT, s)
                else (Inl EXIT_FAILURE, output_error os (o_syslog o') (strerror os (error s) @ nl) s))
      | Some (Some event, s) \<Rightarrow>
          (case wait_event os (Suc fuel) o' event mf s of
             None \<Rightarrow> None
           | Some (mf, s) \<Rightarrow> if \<not> o_monitor o' then Some (Inr event, s)
                              else wait_loop os fuel o' mf s))"

text \<open>Waiting, and the exit code; then the whole program.\<close>

definition wait_run :: "'w os \<Rightarrow> nat \<Rightarrow> wait_opts \<Rightarrow> 'w machine \<Rightarrow> ((int + int) \<times> 'w machine) option" where
  "wait_run os fuel o' s =
     and_then (wait_loop os fuel o' None s) (\<lambda>last_event s.
       Some (Inr (if watched_events o' AND ev_mask last_event = 0 then EXIT_FAILURE else EXIT_SUCCESS), s))"

definition wait_main ::
  "'w os \<Rightarrow> string \<Rightarrow> nat \<Rightarrow> getopt \<Rightarrow> 'w \<Rightarrow> (int \<times> 'w machine) option" where
  "wait_main os v fuel g w =
     map_option (\<lambda>(r, s). (case r of Inl c \<Rightarrow> c | Inr c \<Rightarrow> c, s))
       (and_then (wait_setup os v g (machine_new w)) (\<lambda>(args, o') s.
          and_then (wait_watch os fuel args o' s) (\<lambda>_ s. wait_run os fuel o' s)))"

subsection \<open>The command line\<close>

text \<open>\<open>OPT_STRING\<close> and \<open>LONG_OPTS\<close>, and the program on its arguments.\<close>

definition wait_OPT_STRING :: string where
  "wait_OPT_STRING = ''mrhcdsPqt:fo:e:IFS''"

definition wait_LONG_OPTS :: "long_opt list" where
  "wait_LONG_OPTS =
     [(''help'', False, CHR ''h''), (''event'', True, CHR ''e''), (''monitor'', False, CHR ''m''),
      (''quiet'', False, CHR ''q''), (''timeout'', True, CHR ''t''), (''filename'', False, CHR ''f''),
      (''recursive'', False, CHR ''r''), (''inotify'', False, CHR ''I''), (''fanotify'', False, CHR ''F''),
      (''filesystem'', False, CHR ''S''), (''csv'', False, CHR ''c''), (''daemon'', False, CHR ''d''),
      (''syslog'', False, CHR ''s''), (''no-dereference'', False, CHR ''P''), (''format'', True, CHR ''n''),
      (''no-newline'', False, CHR ''0''), (''timefmt'', True, CHR ''i''), (''fromfile'', True, CHR ''z''),
      (''outfile'', True, CHR ''o''), (''exclude'', True, CHR ''a''), (''excludei'', True, CHR ''b''),
      (''include'', True, CHR ''j''), (''includei'', True, CHR ''k'')]"

definition inotifywait ::
  "'w os \<Rightarrow> option_parser \<Rightarrow> string \<Rightarrow> nat \<Rightarrow> string list \<Rightarrow> 'w \<Rightarrow> (int \<times> 'w machine) option" where
  "inotifywait os parser v fuel args w =
     wait_main os v fuel (getopt_new parser args wait_OPT_STRING wait_LONG_OPTS) w"

subsection \<open>CSV fields and records\<close>

text \<open>
  What a reader of CSV makes of a line: a field is quoted, with quotes doubled inside, or extends
  to the next comma or newline; a record is a list of fields separated by commas.
\<close>

fun csv_quoted :: "string \<Rightarrow> string \<times> string" where
  "csv_quoted [] = ([], [])"
| "csv_quoted (c # s) =
     (if c \<noteq> CHR 0x22 then let (f, r) = csv_quoted s in (c # f, r)
      else if s \<noteq> [] \<and> hd s = CHR 0x22 then let (f, r) = csv_quoted (tl s) in (CHR 0x22 # f, r)
      else ([], s))"

definition csv_field :: "string \<Rightarrow> string \<times> string" where
  "csv_field s =
     (if s \<noteq> [] \<and> hd s = CHR 0x22 then csv_quoted (tl s)
      else (takeWhile (\<lambda>c. c \<noteq> CHR '','' \<and> c \<noteq> CHR 0x0A) s, dropWhile (\<lambda>c. c \<noteq> CHR '','' \<and> c \<noteq> CHR 0x0A) s))"

lemma csv_quoted_length: "length (snd (csv_quoted s)) \<le> length s"
proof (induction s rule: csv_quoted.induct)
  case 1
  then show ?case by simp
next
  case (2 c s)
  then show ?case
    by (cases s) (auto split: prod.splits)
qed

lemma csv_field_length: "length (snd (csv_field s)) \<le> length s"
  using csv_quoted_length [of "tl s"] by (simp add: csv_field_def length_dropWhile_le) (metis diff_le_self le_trans)

function csv_record :: "string \<Rightarrow> string list \<times> string" where
  "csv_record s =
     (let (f, r) = csv_field s
      in if r \<noteq> [] \<and> hd r = CHR '','' then let (fs, r) = csv_record (tl r) in (f # fs, r) else ([f], r))"
  by pat_completeness auto
termination
proof (relation "measure length")
  fix s f r :: string and x
  assume "x = csv_field s" "(f, r) = x" "r \<noteq> [] \<and> hd r = CHR '',''"
  then have "length r \<le> length s" "r \<noteq> []"
    using csv_field_length [of s] by (auto simp: prod_eq_iff)
  then show "(tl r, s) \<in> measure length" by (cases r) simp_all
qed simp

declare csv_record.simps [simp del]

definition field_end :: "string \<Rightarrow> bool" where
  "field_end r \<longleftrightarrow> r = [] \<or> hd r = CHR '','' \<or> hd r = CHR 0x0A"

lemma csv_quoted_doubled:
  assumes "field_end r"
  shows "csv_quoted (concat (map (\<lambda>c. if c = CHR 0x22 then [CHR 0x22, c] else [c]) x) @ [CHR 0x22] @ r) = (x, r)"
  using assms by (induction x) (auto simp: field_end_def)

lemma csv_field_escape:
  assumes "len \<le> length x" and "len \<le> MAX_STRLEN" and r: "field_end r"
  shows "csv_field (csv_escape_len x len @ r) = (take len x, r)"
proof -
  have plain: "csv_field (t @ r) = (t, r)" if "\<forall>c\<in>set t. c \<noteq> CHR '','' \<and> c \<noteq> CHR 0x0A"
    "CHR 0x22 \<notin> set t" for t
  proof -
    have "takeWhile (\<lambda>c. c \<noteq> CHR '','' \<and> c \<noteq> CHR 0x0A) (t @ r) = t"
      "dropWhile (\<lambda>c. c \<noteq> CHR '','' \<and> c \<noteq> CHR 0x0A) (t @ r) = r"
      using that(1) r by (auto simp: field_end_def takeWhile_eq_Nil_iff dropWhile_eq_self_iff)
    moreover have "\<not> (t @ r \<noteq> [] \<and> hd (t @ r) = CHR 0x22)"
      using that(2) r by (cases t) (auto simp: field_end_def)
    ultimately show ?thesis unfolding csv_field_def by (simp only: if_False)
  qed
  show ?thesis
  proof (cases "len = 0")
    case True
    then show ?thesis using plain [of "[]"] by (simp add: csv_escape_len_def)
  next
    case False
    show ?thesis
    proof (cases "CHR 0x22 \<notin> set x \<and> CHR '','' \<notin> set x \<and> CHR 0x0A \<notin> set x \<and>
        x ! 0 \<noteq> CHR '' '' \<and> x ! (len - 1) \<noteq> CHR '' ''")
      case True
      then have "\<forall>c\<in>set (take len x). c \<noteq> CHR '','' \<and> c \<noteq> CHR 0x0A" "CHR 0x22 \<notin> set (take len x)"
        by (auto dest: in_set_takeD)
      with plain True False assms show ?thesis by (simp add: csv_escape_len_def)
    next
      case False
      then have "csv_escape_len x len = [CHR 0x22] @
          concat (map (\<lambda>c. if c = CHR 0x22 then [CHR 0x22, c] else [c]) (take len x)) @ [CHR 0x22]"
        using \<open>len \<noteq> 0\<close> assms unfolding csv_escape_len_def by (simp only: if_False if_True) auto
      with csv_quoted_doubled [OF r, of "take len x"] show ?thesis
        by (simp add: csv_field_def)
    qed
  qed
qed

lemma csv_record_escape:
  assumes "len \<le> length x" and "len \<le> MAX_STRLEN"
  shows "csv_record (csv_escape_len x len @ CHR '','' # s) =
      (take len x # fst (csv_record s), snd (csv_record s))"
    and "csv_record (csv_escape_len x len @ CHR 0x0A # s) = ([take len x], CHR 0x0A # s)"
  using csv_field_escape [OF assms, of "CHR '','' # s"] csv_field_escape [OF assms, of "CHR 0x0A # s"]
  by (subst csv_record.simps; simp add: field_end_def split: prod.splits)+

text \<open>The line that is printed for an event: path, names of the mask, name of the event.\<close>

definition csv_line :: "event_path \<Rightarrow> u32 \<Rightarrow> string" where
  "csv_line p m =
     (let filename = csv_escape_len (ep_filename p) (ep_dirnamelen p)
      in (if filename \<noteq> [] then filename @ '','' else []) @ csv_escape (mask_text m (CHR '','')) @
         '','' @ csv_escape (ep_eventname p) @ nl)"

lemma length_mask_text: "sep \<noteq> NUL \<Longrightarrow> length (mask_text m sep) \<le> 1024"
proof -
  assume "sep \<noteq> NUL"
  with event_to_str_sep_text [of "replicate 1024 NUL" sep m] obtain buf where
    "cstring (drop 1 buf) = mask_text m sep" "length buf = 1024"
    by (auto simp: event_to_str_sep_def)
  with length_cstring_le [of "drop 1 buf"] show ?thesis by (metis diff_le_self le_trans length_drop)
qed

lemma csv_line_record:
  assumes "ep_dirnamelen p \<le> length (ep_filename p)" "ep_dirnamelen p \<le> MAX_STRLEN"
    "length (ep_eventname p) \<le> MAX_STRLEN"
  shows "csv_record (csv_line p m) =
    ((if ep_dirnamelen p = 0 then [] else [ep_dirname p]) @ [mask_text m (CHR '',''), ep_eventname p], nl)"
proof -
  let ?t = "mask_text m (CHR '','')"
  have t: "length ?t \<le> MAX_STRLEN" using length_mask_text [of "CHR '',''" m] by (simp add: MAX_STRLEN_def)
  have e: "csv_escape_len (ep_filename p) (ep_dirnamelen p) = [] \<longleftrightarrow> ep_dirnamelen p = 0"
    using assms(1,2) by (auto simp: csv_escape_len_def)
  have "csv_record (csv_escape ?t @ '','' @ csv_escape (ep_eventname p) @ nl) = ([?t, ep_eventname p], nl)"
    using csv_record_escape [of "length ?t" ?t] csv_record_escape(2) [of "length (ep_eventname p)" "ep_eventname p" "[]"] t assms(3)
    by (simp add: csv_escape_def)
  with csv_record_escape(1) [OF assms(1,2)] show ?thesis
    using assms(1) by (simp add: csv_line_def e ep_dirname_def Let_def)
qed

lemma output_event_csv_total:
  assumes inv: "table_inv s" and ini: "initialized s" and evstr: "length (evstr s) = 1024"
    and path: "filename_from_event os ev s = Some (p, t)"
  shows "\<exists>s'. output_event_csv os ev s = Some s' \<and> formats s s' \<and>
    c_stdout s' = c_stdout t @ csv_line p (ev_mask ev) \<and> world s' = world t"
proof -
  have f: "formats s t"
    using filename_from_event_total [OF inv ini, of os ev] path resolves_formats by auto
  define t' where "t' = (if csv_escape_len (ep_filename p) (ep_dirnamelen p) \<noteq> []
     then cprint (csv_escape_len (ep_filename p) (ep_dirnamelen p) @ '','') t else t)"
  have t': "formats s t'" "length (evstr t') = 1024" "world t' = world t"
    using f evstr by (auto simp: t'_def cprint_def formats_fields)
  from mask_to_str_total [OF t'(2), of "ev_mask ev" "CHR '',''"] obtain u where
    u: "mask_to_str (ev_mask ev) (CHR '','') t' = Some (mask_text (ev_mask ev) (CHR '',''), u)"
      "formats t' u" "world u = world t'" by auto
  have "c_stdout u = c_stdout t'"
    using u(1) by (auto simp: mask_to_str_def)
  then show ?thesis
    using path u t' formats_trans [OF t'(1) u(2)]
    by (auto simp: output_event_csv_def t'_def [symmetric] Let_def cprint_def csv_line_def)
      (auto simp: t'_def cprint_def)
qed

text \<open>C20.
  The CSV line of an event can be read back: whatever bytes the names hold, a reader of CSV finds
  exactly the directory (left out when it is empty), the names of the event's mask and the name
  of the file, each up to \<open>MAX_STRLEN\<close> bytes long, and the end of the line; writing it changes no
  watch.\<close>

theorem csv_output_parses:
  assumes inv: "table_inv s" and ini: "initialized s" and evstr: "length (evstr s) = 1024"
    and path: "filename_from_event os ev s = Some (p, t)"
    and fits: "ep_dirnamelen p \<le> MAX_STRLEN" "length (ep_eventname p) \<le> MAX_STRLEN"
  shows "\<exists>s' line. output_event_csv os ev s = Some s' \<and> formats s s' \<and>
    c_stdout s' = c_stdout t @ line \<and>
    csv_record line = ((if ep_dirnamelen p = 0 then [] else [ep_dirname p]) @
      [mask_text (ev_mask ev) (CHR '',''), ep_eventname p], nl)"
proof -
  have "ep_dirnamelen p \<le> length (ep_filename p)"
    using filename_from_event_total [OF inv ini, of os ev] path by auto
  from csv_line_record [OF this fits] output_event_csv_total [OF inv ini evstr path] show ?thesis by blast
qed

theorem csv_output_parses_witness:
  "\<exists>s' line. output_event_csv quiet_os (event_default\<lparr>ev_wd := 3, ev_mask := IN_OPEN, ev_len := 1,
      ev_name := ''x,y''\<rparr>) (one_watch ''/a b/'') = Some s' \<and>
    csv_record line = ([''/a b/'', ''OPEN'', ''x,y''], nl) \<and> c_stdout s' = line"
proof -
  let ?s = "one_watch ''/a b/''"
  let ?ev = "event_default\<lparr>ev_wd := 3, ev_mask := IN_OPEN, ev_len := 1, ev_name := ''x,y''\<rparr>"
  let ?p = "\<lparr>ep_filename = ''/a b/'', ep_dirnamelen = 5, ep_eventname = ''x,y''\<rparr>"
  have path: "filename_from_event quiet_os ?ev ?s = Some (?p, ?s)"
    using one_watch_facts [of "''/a b/''"]
    by (simp add: filename_from_event_def filename_from_event_ptr_def dirname_from_event_def
        filename_from_wd_def watch_from_wd_def bt_get_def filename_from_watch_id_def watch_at_def
        event_default_def one_watch_def register_def Let_def cstring_def)
  have name: "mask_text IN_OPEN CHR '','' = ''OPEN''"
    by (simp add: mask_text_def names_of_def NAMES_def in_defs)
  have out: "c_stdout ?s = []" by (simp add: one_watch_def register_def Let_def)
  from csv_output_parses [OF one_watch_facts(1) [of "''/a b/''"] one_watch_facts(2) one_watch_evstr path]
  show ?thesis
    using name out by (auto simp: event_default_def ep_dirname_def MAX_STRLEN_def)
qed

subsection \<open>Options\<close>

lemma wait_option_daemon:
  "fst (wait_option os v g c arg o1 s) = Some o2 \<Longrightarrow> (o_daemon o1 \<longrightarrow> o_monitor o1 \<and> o_syslog o1) \<Longrightarrow>
     (o_daemon o2 \<longrightarrow> o_monitor o2 \<and> o_syslog o2)"
  by (auto simp: wait_option_def Let_def split: if_splits option.splits prod.splits)

lemma wait_options_daemon:
  "fst (wait_options os v g rs n o1 s) = Some (c, n', o2) \<Longrightarrow> (o_daemon o1 \<longrightarrow> o_monitor o1 \<and> o_syslog o1) \<Longrightarrow>
     (o_daemon o2 \<longrightarrow> o_monitor o2 \<and> o_syslog o2)"
proof (induction rs arbitrary: n o1 s)
  case Nil
  then show ?case by simp
next
  case (Cons x rs)
  obtain r arg where x: "x = (r, arg)" by fastforce
  show ?case
  proof (cases "as_c_char r = OPT_ERR \<or> as_c_char r = OPT_END")
    case True
    with Cons.prems x show ?thesis by (simp add: Let_def)
  next
    case False
    obtain o3 t where o3: "wait_option os v g (opt_char (as_c_char r)) arg o1 s = (Some o3, t)"
      using Cons.prems(1) False x
      by (cases "wait_option os v g (opt_char (as_c_char r)) arg o1 s") (auto simp: Let_def split: option.splits)
    have "o_daemon o3 \<longrightarrow> o_monitor o3 \<and> o_syslog o3"
      using wait_option_daemon [OF _ Cons.prems(2), of os v g "opt_char (as_c_char r)" arg s o3] o3 by simp
    with Cons.IH Cons.prems(1) False x o3 show ?thesis by (simp add: Let_def)
  qed
qed

lemma wait_checks_ok:
  assumes "wait_checks o1 s = (True, s')"
  shows "length (given_filters (o_filters o1)) \<le> 1" "\<not> (o_format o1 \<noteq> None \<and> o_csv o1)"
    "o_format o1 = None \<longrightarrow> \<not> o_no_newline o1 \<and> o_timefmt o1 = None"
    "\<forall>f. o_format o1 = Some f \<and> has_directive_T f \<longrightarrow> o_timefmt o1 \<noteq> None"
    "o_daemon o1 \<longrightarrow> o_outfile o1 \<noteq> None"
  using assms
  by (auto simp: wait_checks_def validate_def has_include_def given_filters_def Let_def
      split: if_splits option.splits)

text \<open>C33.
  The command line: whatever options are accepted are consistent. A format excludes CSV, ends in a
  newline unless \<open>--no-newline\<close> is given, and comes with a time format when it has \<open>%T\<close>; without a
  format there is no time format and no \<open>--no-newline\<close>; a daemon monitors, logs to the system log
  and has an output file; at most one filter is given; and the files are what the parser left.\<close>

theorem wait_options_consistent:
  assumes ok: "wait_parse_opts os v g (wait_opts_default\<lparr>o_fanotify := b\<rparr>) s = (Some (args, o'), s')"
  shows "args = remaining g \<and> length (given_filters (o_filters o')) \<le> 1 \<and>
    (case o_format o' of
       Some f \<Rightarrow> \<not> o_csv o' \<and> (o_no_newline o' \<or> (\<exists>x. f = x @ nl)) \<and>
         (has_directive_T f \<longrightarrow> o_timefmt o' \<noteq> None)
     | None \<Rightarrow> \<not> o_no_newline o' \<and> o_timefmt o' = None) \<and>
    (o_daemon o' \<longrightarrow> o_monitor o' \<and> o_syslog o' \<and> o_outfile o' \<noteq> None)"
proof -
  let ?o = "wait_opts_default\<lparr>o_fanotify := b\<rparr>"
  obtain c n o1 t where loop: "wait_options os v g (go_results g) (0, 0) ?o s = (Some (c, n, o1), t)"
    using ok by (auto simp: wait_parse_opts_def split: prod.splits option.splits)
  define o2 where "o2 = (if \<not> o_no_newline o1 then o1\<lparr>o_format := map_option (\<lambda>f. f @ nl) (o_format o1)\<rparr> else o1)"
  obtain u where u: "wait_checks o2 t = (True, u)"
    using ok loop by (auto simp: wait_parse_opts_def o2_def [symmetric] Let_def split: prod.splits if_splits)
  have o': "o' = o2" "args = remaining g"
    using ok loop u by (auto simp: wait_parse_opts_def o2_def [symmetric] Let_def split: prod.splits if_splits)
  have "fst (wait_options os v g (go_results g) (0, 0) ?o s) = Some (c, n, o1)" by (simp add: loop)
  from wait_options_daemon [OF this] have "o_daemon o1 \<longrightarrow> o_monitor o1 \<and> o_syslog o1"
    by (simp add: wait_opts_default_def)
  then have "o_daemon o' \<longrightarrow> o_monitor o' \<and> o_syslog o'" by (simp add: o' o2_def)
  moreover have "\<exists>x. f = x @ nl" if "o_format o' = Some f" "\<not> o_no_newline o'" for f
    using that by (auto simp: o' o2_def split: if_splits)
  ultimately show ?thesis
    using o'(2) wait_checks_ok [OF u] by (auto simp: o'(1) split: option.splits)
qed

theorem wait_options_consistent_witness:
  "\<exists>o' s'. wait_parse_opts quiet_os ''1'' (sample_getopt [(109, None), (110, Some ''%w'')] [''f'']) (wait_opts_default\<lparr>o_fanotify := False\<rparr>) (machine_new ()) = (Some ([''f''], o'), s') \<and>
    o_monitor o' \<and> o_format o' = Some (''%w'' @ nl) \<and> length (given_filters (o_filters o')) \<le> 1"
proof -
  let ?g = "(sample_getopt [(109, None), (110, Some ''%w'')] [''f''])"
  have m: "as_c_char 109 = 109" "as_c_char 110 = 110" "opt_char 109 = CHR ''m''" "opt_char 110 = CHR ''n''"
    by code_simp+
  obtain o' s' where run: "wait_parse_opts quiet_os ''1'' ?g (wait_opts_default\<lparr>o_fanotify := False\<rparr>) (machine_new ()) =
      (Some ([''f''], o'), s')" "o_monitor o'" "o_format o' = Some (''%w'' @ nl)"
    by (simp add: wait_parse_opts_def wait_option_def Let_def m OPT_ERR_def OPT_END_def
        wait_opts_default_def wait_checks_def validate_def no_filters_def has_include_def
        has_directive_T_def)
  from wait_options_consistent [OF run(1)] run show ?thesis by blast
qed

subsection \<open>Waiting for events\<close>

lemma printf_total:
  assumes inv: "table_inv s" and ini: "initialized s" and evstr: "length (evstr s) = 1024"
  shows "\<exists>ret s'. printf os ev fmt s = Some (ret, s') \<and> formats s s'"
proof -
  let ?s = "s\<lparr>print_out := None\<rparr>"
  have s: "table_inv ?s" "initialized ?s" "length (evstr ?s) = 1024"
    using inv ini evstr by (simp_all add: table_inv_def)
  define out0 where "out0 = (case print_out s of Some out \<Rightarrow> out | None \<Rightarrow> NString_new)"
  from snprintf_total [OF s, of os out0 "int MAX_STRLEN" ev fmt] obtain ret out' t where
    t: "snprintf os out0 (int MAX_STRLEN) ev fmt ?s = Some ((ret, out'), t)" "formats ?s t" by blast
  have "formats s t" using formats_trans [OF _ t(2), of s] by simp
  then show ?thesis
    using t(1) by (simp add: printf_def fprintf_to_def sprintf_def out0_def [symmetric] cprint_def)
qed

lemma output_event_total:
  assumes "table_inv s" and "initialized s" and "length (evstr s) = 1024"
  shows "\<exists>s'. output_event os o' ev s = Some s' \<and> formats s s'"
proof (cases "o_csv o'")
  case True
  obtain p t where "filename_from_event os ev s = Some (p, t)"
    using filename_from_event_total [OF assms(1,2), of os ev] by blast
  from output_event_csv_total [OF assms this] True show ?thesis
    by (auto simp: output_event_def)
next
  case False
  obtain r1 s1 where 1: "printf os ev (Some (''%w %,e %f'' @ nl)) s = Some (r1, s1)" "formats s s1"
    using printf_total [OF assms, of os ev] by blast
  show ?thesis
  proof (cases "o_format o'")
    case None
    with False 1 show ?thesis by (auto simp: output_event_def)
  next
    case (Some f)
    obtain r2 s2 where "printf os ev (Some f) s = Some (r2, s2)" "formats s s2"
      using printf_total [OF assms, of os ev] by blast
    with False Some show ?thesis by (auto simp: output_event_def)
  qed
qed

text \<open>C32.
  The exit code of a run whose wait for the next event brings none, with \<open>-m\<close> or without: when no
  event is in the buffer and polling fails or times out, or asking for the number of bytes fails, or
  the read fails or finds the end of the file, the program leaves its loop at once. A failed call's
  \<open>errno\<close> makes it exit with 1, after the error's text (on the error stream, unless messages go to the
  system log); a timeout and the end of the file make it exit with 2. Nothing is printed on the
  standard output, and the watches and their counters are as before.\<close>

theorem wait_exit_status:
  assumes s: "initialized s" "first_byte s = 0"
    and poll: "os_ppoll os (fd s) (if o_timeout o' = 0 then -1 else o_timeout o') (world s) = ((rc, err), w1)"
    and avail: "os_fionread os (fd s) w1 = ((rc', err', n), w2)" "rc' \<noteq> 0 \<or> EVENT_SIZE \<le> unat n"
    and read: "os_read os (fd s) (MAX_EVENTS * EVENT_SIZE) w2 = ((got, err'', data), w3)"
    and none: "rc \<le> 0 \<or> rc' = -1 \<or> got \<le> 0"
    and failed: "failed = wait_error rc err rc' err' got err''"
  shows "\<exists>s' eof. wait_run os (Suc fuel) o' s = Some (Inl (if failed = 0 then 2 else 1), s') \<and>
    c_stderr s' = c_stderr s @ eof @ (if failed = 0 \<or> o_syslog o' then [] else strerror os failed @ nl) \<and>
    (eof \<noteq> [] \<longleftrightarrow> 0 < rc \<and> rc' \<noteq> -1 \<and> got = 0) \<and> c_stdout s' = c_stdout s \<and>
    watches s' = watches s \<and> by_wd s' = by_wd s \<and> by_filename s' = by_filename s \<and> totals s' = totals s"
proof -
  have "rc' \<noteq> 0 \<or> int EVENT_SIZE * 1 \<le> int (unat n)" using avail(2) by (simp only: mult_1_right of_nat_le_iff)
  from wait_without_event [OF s _ _ poll avail(1) this read none, of "Suc fuel"] obtain t eof where
    t: "next_events os (Suc fuel) (if o_timeout o' = 0 then -1 else o_timeout o') 1 s = Some (None, t)"
      "error t = failed" "fed s (t\<lparr>c_stderr := c_stderr s\<rparr>)" "c_stderr t = c_stderr s @ eof"
      "eof \<noteq> [] \<longleftrightarrow> 0 < rc \<and> rc' \<noteq> -1 \<and> got = 0"
    by (auto simp: failed size_defs)
  note f = fed_fields [OF t(3), simplified]
  have "c_stdout t = c_stdout s"
    using arg_cong [OF t(3) [unfolded fed_def], of c_stdout] by simp
  then show ?thesis
    using t f(1,2,4,13)
    by (auto simp: wait_run_def and_then_def exit_defs next_event_def output_error_def sysw_def ceprint_def)
qed

theorem wait_exit_status_witness:
  "\<exists>s'. wait_run (quiet_os\<lparr>os_ppoll := (\<lambda>_ _ w. ((1, 0), w)), os_fionread := (\<lambda>_ w. ((-1, 9, 0), w))\<rparr>) 5
     wait_opts_default (one_watch ''/a'') = Some (Inl 1, s') \<and> c_stdout s' = []"
proof -
  let ?os = "quiet_os\<lparr>os_ppoll := (\<lambda>_ _ w. ((1, 0), w)), os_fionread := (\<lambda>_ w. ((-1, 9, 0), w))\<rparr>"
  have "first_byte (one_watch ''/a'') = 0" "c_stdout (one_watch ''/a'') = []"
    by (simp_all add: one_watch_def register_def Let_def)
  from wait_exit_status [OF one_watch_facts(2) this(1), where os = ?os and o' = wait_opts_default and rc = 1 and err = 0
      and rc' = "-1" and err' = 9 and n = 0 and got = 0 and err'' = 0 and data = "[]" and fuel = 4 and failed = 9
      and ?w1.0 = "()" and ?w2.0 = "()" and ?w3.0 = "()"] this(2)
  show ?thesis by (auto simp: quiet_os_def wait_error_def)
qed

end
