(* ===== verification/Printing.thy ===== *)
theory Printing
  imports WaitTool Delivery
begin

text \<open>
  What \<open>inotifywait\<close> prints for an event: the text of its format, appended to the output, with no
  other effect; and which formats it accepts (\<open>validate_format\<close> of \<open>inotifywait.rs\<close>).
\<close>

subsection \<open>Formatting and the rest of the state\<close>

definition typeset :: "'w machine \<Rightarrow> 'w machine \<Rightarrow> bool" where
  "typeset s s' \<longleftrightarrow> s' = s\<lparr>evstr := evstr s', error := error s', world := world s'\<rparr> \<and>
     (timefmt s = None \<longrightarrow> world s' = world s)"

lemma typeset_refl: "typeset s s"
  by (simp add: typeset_def)

lemma typeset_fields:
  assumes "typeset s t"
  shows "c_stdout t = c_stdout s" "timefmt t = timefmt s" "c_stderr t = c_stderr s"
    "timefmt s = None \<Longrightarrow> world t = world s"
proof -
  have eq: "t = s\<lparr>evstr := evstr t, error := error t, world := world t\<rparr>" using assms by (simp add: typeset_def)
  show "c_stdout t = c_stdout s" by (subst eq) simp
  show "timefmt t = timefmt s" by (subst eq) simp
  show "c_stderr t = c_stderr s" by (subst eq) simp
  show "timefmt s = None \<Longrightarrow> world t = world s" using assms by (simp add: typeset_def)
qed

lemma typeset_trans:
  assumes "typeset s t" and "typeset t u"
  shows "typeset s u"
proof -
  have u: "u = t\<lparr>evstr := evstr u, error := error u, world := world u\<rparr>"
    and t: "t = s\<lparr>evstr := evstr t, error := error t, world := world t\<rparr>" using assms by (simp_all add: typeset_def)
  have "u = s\<lparr>evstr := evstr u, error := error u, world := world u\<rparr>"
    by (subst u, subst t) simp
  moreover have "timefmt s = None \<longrightarrow> world u = world s"
    using typeset_fields [OF assms(1)] typeset_fields [OF assms(2)] by simp
  ultimately show ?thesis by (simp add: typeset_def)
qed

lemma mask_to_str_typeset: "mask_to_str m sep s = Some (x, s') \<Longrightarrow> typeset s s'"
  by (auto simp: mask_to_str_def typeset_def)

lemma directive_typeset:
  assumes "fmt_directive os sz ev p ch rest ind buf s = Some (r, b, s')"
  shows "typeset s s'"
  using assms
  by (auto simp: fmt_directive_def Let_def strftime_now_def sys_def set_error_def typeset_refl
      dest!: mask_to_str_typeset split: if_splits option.splits prod.splits Option.bind_splits)
    (auto simp: typeset_def)

lemma loop_typeset: "fmt_loop os sz ev p fmt ind buf s = Some (r, b, s') \<Longrightarrow> typeset s s'"
proof (induction os sz ev p fmt ind buf s arbitrary: r b s' rule: fmt_loop.induct)
  case (1 os sz ev p fmt ind buf s)
  note run = 1(3)
  show ?case
  proof (cases "fmt = [] \<or> \<not> int ind < sz - 1")
    case True
    with run show ?thesis by (subst (asm) fmt_loop.simps) (auto simp: typeset_refl)
  next
    case more: False
    show ?thesis
    proof (cases "hd fmt = CHR ''%''")
      case False
      with run more obtain buf' where "put_buf ind (hd fmt) buf = Some buf'"
        "fmt_loop os sz ev p (tl fmt) (u32_add ind 1) buf' s = Some (r, b, s')"
        by (subst (asm) fmt_loop.simps) (auto split: option.splits)
      with 1(1) more False show ?thesis by blast
    next
      case pct: True
      show ?thesis
      proof (cases "tl fmt = []")
        case True
        with run more pct have "s' = set_error EINVAL s" by (subst (asm) fmt_loop.simps) auto
        then show ?thesis by (simp add: set_error_def typeset_def)
      next
        case False
        with run more pct obtain q buf1 s1 where
          d: "fmt_directive os sz ev p (hd (tl fmt)) (tl (tl fmt)) ind buf s = Some (q, buf1, s1)"
            "case q of Inl i \<Rightarrow> s' = s1 | Inr (i, k) \<Rightarrow>
              fmt_loop os sz ev p (drop k (tl (tl fmt))) i buf1 s1 = Some (r, b, s')"
          by (subst (asm) fmt_loop.simps) (auto split: option.splits sum.splits prod.splits)
        note s1 = directive_typeset [OF d(1)]
        show ?thesis
        proof (cases q)
          case (Inl i)
          with d(2) s1 show ?thesis by simp
        next
          case (Inr ik)
          obtain i k where ik: "ik = (i, k)" by fastforce
          have "typeset s1 s'"
            by (rule 1(2) [OF more _ False d(1) refl Inr ik [symmetric] refl]) (use pct d(2) Inr ik in auto)
          then show ?thesis by (rule typeset_trans [OF s1])
        qed
      qed
    qed
  qed
qed

subsection \<open>The text of an event\<close>

lemma inotify_path_effects:
  "inotify_table (s\<lparr>print_out := q\<rparr>) = inotify_table s" "inotify_path (s\<lparr>print_out := q\<rparr>) = inotify_path s"
proof -
  show "inotify_table (s\<lparr>print_out := q\<rparr>) = inotify_table s" by (simp add: inotify_table_def table_inv_def)
  have "wd_path (s\<lparr>print_out := q\<rparr>) = wd_path s"
    by (rule ext) (simp add: wd_path_def watch_from_wd_def split: option.split)
  then show "inotify_path (s\<lparr>print_out := q\<rparr>) = inotify_path s" by (simp add: inotify_path_def fun_eq_iff)
qed

lemma fprintf_prints:
  assumes t: "inotify_table s" "timefmt s = None"
    and fmt: "fmt \<noteq> []" "NUL \<notin> set fmt" "length fmt \<le> MAX_STRLEN"
    and x: "fmt_reference os ev (inotify_path s ev) None fmt (world s) = Some x" and fits: "length x < MAX_STRLEN"
  shows "\<exists>u out. fprintf_to os put_text ev (Some fmt) s =
      Some (int (length x) - 1, (if x = [] then u else put_text x u)\<lparr>print_out := Some out\<rparr>) \<and>
    formats s u \<and> c_stdout u = c_stdout s \<and> c_stderr u = c_stderr s \<and> world u = world s"
proof -
  let ?s = "s\<lparr>print_out := None\<rparr>"
  define out where "out = (case print_out s of Some out \<Rightarrow> out | None \<Rightarrow> NString_new)"
  have i: "inotify_table ?s" "inotify_path ?s = inotify_path s" using t(1) by (simp_all add: inotify_path_effects)
  then have s: "table_inv ?s" "initialized ?s" "length (evstr ?s) = 1024" by (simp_all add: inotify_table_def)
  note path = filename_from_event_inotify [OF i(1), of os ev]
  have "fmt_reference os ev (inotify_path ?s ev) (timefmt ?s) fmt (world ?s) = Some x"
    using x t(2) i(2) by simp
  from snprintf_reference [OF s path fmt order_refl this, of out] fits obtain out' u where
    u: "snprintf os out (int MAX_STRLEN) ev (Some fmt) ?s = Some ((int (length x) - 1, out'), u)"
      "as_bytes out' = x" "formats ?s u" by auto
  have "typeset ?s u"
    using u(1) fmt path by (auto simp: snprintf_def dest: loop_typeset split: sum.splits Option.bind_splits)
  note ts = typeset_fields [OF this]
  have "formats s u" using formats_trans [OF _ u(3), of s] by simp
  then show ?thesis
    using u(1,2) ts t(2) by (auto simp: fprintf_to_def sprintf_def out_def [symmetric])
qed

lemma printf_prints:
  assumes "inotify_table s" "timefmt s = None" "fmt \<noteq> []" "NUL \<notin> set fmt" "length fmt \<le> MAX_STRLEN"
    and "fmt_reference os ev (inotify_path s ev) None fmt (world s) = Some x" "length x < MAX_STRLEN"
  shows "\<exists>r t. printf os ev (Some fmt) s = Some (r, t) \<and> formats s t \<and> c_stdout t = c_stdout s @ x \<and>
    world t = world s"
proof -
  from fprintf_prints [OF assms, of cprint] obtain u out where
    "printf os ev (Some fmt) s =
      Some (int (length x) - 1, (if x = [] then u else cprint x u)\<lparr>print_out := Some out\<rparr>)"
    "formats s u" "c_stdout u = c_stdout s" "world u = world s" by (auto simp: printf_def)
  then show ?thesis by (cases "x = []") (auto simp: cprint_def)
qed

text \<open>Without a time format, the text does not depend on the system.\<close>

lemma fmt_reference_world:
  "tf = None \<Longrightarrow> fmt_reference os ev p tf fmt w = fmt_reference os ev p tf fmt w'"
proof (induction os ev p tf fmt w arbitrary: w' rule: fmt_reference.induct)
  case (2 c os ev p tf rest w)
  from 2(2) [OF 2(3), of w'] 2(1) show ?case by simp
next
  case (4 os ev p tf ch rest w)
  have piece: "fmt_piece os ev p tf ch rest v = map_option (\<lambda>(x, k, _). (x, k, v)) (fmt_piece os ev p tf ch rest w)"
    for v :: 'a using 4(2) by (auto simp: fmt_piece_def)
  show ?case
  proof (cases "fmt_piece os ev p tf ch rest w")
    case None
    with piece [of w'] show ?thesis by simp
  next
    case (Some r)
    obtain x k u where r: "r = (x, k, u)" by (cases r) auto
    have "fmt_reference os ev p tf (drop k rest) u = fmt_reference os ev p tf (drop k rest) w'"
      by (rule 4(1) [OF _ refl refl]) (use Some r 4(2) in auto)
    then show ?thesis using Some r piece [of w'] by simp
  qed
qed auto

text \<open>The line of an event: CSV, a format of the command line, or the default.\<close>

definition out_format :: "wait_opts \<Rightarrow> string" where
  "out_format o' = (case o_format o' of Some f \<Rightarrow> f | None \<Rightarrow> ''%w %,e %f'' @ nl)"

definition event_line :: "'w os \<Rightarrow> wait_opts \<Rightarrow> event_path \<Rightarrow> event \<Rightarrow> 'w \<Rightarrow> string option" where
  "event_line os o' p ev w =
     (if o_csv o' then Some (csv_line p (ev_mask ev)) else fmt_reference os ev p None (out_format o') w)"

definition format_ok :: "wait_opts \<Rightarrow> bool" where
  "format_ok o' \<longleftrightarrow> o_csv o' \<or>
     out_format o' \<noteq> [] \<and> NUL \<notin> set (out_format o') \<and> length (out_format o') \<le> MAX_STRLEN"

lemma output_event_line:
  assumes t: "inotify_table s" "timefmt s = None" and o': "format_ok o'"
    and x: "event_line os o' (inotify_path s ev) ev w = Some x" and fits: "\<not> o_csv o' \<Longrightarrow> length x < MAX_STRLEN"
  shows "\<exists>t. output_event os o' ev s = Some t \<and> formats s t \<and> c_stdout t = c_stdout s @ x \<and> world t = world s"
proof (cases "o_csv o'")
  case True
  from output_event_csv_total [OF _ _ _ filename_from_event_inotify [OF t(1), of os ev]] t(1) x True show ?thesis
    by (auto simp: inotify_table_def output_event_def event_line_def)
next
  case False
  have "fmt_reference os ev (inotify_path s ev) None (out_format o') (world s) = Some x"
    using x False fmt_reference_world [OF refl, of os ev _ "out_format o'" w "world s"] by (simp add: event_line_def)
  from printf_prints [OF t _ _ _ this fits [OF False]] o' False obtain r u where
    "printf os ev (Some (out_format o')) s = Some (r, u)" "formats s u" "c_stdout u = c_stdout s @ x" "world u = world s"
    by (auto simp: format_ok_def)
  with False show ?thesis
    by (cases "o_format o'") (auto simp: output_event_def out_format_def)
qed

subsection \<open>Which formats are accepted\<close>

text \<open>The event a format is tried out on, and its path.\<close>

definition made_up_event :: event where
  "made_up_event = \<lparr>ev_wd = 0, ev_mask = IN_ALL_EVENTS, ev_cookie = 0, ev_len = 3, ev_name = []\<rparr>"

definition no_path :: event_path where
  "no_path = \<lparr>ep_filename = [], ep_dirnamelen = 0, ep_eventname = []\<rparr>"

lemma validate_format_run:
  assumes t: "inotify_table s" "timefmt s = None"
    and devnull: "os_fopen os ''/dev/null'' ''a'' (world s) = ((Some file, e), w)"
    and fmt: "fmt \<noteq> []" "NUL \<notin> set fmt" "length fmt \<le> MAX_STRLEN"
    and x: "fmt_reference os made_up_event no_path None fmt w = Some x" and fits: "length x < MAX_STRLEN"
  shows "\<exists>s'. validate_format os fmt s = Some (if x = [] then Some EXIT_FAILURE else None, s') \<and>
    formats s s' \<and> c_stdout s' = c_stdout s \<and> world s' = snd (os_fclose os file w) \<and>
    c_stderr s' = c_stderr s @ (if x = [] then ''Something is wrong with your format string.'' @ nl else [])"
proof -
  let ?s = "s\<lparr>world := w\<rparr>"
  have i: "inotify_table ?s" using t(1) by (simp add: inotify_table_def table_inv_def)
  have "inotify_path ?s made_up_event = no_path"
    by (simp add: inotify_path_def made_up_event_def no_path_def wd_path_def)
  with fprintf_prints [OF i _ fmt _ fits, of os made_up_event "\<lambda>m s. s"] x t(2) obtain u out where
    u: "fprintf_to os (\<lambda>m s. s) made_up_event (Some fmt) ?s = Some (int (length x) - 1, u\<lparr>print_out := Some out\<rparr>)"
      "formats ?s u" "c_stdout u = c_stdout s" "c_stderr u = c_stderr s" "world u = w" by auto
  have f: "formats s u" using formats_trans [OF _ u(2), of s] by simp
  obtain r w' where close: "os_fclose os file w = (r, w')" by fastforce
  show ?thesis
    using devnull u(1,3-5) f close
    by (cases "x = []") (simp_all add: validate_format_def made_up_event_def [symmetric] sys_def ceprint_def)
qed

text \<open>C30.
  A format without a time is tried out on an event that has no names, and rejected with a message
  and exit code 1 exactly when its text for that event is empty: so \<open>%f\<close> and \<open>%w%f\<close> are rejected when
  no newline is appended, although they are formats like any other. Nothing is printed.\<close>

theorem format_validated:
  assumes t: "inotify_table s" "timefmt s = None"
    and devnull: "os_fopen os ''/dev/null'' ''a'' (world s) = ((Some file, e), w)"
    and fmt: "fmt \<noteq> []" "NUL \<notin> set fmt" "length fmt \<le> MAX_STRLEN"
    and x: "fmt_reference os made_up_event no_path None fmt w = Some x" and fits: "length x < MAX_STRLEN"
  shows "\<exists>s'. validate_format os fmt s = Some (if x = [] then Some EXIT_FAILURE else None, s') \<and>
    formats s s' \<and> c_stdout s' = c_stdout s \<and> world s' = snd (os_fclose os file w) \<and>
    c_stderr s' = c_stderr s @ (if x = [] then ''Something is wrong with your format string.'' @ nl else [])"
  by (rule validate_format_run [OF assms])

theorem format_validated_witness:
  "\<exists>s'. validate_format (quiet_os\<lparr>os_fopen := \<lambda>_ _ w. ((Some 5, 0), w)\<rparr>) ''%w%f'' (one_watch ''/d/'') =
     Some (Some EXIT_FAILURE, s')"
proof -
  let ?s = "one_watch ''/d/''" and ?os = "quiet_os\<lparr>os_fopen := \<lambda>_ _ w. ((Some 5, 0), w)\<rparr>"
  note o = one_watch_facts [of "''/d/''"]
  have t: "inotify_table ?s"
    using o one_watch_evstr [of "''/d/''"]
    by (simp add: inotify_table_def) (simp add: one_watch_def register_def Let_def)
  have tf: "timefmt ?s = None" by (simp add: one_watch_def register_def Let_def)
  have x: "fmt_reference ?os made_up_event no_path None ''%w%f'' () = Some []"
    by (simp add: fmt_piece_def no_path_def ep_dirname_def)
  show ?thesis
    using format_validated [OF t tf _ _ _ _ x, of 5 0] by (auto simp: MAX_STRLEN_def)
qed

end
