(* ===== verification/Monitor.thy ===== *)
theory Monitor
  imports Printing Feed
begin

text \<open>
  The loop of \<open>inotifywait\<close> over the events of the library, for a kernel that hands over batch after
  batch: monitoring until a poll times out, and waiting for one event.
\<close>

subsection \<open>One event\<close>

text \<open>The options of the runs that are followed here: no directory trees, and a format that fits.\<close>

definition plain_files :: "wait_opts \<Rightarrow> bool" where
  "plain_files o' \<longleftrightarrow> o_recursive o' = 0 \<and> \<not> o_filesystem o' \<and> format_ok o'"

abbreviation poll_timeout :: "wait_opts \<Rightarrow> int" where
  "poll_timeout o' \<equiv> (if o_timeout o' = 0 then -1 else o_timeout o')"

text \<open>The lines of events; without CSV, they have to fit the library's buffer.\<close>

definition lines_ok :: "'w os \<Rightarrow> wait_opts \<Rightarrow> 'w \<Rightarrow> (event \<Rightarrow> string) \<Rightarrow> (event \<Rightarrow> event_path) \<Rightarrow> event list \<Rightarrow> bool" where
  "lines_ok os o' w line path evs \<longleftrightarrow>
     (\<forall>e\<in>set evs. event_line os o' (path e) e w = Some (line e) \<and> (o_csv o' \<or> length (line e) < MAX_STRLEN))"

lemma lines_ok_append:
  "lines_ok os o' w line path (xs @ ys) \<longleftrightarrow> lines_ok os o' w line path xs \<and> lines_ok os o' w line path ys"
  by (auto simp: lines_ok_def)

lemma wait_event_line:
  assumes t: "inotify_table s" "timefmt s = None" and o': "plain_files o'"
    and l: "lines_ok os o' w line (inotify_path s) [e]"
  shows "\<exists>s'. wait_event os fuel o' e None s = Some (None, s') \<and> formats s s' \<and> world s' = world s \<and>
    c_stdout s' = c_stdout s @ (if event_shown o' e then line e else [])"
proof -
  have "format_ok o'" "event_line os o' (inotify_path s e) e w = Some (line e)" "\<not> o_csv o' \<Longrightarrow> length (line e) < MAX_STRLEN"
    using o' l by (auto simp: plain_files_def lines_ok_def)
  from output_event_line [OF t this] obtain u where
    "output_event os o' e s = Some u" "formats s u" "world u = world s" "c_stdout u = c_stdout s @ line e" by blast
  then show ?thesis
    using o' by (cases "event_shown o' e") (simp_all add: wait_event_def handle_plain plain_files_def)
qed

text \<open>The lines that are printed for events.\<close>

definition printed :: "'w os \<Rightarrow> wait_opts \<Rightarrow> (event \<Rightarrow> string) \<Rightarrow> 'w machine \<Rightarrow> event list \<Rightarrow> string" where
  "printed os o' line s evs = concat (map line (filter (\<lambda>e. passes os s e \<and> event_shown o' e) evs))"

lemma printed_append: "printed os o' line s (xs @ ys) = printed os o' line s xs @ printed os o' line s ys"
  by (simp add: printed_def)

lemma printed_none: "filter (passes os s) evs = [] \<Longrightarrow> printed os o' line s evs = []"
  by (simp add: printed_def filter_empty_conv)

lemma printed_same: "passes os t = passes os s \<Longrightarrow> printed os o' line t = printed os o' line s"
  by (simp add: printed_def fun_eq_iff)

subsection \<open>Batch after batch\<close>

text \<open>The kernel lets the poll time out when nothing is left.\<close>

abbreviation timed_out :: "int \<times> int \<Rightarrow> 'w \<Rightarrow> bool" where
  "timed_out r w \<equiv> fst r = 0"

text \<open>A call that gets an event, and what happens to the event.\<close>

lemma event_feed:
  assumes x: "current_event s1 = x" "fed s s1" "waiting queued s1 es cs" and tf: "timefmt s = None"
    and o': "plain_files o'" and l: "lines_ok os o' w line (inotify_path s) [x]"
  shows "\<exists>s2. wait_event os fuel o' x None (counted x s1) = Some (None, s2) \<and> waiting queued s2 es cs \<and>
    passes os s2 = passes os s \<and> inotify_path s2 = inotify_path s \<and> fd s2 = fd s \<and> timefmt s2 = None \<and>
    c_stdout s2 = c_stdout s @ (if event_shown o' x then line x else [])"
proof -
  let ?t = "counted x s1"
  have t1: "inotify_table s1" by (rule waiting_inotify [OF x(3)])
  note c = counted_reader [OF t1] counted_more [of x s1] and ff = fed_fields [OF x(2)]
  have w: "waiting queued ?t es cs" by (rule waiting_world [OF x(3)]) (simp_all add: c fun_eq_iff)
  have same: "event_text ?t = event_text s" "passes os ?t = passes os s"
    using c(4,5) fed_same [OF x(2)] by simp_all
  have "lines_ok os o' w line (inotify_path ?t) [x]" "timefmt ?t = None"
    using l tf inotify_path_same [OF same(1)] c(10) ff(18) by simp_all
  from wait_event_line [OF waiting_inotify [OF w] this(2) o' this(1), of fuel] obtain s2 where
    s2: "wait_event os fuel o' x None ?t = Some (None, s2)" "formats ?t s2" "world s2 = world ?t"
      "c_stdout s2 = c_stdout ?t @ (if event_shown o' x then line x else [])" by blast
  note fr = formats_reader [OF s2(2) waiting_inotify [OF w]]
  have "waiting queued s2 es cs" using fr s2(3) by (intro waiting_world [OF w]) (auto simp: fun_eq_iff)
  moreover have "inotify_path s2 = inotify_path s" using fr(3) same(1) by (intro inotify_path_same) simp
  ultimately show ?thesis
    using s2(1,4) fr(4,5) same(2) c(7,8,10) ff(15,16,18) tf formats_fields(14) [OF s2(2)] by simp
qed

lemma monitor_feed:
  "waiting queued s evs bs \<Longrightarrow> feeds os queued (fd s) (poll_timeout o') timed_out \<Longrightarrow> length (evs @ concat bs) < fuel \<Longrightarrow>
     o_monitor o' \<Longrightarrow> plain_files o' \<Longrightarrow> timefmt s = None \<Longrightarrow> lines_ok os o' w line (inotify_path s) (evs @ concat bs) \<Longrightarrow>
     \<exists>s'. wait_loop os fuel o' None s = Some (Inl EXIT_TIMEOUT, s') \<and>
       c_stdout s' = c_stdout s @ printed os o' line s (evs @ concat bs)"
proof (induction "length (evs @ concat bs)" arbitrary: evs bs s fuel rule: less_induct)
  case less
  obtain f where f: "fuel = Suc f" using less.prems(3) by (cases fuel) auto
  have ini: "initialized s" using waiting_inotify [OF less.prems(1)] by (simp add: inotify_table_def)
  note call = next_event_loop [OF ini, of os fuel "o_timeout o'"]
  from loop_feed [OF less.prems(1-3)] show ?case
  proof (cases rule: feed_resultE)
    case (none rc e s1)
    then show ?thesis
      using call fed_fields(16) [OF none(3)] printed_none [OF none(1)] by (simp add: f)
  next
    case (event pre x es cs s1)
    have l: "lines_ok os o' w line (inotify_path s) [x]" "lines_ok os o' w line (inotify_path s) (es @ concat cs)"
      using less.prems(7) unfolding event(1) by (auto simp: lines_ok_def)
    from event_feed [OF event(5-7) less.prems(6,5) l(1), of fuel] obtain s2 where
      s2: "wait_event os fuel o' x None (counted x s1) = Some (None, s2)" "waiting queued s2 es cs"
        "passes os s2 = passes os s" "inotify_path s2 = inotify_path s" "fd s2 = fd s" "timefmt s2 = None"
        "c_stdout s2 = c_stdout s @ (if event_shown o' x then line x else [])" by blast
    have "\<exists>s'. wait_loop os f o' None s2 = Some (Inl EXIT_TIMEOUT, s') \<and>
       c_stdout s' = c_stdout s2 @ printed os o' line s2 (es @ concat cs)"
    proof (rule less.hyps [OF _ s2(2) _ _ less.prems(4,5) s2(6)])
      show "length (es @ concat cs) < length (evs @ concat bs)" "length (es @ concat cs) < f"
        using event(1) less.prems(3) f by simp_all
      show "feeds os queued (fd s2) (poll_timeout o') timed_out" using less.prems(2) s2(5) by simp
      show "lines_ok os o' w line (inotify_path s2) (es @ concat cs)" using l(2) s2(4) by simp
    qed
    moreover have "printed os o' line s (evs @ concat bs) =
        (if event_shown o' x then line x else []) @ printed os o' line s (es @ concat cs)"
      using event(3) printed_none [OF event(2)] unfolding event(1)
      by (simp add: printed_append) (simp add: printed_def)
    moreover have "next_event os fuel (o_timeout o') s = Some (Some x, counted x s1)"
      using call event(4,5) counted_reader(2) [OF waiting_inotify [OF event(7)]] by simp
    ultimately show ?thesis
      using s2(1,7) less.prems(4) printed_same [OF s2(3)] by (auto simp: f)
  qed
qed

text \<open>Waiting for one event: the first that passes the filter, or the timeout.\<close>

lemma wait_feed:
  assumes w: "waiting queued s evs bs" and k: "feeds os queued (fd s) (poll_timeout o') timed_out"
    and fuel: "length (evs @ concat bs) < fuel" and o': "\<not> o_monitor o'" "plain_files o'" and tf: "timefmt s = None"
    and l: "lines_ok os o' v line (inotify_path s) (evs @ concat bs)"
  shows "\<exists>s'. wait_loop os fuel o' None s = Some
      (case filter (passes os s) (evs @ concat bs) of [] \<Rightarrow> Inl EXIT_TIMEOUT | x # _ \<Rightarrow> Inr x, s') \<and>
    c_stdout s' = c_stdout s @ (case filter (passes os s) (evs @ concat bs) of [] \<Rightarrow> []
      | x # _ \<Rightarrow> if event_shown o' x then line x else [])"
proof -
  obtain f where f: "fuel = Suc f" using fuel by (cases fuel) auto
  have ini: "initialized s" using waiting_inotify [OF w] by (simp add: inotify_table_def)
  note call = next_event_loop [OF ini, of os fuel "o_timeout o'"]
  from loop_feed [OF w k fuel] show ?thesis
  proof (cases rule: feed_resultE)
    case (none rc e s1)
    then show ?thesis using call fed_fields(16) [OF none(3)] by (simp add: f)
  next
    case (event pre x es cs s1)
    have "lines_ok os o' v line (inotify_path s) [x]"
      using l unfolding event(1) by (auto simp: lines_ok_def)
    from event_feed [OF event(5-7) tf o'(2) this, of fuel] obtain s2 where
      "wait_event os fuel o' x None (counted x s1) = Some (None, s2)"
      "c_stdout s2 = c_stdout s @ (if event_shown o' x then line x else [])" by blast
    moreover have "next_event os fuel (o_timeout o') s = Some (Some x, counted x s1)"
      using call event(4,5) counted_reader(2) [OF waiting_inotify [OF event(7)]] by simp
    moreover have "filter (passes os s) (evs @ concat bs) = x # filter (passes os s) (es @ concat cs)"
      using event(2,3) unfolding event(1) by simp
    ultimately show ?thesis using o'(1) by (simp add: f)
  qed
qed

end
