(* ===== verification/FileWatches.thy ===== *)
theory FileWatches
  imports Feed Common
begin

text \<open>
  Watching the files of the command line, against a kernel that grants a descriptor for each of
  them: the table then leads from every descriptor to the name of the first file that has it. Both
  programs set up their watches this way.
\<close>

subsection \<open>The files and their descriptors\<close>

text \<open>The name a file is watched under, and what the kernel answers when it is added.\<close>

definition watched_name :: "(string \<Rightarrow> bool) \<Rightarrow> string \<Rightarrow> string" where
  "watched_name isd f =
     cstring f @ (if isd f \<and> (cstring f = [] \<or> last (cstring f) \<noteq> CHR ''/'') then ''/'' else [])"

definition watchable ::
  "'w os \<Rightarrow> ('w \<Rightarrow> event list list \<Rightarrow> bool) \<Rightarrow> int \<Rightarrow> u32 \<Rightarrow> (string \<Rightarrow> int) \<Rightarrow> (string \<Rightarrow> bool) \<Rightarrow> string \<Rightarrow> bool" where
  "watchable os queued d events wdof isd f \<longleftrightarrow> 0 < wdof f \<and>
     (\<forall>w bs. queued w bs \<longrightarrow>
        (\<exists>e w' r e' mode w''. os_inotify_add_watch os d (cstring f) events w = ((wdof f, e), w') \<and>
           os_lstat os (cstring f) w' = ((r, e', mode), w'') \<and> queued w'' bs \<and>
           (isd f \<longleftrightarrow> r \<noteq> -1 \<and> mode AND S_IFMT = S_IFDIR)))"

text \<open>The name of a descriptor: the first of the files that has it.\<close>

definition wd_name :: "(string \<Rightarrow> int) \<Rightarrow> (string \<Rightarrow> bool) \<Rightarrow> string list \<Rightarrow> int \<Rightarrow> string" where
  "wd_name wdof isd files wd =
     (case find (\<lambda>f. wdof f = wd) files of None \<Rightarrow> [] | Some f \<Rightarrow> watched_name isd f)"

lemma cstring_watched_name: "cstring (watched_name isd f) = watched_name isd f"
  by (simp add: watched_name_def cstring_id)

lemma inotify_register:
  assumes t: "inotify_table s" and wd: "0 < wd" and name: "cstring name = name"
  shows "inotify_table (register os wd None name 0 s)"
    and "wd_path (register os wd None name 0 s) =
      (if watch_from_wd s wd = None then (wd_path s)(wd := name) else wd_path s)"
    and "watch_from_wd (register os wd None name 0 s) v = None \<longleftrightarrow> v \<noteq> wd \<and> watch_from_wd s v = None"
    and "settings (register os wd None name 0 s) = settings s"
    and "c_stdout (register os wd None name 0 s) = c_stdout s" "world (register os wd None name 0 s) = world s"
proof -
  let ?r = "register os wd None name 0 s"
  have inv: "table_inv s" using t by (simp add: inotify_table_def)
  note r = register_table [OF inv, where os = os and wd = wd and fid = None and filename = name and dirf = 0]
  show set: "settings ?r = settings s"
    by (rule grownD(3) [OF register_grown [OF inv wd]])
  show "c_stdout ?r = c_stdout s" "world ?r = world s"
    by (simp_all add: register_def Let_def drop_watch_def)
  show "watch_from_wd ?r v = None \<longleftrightarrow> v \<noteq> wd \<and> watch_from_wd s v = None"
    using r(1) by (simp add: watch_from_wd_def filed_def)
  have "\<forall>n w. watches ?r n = Some w \<longrightarrow> w_fid w = None"
    using t by (auto simp: register_def Let_def inotify_table_def drop_watch_def)
  then show "inotify_table ?r"
    using t register_inv [OF inv wd] settings_sel [OF set] by (simp add: inotify_table_def)
  have old: "watches ?r n = watches s n" if "watch_from_wd s v = Some n" for v n
  proof -
    from watch_from_wd_found [OF inv that] obtain w where "watches s n = Some w" by blast
    then have "n \<noteq> next_id s" using table_invD(7) [OF inv] by auto
    then show ?thesis by (rule r(5))
  qed
  show "wd_path ?r = (if watch_from_wd s wd = None then (wd_path s)(wd := name) else wd_path s)"
  proof
    fix v
    show "wd_path ?r v = (if watch_from_wd s wd = None then (wd_path s)(wd := name) else wd_path s) v"
    proof (cases "watch_from_wd s wd = None \<and> v = wd")
      case True
      then have "watches ?r (next_id s) = Some (new_watch wd None name 0)"
        by (intro register_stored) (simp add: watch_from_wd_def)
      with True wd name show ?thesis
        by (simp add: wd_path_def watch_from_wd_def r(1) filed_def)
    next
      case False
      then have "watch_from_wd ?r v = watch_from_wd s v"
        using r(1) by (auto simp: watch_from_wd_def filed_def)
      with False old [of v] show ?thesis
        by (auto simp: wd_path_def split: option.split)
    qed
  qed
qed

text \<open>A new watch has counted nothing.\<close>

definition counters_zero :: "'w machine \<Rightarrow> bool" where
  "counters_zero s \<longleftrightarrow> (\<forall>n w. watches s n = Some w \<longrightarrow> w_stats w = stats_default)"

lemma counters_zero_register: "counters_zero s \<Longrightarrow> counters_zero (register os wd None name 0 s)"
  by (auto simp: counters_zero_def register_def Let_def drop_watch_def)

text \<open>What watching leaves alone.\<close>

definition set_up :: "'w machine \<Rightarrow> 'w machine \<Rightarrow> bool" where
  "set_up s t \<longleftrightarrow> settings t = settings s \<and> c_stdout t = c_stdout s"

lemma set_up_fields:
  assumes "set_up s t"
  shows "initialized t = initialized s" "fanotify_mode t = fanotify_mode s" "fd t = fd s"
    "first_byte t = first_byte s" "regex t = regex s" "c_stdout t = c_stdout s"
  using assms settings_sel [of t s] by (simp_all add: set_up_def)

lemma wd_path_effects:
  "wd_path (s\<lparr>world := x\<rparr>) = wd_path s" "wd_path (s\<lparr>error := e\<rparr>) = wd_path s"
  "wd_path (s\<lparr>c_stderr := m\<rparr>) = wd_path s" "watch_from_wd (s\<lparr>world := x\<rparr>) = watch_from_wd s"
  "watch_from_wd (s\<lparr>error := e\<rparr>) = watch_from_wd s" "watch_from_wd (s\<lparr>c_stderr := m\<rparr>) = watch_from_wd s"
  by (intro ext; simp add: wd_path_def watch_from_wd_def split: option.split)+

lemma isdir_set_up:
  assumes "isdir os path s = (dir, t)" and "inotify_table s"
  shows "set_up s t" "inotify_table t" "wd_path t = wd_path s" "watch_from_wd t = watch_from_wd s"
  using assms
  by (auto simp: isdir_def sys_def Let_def ceprint_def set_up_def settings_effects inotify_table_def
      table_inv_def wd_path_effects split: prod.splits if_splits)

lemma watch_file_registers:
  assumes t: "inotify_table s" and k: "watchable os queued (fd s) events wdof isd f" and q: "queued (world s) bs"
  shows "\<exists>u. watch_file os f events s = Some (True, register os (wdof f) None (watched_name isd f) 0 u) \<and>
    inotify_table u \<and> set_up s u \<and> queued (world u) bs \<and> wd_path u = wd_path s \<and>
    watch_from_wd u = watch_from_wd s \<and> by_filename u = by_filename s \<and> next_id u = next_id s \<and> watches u = watches s"
proof -
  from k q obtain e w1 r e' mode w2 where
    add: "os_inotify_add_watch os (fd s) (cstring f) events (world s) = ((wdof f, e), w1)"
    and stat: "os_lstat os (cstring f) w1 = ((r, e', mode), w2)" "isd f \<longleftrightarrow> r \<noteq> -1 \<and> mode AND S_IFMT = S_IFDIR"
    and w2: "queued w2 bs" and wd: "0 < wdof f"
    unfolding watchable_def by blast
  let ?t = "s\<lparr>error := 0, world := w1\<rparr>"
  have t': "inotify_table ?t" using t by (simp add: inotify_table_def table_inv_def)
  obtain dir u where u: "isdir os (cstring f) ?t = (dir, u)" by (metis surj_pair)
  have dir: "dir \<longleftrightarrow> isd f" and world: "world u = w2" "next_id u = next_id s" "watches u = watches s"
    using u stat by (auto simp: isdir_def sys_def Let_def ceprint_def split: if_splits)
  note iu = isdir_set_up [OF u t'] isdir_keeps [OF u]
  have s0: "set_up s ?t" "wd_path ?t = wd_path s" "watch_from_wd ?t = watch_from_wd s"
    by (simp_all add: set_up_def settings_effects wd_path_effects)
  have "watch_file os f events s = Some (True, register os (wdof f) None (watched_name isd f) 0 u)"
    using t add wd u dir
    by (auto simp: watch_file_def watch_files_def watch_one_def add_kernel_watch_def sys_def Let_def
        create_watch_register watched_name_def inotify_table_def)
  moreover have "set_up s u" using s0(1) iu(1) by (simp add: set_up_def)
  ultimately show ?thesis
    using w2 world iu(2-5) s0(2,3) by (intro exI [of _ u]) simp
qed

lemma watch_file_set_up:
  assumes t: "inotify_table s" and k: "watchable os queued (fd s) events wdof isd f" and q: "queued (world s) bs"
  shows "\<exists>t. watch_file os f events s = Some (True, t) \<and> inotify_table t \<and> set_up s t \<and>
    queued (world t) bs \<and>
    wd_path t = (if watch_from_wd s (wdof f) = None then (wd_path s)(wdof f := watched_name isd f) else wd_path s) \<and>
    (\<forall>v. watch_from_wd t v = None \<longleftrightarrow> v \<noteq> wdof f \<and> watch_from_wd s v = None) \<and>
    (counters_zero s \<longrightarrow> counters_zero t)"
proof -
  from watch_file_registers [where queued = queued, OF assms] obtain u where
    u: "watch_file os f events s = Some (True, register os (wdof f) None (watched_name isd f) 0 u)"
      "inotify_table u" "set_up s u" "queued (world u) bs" "wd_path u = wd_path s"
      "watch_from_wd u = watch_from_wd s" "watches u = watches s" by blast
  have wd: "0 < wdof f" using k by (simp add: watchable_def)
  note reg = inotify_register [OF u(2) wd cstring_watched_name, of os isd f]
  have "set_up s (register os (wdof f) None (watched_name isd f) 0 u)"
    using u(3) reg(4,5) by (simp add: set_up_def)
  moreover have "counters_zero u = counters_zero s" by (simp only: counters_zero_def u(7))
  then have "counters_zero s \<longrightarrow> counters_zero (register os (wdof f) None (watched_name isd f) 0 u)"
    using counters_zero_register by blast
  ultimately show ?thesis using u reg(1-3,6) by simp
qed

lemma watch_list_set_up:
  "inotify_table s \<Longrightarrow> queued (world s) bs \<Longrightarrow> \<forall>f\<in>set fs. watchable os queued (fd s) events wdof isd f \<Longrightarrow>
     \<exists>t. watch_list_loop os fuel l events False False fan verb out (\<lambda>_ s. s) (\<lambda>_ s. s) fs s = Some (True, t) \<and>
       inotify_table t \<and> set_up s t \<and> queued (world t) bs \<and>
       (\<forall>v. wd_path t v = (if watch_from_wd s v = None then wd_name wdof isd fs v else wd_path s v)) \<and>
       (\<forall>v. watch_from_wd t v = None \<longleftrightarrow> v \<notin> wdof ` set fs \<and> watch_from_wd s v = None) \<and>
       (counters_zero s \<longrightarrow> counters_zero t)"
proof (induction fs arbitrary: s)
  case Nil
  then show ?case by (simp add: set_up_def wd_name_def wd_path_def)
next
  case (Cons f fs)
  from watch_file_set_up [where queued = queued, OF Cons.prems(1) _ Cons.prems(2), of os events wdof isd f] Cons.prems(3) obtain u where
    u: "watch_file os f events s = Some (True, u)" "inotify_table u" "set_up s u" "queued (world u) bs"
      "wd_path u = (if watch_from_wd s (wdof f) = None then (wd_path s)(wdof f := watched_name isd f) else wd_path s)"
      "\<And>v. watch_from_wd u v = None \<longleftrightarrow> v \<noteq> wdof f \<and> watch_from_wd s v = None"
      "counters_zero s \<longrightarrow> counters_zero u" by auto
  have "\<forall>f\<in>set fs. watchable os queued (fd u) events wdof isd f"
    using Cons.prems(3) set_up_fields(3) [OF u(3)] by simp
  from Cons.IH [OF u(2) _ this] u(4) obtain t where
    t: "watch_list_loop os fuel l events False False fan verb out (\<lambda>_ s. s) (\<lambda>_ s. s) fs u = Some (True, t)"
      "inotify_table t" "set_up u t" "queued (world t) bs"
      "\<And>v. wd_path t v = (if watch_from_wd u v = None then wd_name wdof isd fs v else wd_path u v)"
      "\<And>v. watch_from_wd t v = None \<longleftrightarrow> v \<notin> wdof ` set fs \<and> watch_from_wd u v = None"
      "counters_zero u \<longrightarrow> counters_zero t" by blast
  have "wd_path t v = (if watch_from_wd s v = None then wd_name wdof isd (f # fs) v else wd_path s v)" for v
    using t(5) [of v] u(5,6) by (auto simp: wd_name_def)
  moreover have "watch_from_wd t v = None \<longleftrightarrow> v \<notin> wdof ` set (f # fs) \<and> watch_from_wd s v = None" for v
    using t(6) [of v] u(6) [of v] by auto
  moreover have "set_up s t" using u(3) t(3) by (simp add: set_up_def)
  moreover have "watch_list_loop os fuel l events False False fan verb out (\<lambda>_ s. s) (\<lambda>_ s. s) (f # fs) s = Some (True, t)"
    using u(1) t(1) by simp
  ultimately show ?case using t(2,4,7) u(7) by blast
qed

subsection \<open>The filter of the command line\<close>

text \<open>At most one filter is given, and it is a regular expression; what it keeps.\<close>

definition filters_ok :: "'w os \<Rightarrow> filters \<Rightarrow> bool" where
  "filters_ok os f \<longleftrightarrow> length (given_filters f) \<le> 1 \<and>
     (\<forall>(p, flags, _)\<in>set (given_filters f). os_regcomp os (cstring p) (or_flag flags REG_NOSUB) = 0)"

definition kept :: "'w os \<Rightarrow> filters \<Rightarrow> string \<Rightarrow> bool" where
  "kept os f path \<longleftrightarrow>
     (\<forall>(p, flags, inverted)\<in>set (given_filters f).
        (os_regexec os \<lparr>re_pattern = cstring p, re_flags = or_flag flags REG_NOSUB\<rparr> path = 0) = inverted)"

text \<open>The file that an event is about, which is what the filter looks at.\<close>

definition event_file :: "(string \<Rightarrow> int) \<Rightarrow> (string \<Rightarrow> bool) \<Rightarrow> string list \<Rightarrow> event \<Rightarrow> string" where
  "event_file wdof isd files ev =
     wd_name wdof isd files (ev_wd ev) @ (if ev_len ev > 0 then ev_name ev else [])"

definition installed :: "filters \<Rightarrow> 'w machine \<Rightarrow> 'w machine" where
  "installed f s =
     (case given_filters f of
        [] \<Rightarrow> s
      | (p, flags, inverted) # _ \<Rightarrow> s\<lparr>invert_regexp := inverted, recursive_watch := 0,
          regex := Some \<lparr>re_pattern = cstring p, re_flags = or_flag flags REG_NOSUB\<rparr>\<rparr>)"

lemma install_filters: "filters_ok os f \<Longrightarrow> install os f 0 s = (True, installed f s)"
  by (cases "f_exc f"; cases "f_exci f"; cases "f_inc f"; cases "f_inci f")
    (simp_all add: filters_ok_def installed_def given_filters_def install_def Let_def
      ignore_events_by_regex_def ignore_events_by_inverted_regex_def do_ignore_events_by_regex_def)

lemma filters_cases:
  obtains "given_filters f = []" | p flags inverted ps where "given_filters f = (p, flags, inverted) # ps"
  by (cases "given_filters f") auto

definition filtering :: "filters \<Rightarrow> 'w machine \<Rightarrow> bool" where
  "filtering f t \<longleftrightarrow>
     (case given_filters f of
        [] \<Rightarrow> regex t = None
      | (p, flags, inverted) # _ \<Rightarrow> invert_regexp t = inverted \<and> recursive_watch t = 0 \<and>
          regex t = Some \<lparr>re_pattern = cstring p, re_flags = or_flag flags REG_NOSUB\<rparr>)"

lemma filtering_set_up: "set_up s t \<Longrightarrow> filtering f t = filtering f s"
  using settings_sel [of t s] by (simp add: filtering_def set_up_def split: list.split)

lemma passes_filtering:
  assumes "filters_ok os f" and "filtering f t" and "wd_path t = wd_name wdof isd files"
  shows "passes os t ev = kept os f (event_file wdof isd files ev)"
proof -
  have "event_text t ev = event_file wdof isd files ev" by (simp add: event_text_def event_file_def assms(3))
  with assms(1,2) show ?thesis
    by (cases "given_filters f") (auto simp: filters_ok_def filtering_def kept_def passes_def)
qed

end
