(* ===== verification/WaitRun.thy ===== *)
theory WaitRun
  imports Monitor FileWatches
begin

text \<open>
  The whole of \<open>inotifywait\<close>, from the command line to the exit code: the options, the library, the
  format, the watches of the files, and the loop over what the kernel delivers. The answers of the
  kernel are those that \<open>inotify(7)\<close> documents: an instance, a descriptor for each file, and then
  batches of events until a poll times out.
\<close>

subsection \<open>The program\<close>

text \<open>
  The options of the runs followed here: any output without times, a filter or none, on files, in
  the foreground, with a timeout.
\<close>

definition plain_run :: "'w os \<Rightarrow> wait_opts \<Rightarrow> bool" where
  "plain_run os o' \<longleftrightarrow> plain_files o' \<and> (o_csv o' \<longrightarrow> o_format o' = None) \<and> o_timefmt o' = None \<and>
     filters_ok os (o_filters o') \<and> \<not> o_fanotify o' \<and> \<not> o_daemon o' \<and> \<not> o_syslog o' \<and>
     o_outfile o' = None \<and> o_fromfile o' = None \<and> 0 < o_timeout o'"

text \<open>Trying out a format, which has a text for an event without names; the world behind it.\<close>

definition format_tried :: "'w os \<Rightarrow> wait_opts \<Rightarrow> 'w \<Rightarrow> 'w \<Rightarrow> bool" where
  "format_tried os o' w w' \<longleftrightarrow>
     (case o_format o' of
        None \<Rightarrow> w' = w
      | Some f \<Rightarrow> (\<exists>file e w1 x. os_fopen os ''/dev/null'' ''a'' w = ((Some file, e), w1) \<and>
          fmt_reference os made_up_event no_path None f w1 = Some x \<and> x \<noteq> [] \<and> length x < MAX_STRLEN \<and>
          w' = snd (os_fclose os file w1)))"

definition fresh :: "int \<Rightarrow> wait_opts \<Rightarrow> 'w machine \<Rightarrow> bool" where
  "fresh d o' s \<longleftrightarrow> inotify_table s \<and> fd s = d \<and> c_stdout s = [] \<and> first_byte s = 0 \<and>
     filtering (o_filters o') s \<and> by_wd s = [] \<and> timefmt s = None"

lemma fresh_formats:
  assumes "formats s t" and "c_stdout t = c_stdout s" and "fresh d o' s"
  shows "fresh d o' t"
proof -
  note f = formats_fields [OF assms(1)]
  show ?thesis
    using assms(2,3) formats_reader(1) [OF assms(1)] f
    by (cases rule: filters_cases [of "o_filters o'"]) (simp_all add: fresh_def filtering_def)
qed

lemma wait_setup_plain:
  assumes name: "\<not> invoked_as_fsnotify (argv0 g)"
    and parse: "wait_parse_opts os v g (wait_opts_default\<lparr>o_fanotify := False\<rparr>) (machine_new w) =
      (Some (args, o'), machine_new w)"
    and o': "plain_run os o'" and kernel: "os_inotify_init os w = ((d, e), w1)" "0 \<le> d"
    and tried: "format_tried os o' w1 w2"
  shows "\<exists>s. wait_setup os v g (machine_new w) = Some (Inr (args, o'), s) \<and> fresh d o' s \<and> world s = w2"
proof -
  let ?v = "if o_quiet o' = 0 then 1 else 0 :: int"
  obtain s0 where i: "init os False False ?v (machine_new w) = (True, s0)" "inotify_table s0" "fd s0 = d" "world s0 = w1"
    "c_stdout s0 = []" "first_byte s0 = 0" "by_wd s0 = []" "timefmt s0 = None" "regex s0 = None"
    using kernel by (simp add: init_def sys_def inotify_table_def table_inv_def wd_ix.points_def fid_ix.points_def
        name_ix.points_def)
  let ?s = "installed (o_filters o') s0"
  have "install os (o_filters o') 0 s0 = (True, ?s)"
    using o' by (intro install_filters) (simp add: plain_run_def)
  then have s: "wait_setup os v g (machine_new w) = (case o_format o' of
        None \<Rightarrow> Some (Inr (args, o'), ?s)
      | Some f \<Rightarrow> do {
          (ended, s) \<leftarrow> validate_format os f ?s;
          Some (case ended of Some c \<Rightarrow> Inl c | None \<Rightarrow> Inr (args, o'), s)
        })"
    using name parse o' i(1) by (simp add: wait_setup_def plain_run_def plain_files_def)
  have fresh: "fresh d o' ?s" "world ?s = w1"
    using i(2-9) by (cases rule: filters_cases [of "o_filters o'"];
        simp add: fresh_def installed_def filtering_def inotify_table_def table_inv_def)+
  show ?thesis
  proof (cases "o_format o'")
    case None
    with s fresh tried show ?thesis by (simp add: format_tried_def)
  next
    case (Some f)
    with tried obtain fp e' u x where
      x: "os_fopen os ''/dev/null'' ''a'' w1 = ((Some fp, e'), u)"
        "fmt_reference os made_up_event no_path None f u = Some x" "x \<noteq> []" "length x < MAX_STRLEN"
        "w2 = snd (os_fclose os fp u)" by (auto simp: format_tried_def)
    have "f \<noteq> []" "NUL \<notin> set f" "length f \<le> MAX_STRLEN"
      using o' Some by (auto simp: plain_run_def plain_files_def format_ok_def out_format_def)
    with validate_format_run [of ?s os fp e' u f x] fresh x obtain t where
      "validate_format os f ?s = Some (None, t)" "formats ?s t" "c_stdout t = c_stdout ?s" "world t = w2"
      by (auto simp: fresh_def)
    with s Some show ?thesis using fresh_formats [OF _ _ fresh(1), of t] by simp
  qed
qed

lemma output_error_set_up:
  "set_up s (output_error os False msg t) = set_up s t" "inotify_table (output_error os False msg t) = inotify_table t"
  "wd_path (output_error os False msg t) = wd_path t" "world (output_error os False msg t) = world t"
  "watch_from_wd (output_error os False msg t) = watch_from_wd t" "fd (output_error os False msg t) = fd t"
  by (simp_all add: output_error_def ceprint_def set_up_def settings_effects inotify_table_def table_inv_def
      wd_path_effects)

lemma wait_watch_plain:
  assumes t: "inotify_table s" and o': "plain_run os o'"
    and files: "files = fl_watch (sorted_out (arg_names args))" "files \<noteq> []"
    and kernel: "\<forall>f\<in>set files. watchable os queued (fd s) (watched_events o') wdof isd f"
    and q: "queued (world s) bs" and empty: "by_wd s = []"
  shows "\<exists>t. wait_watch os fuel args o' s = Some (Inr (), t) \<and> inotify_table t \<and> set_up s t \<and>
    queued (world t) bs \<and> wd_path t = wd_name wdof isd files"
proof -
  have list: "construct_path_list os fuel args None s = Some (Some (sorted_out (arg_names args)), s)"
    using fold_file_list_add [of args "[]"] by (simp add: construct_path_list_def no_files_sorted)
  define s1 where "s1 = (if o_quiet o' = 0 then output_error os False (''Setting up watches.'' @ nl) s else s)"
  have s1: "set_up s s1" "inotify_table s1" "wd_path s1 = wd_path s" "world s1 = world s" "fd s1 = fd s"
    "watch_from_wd s1 = watch_from_wd s"
    using t by (simp_all add: s1_def output_error_set_up set_up_def) (simp add: output_error_def ceprint_def settings_effects)
  have "queued (world s1) bs" using q s1(4) by simp
  from watch_list_set_up [where queued = queued, OF s1(2) this, of files os "watched_events o'" wdof isd fuel
      "sorted_out (arg_names args)" False "''Couldn'' @ quote @ ''t watch ''" "output_error os False"] kernel s1(5)
  obtain t where t: "watch_list_loop os fuel (sorted_out (arg_names args)) (watched_events o') False False False
      (''Couldn'' @ quote @ ''t watch '') (output_error os False) (\<lambda>_ s. s) (\<lambda>_ s. s) files s1 = Some (True, t)"
    "inotify_table t" "set_up s1 t" "queued (world t) bs"
    "\<And>v. wd_path t v = (if watch_from_wd s1 v = None then wd_name wdof isd files v else wd_path s1 v)"
    by auto
  define u where "u = (if o_quiet o' = 0 then output_error os False (''Watches established.'' @ nl) t else t)"
  have "wait_watch os fuel args o' s = Some (Inr (), u)"
    using o' list t(1) files unfolding s1_def u_def
    by (auto simp: wait_watch_def plain_run_def plain_files_def wait_redirect_def and_then_def watch_list_def)
  moreover have "set_up s u" using s1(1) t(3) by (simp add: u_def output_error_set_up set_up_def)
      (simp add: output_error_def ceprint_def settings_effects)
  moreover have "wd_path u = wd_name wdof isd files"
    using t(5) s1(6) empty by (simp add: u_def output_error_set_up fun_eq_iff watch_from_wd_def)
  ultimately show ?thesis
    using t(2,4) s1(4) by (simp add: u_def output_error_set_up)
qed

text \<open>The path of an event on one of the files.\<close>

definition event_path_of :: "(string \<Rightarrow> int) \<Rightarrow> (string \<Rightarrow> bool) \<Rightarrow> string list \<Rightarrow> event \<Rightarrow> event_path" where
  "event_path_of wdof isd files ev =
     (let dir = wd_name wdof isd files (ev_wd ev)
      in \<lparr>ep_filename = dir, ep_dirnamelen = length dir,
          ep_eventname = (if ev_len ev > 0 then ev_name ev else [])\<rparr>)"

text \<open>Everything up to the main loop.\<close>

lemma inotifywait_set_up:
  fixes os :: "'w os" and queued :: "'w \<Rightarrow> event list list \<Rightarrow> bool" and parser :: option_parser and argv :: "string list"
  defines "g \<equiv> getopt_new parser argv wait_OPT_STRING wait_LONG_OPTS"
  assumes name: "\<not> invoked_as_fsnotify (argv0 g)"
    and parse: "wait_parse_opts os v g (wait_opts_default\<lparr>o_fanotify := False\<rparr>) (machine_new w) =
      (Some (args, o'), machine_new w)"
    and o': "plain_run os o'"
    and files: "files = fl_watch (sorted_out (arg_names args))" "files \<noteq> []"
    and kernel: "os_inotify_init os w = ((d, e), w1)" "0 \<le> d" "format_tried os o' w1 w2" "queued w2 bs"
    and watch: "\<forall>f\<in>set files. watchable os queued d (watched_events o') wdof isd f"
    and batches: "\<forall>b\<in>set bs. batch_ok b"
    and events: "\<forall>ev\<in>set (concat bs). valid_event ev \<and>
      length (wd_name wdof isd files (ev_wd ev) @ ev_name ev) < MAX_STRLEN"
  shows "\<exists>t. inotifywait os parser v fuel argv w =
      map_option (\<lambda>(r, s). (case r of Inl c \<Rightarrow> c | Inr c \<Rightarrow> c, s)) (wait_run os fuel o' t) \<and>
    waiting queued t [] bs \<and> fd t = d \<and> c_stdout t = [] \<and> timefmt t = None \<and>
    inotify_path t = event_path_of wdof isd files \<and>
    passes os t = (\<lambda>ev. kept os (o_filters o') (event_file wdof isd files ev))"
proof -
  from wait_setup_plain [OF name parse o' kernel(1-3)] obtain s where
    s: "wait_setup os v g (machine_new w) = Some (Inr (args, o'), s)" "fresh d o' s" "world s = w2" by blast
  have s': "inotify_table s" "fd s = d" "by_wd s = []" using s(2) by (simp_all add: fresh_def)
  have "queued (world s) bs" using kernel(4) s(3) by simp
  from wait_watch_plain [where queued = queued, OF s'(1) o' files _ this s'(3), of wdof isd fuel] watch s'(2) obtain t where
    t: "wait_watch os fuel args o' s = Some (Inr (), t)" "inotify_table t" "set_up s t"
      "queued (world t) bs" "wd_path t = wd_name wdof isd files" by auto
  note f = set_up_fields [OF t(3)]
  have le: "length (event_text t ev) \<le> length (wd_name wdof isd files (ev_wd ev) @ ev_name ev)" for ev
    by (simp add: event_text_def t(5))
  have "waiting queued t [] bs"
    using t(2,4) batches events f(4) s(2) le_less_trans [OF le] by (auto simp: waiting_def pending_def fresh_def)
  moreover have "filtering (o_filters o') t" using filtering_set_up [OF t(3)] s(2) by (simp add: fresh_def)
  then have "passes os t = (\<lambda>ev. kept os (o_filters o') (event_file wdof isd files ev))"
    using o' t(5) by (intro ext passes_filtering) (simp_all add: plain_run_def)
  moreover have "inotify_path t = event_path_of wdof isd files"
    by (simp add: inotify_path_def event_path_of_def t(5) fun_eq_iff Let_def)
  moreover have "timefmt t = None" using t(3) s(2) settings_sel(11) [of t s] by (simp add: set_up_def fresh_def)
  ultimately show ?thesis
    using s t(1) f(3,6)
    by (intro exI [of _ t]) (simp add: inotifywait_def g_def [symmetric] wait_main_def and_then_def fresh_def)
qed

text \<open>C1.
  The whole program: \<open>inotifywait\<close>, monitoring with a timeout, with any filter and any output format
  without times (CSV, the default, or one of the user's) but no directory tree, on a list of files
  that the kernel can watch. Whatever batches of events the kernel hands over until a poll times
  out, the program prints exactly one line for each event of the kinds that were asked for whose
  path the filter keeps, in the order of the kernel across all reads, with the name of the first
  file of the command line that has the event's descriptor, and nothing else; then it ends with
  exit code 2. The fuel only has to exceed the number of events.\<close>

theorem inotifywait_monitor:
  fixes os :: "'w os" and queued :: "'w \<Rightarrow> event list list \<Rightarrow> bool" and parser :: option_parser and argv :: "string list"
  defines "g \<equiv> getopt_new parser argv wait_OPT_STRING wait_LONG_OPTS"
  assumes name: "\<not> invoked_as_fsnotify (argv0 g)"
    and parse: "wait_parse_opts os v g (wait_opts_default\<lparr>o_fanotify := False\<rparr>) (machine_new w) =
      (Some (args, o'), machine_new w)"
    and o': "plain_run os o'" "o_monitor o'"
    and files: "files = fl_watch (sorted_out (arg_names args))" "files \<noteq> []"
    and kernel: "os_inotify_init os w = ((d, e), w1)" "0 \<le> d" "format_tried os o' w1 w2" "queued w2 bs"
    and watch: "\<forall>f\<in>set files. watchable os queued d (watched_events o') wdof isd f"
    and feeds: "feeds os queued d (o_timeout o') timed_out"
    and batches: "\<forall>b\<in>set bs. batch_ok b"
    and events: "\<forall>ev\<in>set (concat bs). valid_event ev \<and>
      length (wd_name wdof isd files (ev_wd ev) @ ev_name ev) < MAX_STRLEN"
    and lines: "lines_ok os o' w line (event_path_of wdof isd files) (concat bs)"
    and fuel: "length (concat bs) < fuel"
  shows "\<exists>s. inotifywait os parser v fuel argv w = Some (2, s) \<and>
    c_stdout s = concat (map line
      (filter (\<lambda>ev. kept os (o_filters o') (event_file wdof isd files ev) \<and> event_shown o' ev) (concat bs)))"
proof -
  from inotifywait_set_up [where queued = queued, OF name [unfolded g_def] parse [unfolded g_def] o'(1) files kernel watch
      batches events, of fuel] obtain t where
    t: "inotifywait os parser v fuel argv w =
        map_option (\<lambda>(r, s). (case r of Inl c \<Rightarrow> c | Inr c \<Rightarrow> c, s)) (wait_run os fuel o' t)"
      "waiting queued t [] bs" "fd t = d" "c_stdout t = []" "timefmt t = None"
      "inotify_path t = event_path_of wdof isd files"
      "passes os t = (\<lambda>ev. kept os (o_filters o') (event_file wdof isd files ev))" by blast
  have "\<exists>s'. wait_loop os fuel o' None t = Some (Inl EXIT_TIMEOUT, s') \<and>
      c_stdout s' = c_stdout t @ printed os o' line t ([] @ concat bs)"
    using feeds o' fuel t(3,5,6) lines by (intro monitor_feed [OF t(2)]) (simp_all add: plain_run_def)
  then show ?thesis
    using t(1,4,7) by (auto simp: wait_run_def and_then_def EXIT_TIMEOUT_def printed_def)
qed

text \<open>C3.
  The whole program, waiting for one event: \<open>inotifywait\<close> without \<open>-m\<close>, otherwise as above. Whatever
  the kernel hands over, only the first event whose path the filter keeps matters: the program
  prints its line if it is of a kind that was asked for, and ends with exit code 0 if it is of a
  kind that was watched for and 1 otherwise; when no event passes before the timeout, it prints
  nothing and ends with exit code 2.\<close>

theorem inotifywait_once:
  fixes os :: "'w os" and queued :: "'w \<Rightarrow> event list list \<Rightarrow> bool" and parser :: option_parser and argv :: "string list"
  defines "g \<equiv> getopt_new parser argv wait_OPT_STRING wait_LONG_OPTS"
  assumes name: "\<not> invoked_as_fsnotify (argv0 g)"
    and parse: "wait_parse_opts os v g (wait_opts_default\<lparr>o_fanotify := False\<rparr>) (machine_new w) =
      (Some (args, o'), machine_new w)"
    and o': "plain_run os o'" "\<not> o_monitor o'"
    and files: "files = fl_watch (sorted_out (arg_names args))" "files \<noteq> []"
    and kernel: "os_inotify_init os w = ((d, e), w1)" "0 \<le> d" "format_tried os o' w1 w2" "queued w2 bs"
    and watch: "\<forall>f\<in>set files. watchable os queued d (watched_events o') wdof isd f"
    and feeds: "feeds os queued d (o_timeout o') timed_out"
    and batches: "\<forall>b\<in>set bs. batch_ok b"
    and events: "\<forall>ev\<in>set (concat bs). valid_event ev \<and>
      length (wd_name wdof isd files (ev_wd ev) @ ev_name ev) < MAX_STRLEN"
    and lines: "lines_ok os o' w line (event_path_of wdof isd files) (concat bs)"
    and fuel: "length (concat bs) < fuel"
    and kept: "passing = filter (\<lambda>ev. kept os (o_filters o') (event_file wdof isd files ev)) (concat bs)"
  shows "\<exists>s. inotifywait os parser v fuel argv w = Some (case passing of [] \<Rightarrow> 2
      | ev # _ \<Rightarrow> if watched_events o' AND ev_mask ev = 0 then 1 else 0, s) \<and>
    c_stdout s = (case passing of [] \<Rightarrow> [] | ev # _ \<Rightarrow> if event_shown o' ev then line ev else [])"
proof -
  from inotifywait_set_up [where queued = queued, OF name [unfolded g_def] parse [unfolded g_def] o'(1) files kernel watch
      batches events, of fuel] obtain t where
    t: "inotifywait os parser v fuel argv w =
        map_option (\<lambda>(r, s). (case r of Inl c \<Rightarrow> c | Inr c \<Rightarrow> c, s)) (wait_run os fuel o' t)"
      "waiting queued t [] bs" "fd t = d" "c_stdout t = []" "timefmt t = None"
      "inotify_path t = event_path_of wdof isd files"
      "passes os t = (\<lambda>ev. kept os (o_filters o') (event_file wdof isd files ev))" by blast
  have "\<exists>s'. wait_loop os fuel o' None t = Some
      (case filter (passes os t) ([] @ concat bs) of [] \<Rightarrow> Inl EXIT_TIMEOUT | x # _ \<Rightarrow> Inr x, s') \<and>
    c_stdout s' = c_stdout t @ (case filter (passes os t) ([] @ concat bs) of [] \<Rightarrow> []
      | x # _ \<Rightarrow> if event_shown o' x then line x else [])"
    using feeds o' fuel t(3,5,6) lines by (intro wait_feed [OF t(2)]) (simp_all add: plain_run_def)
  then obtain s' where "wait_loop os fuel o' None t = Some
      (case passing of [] \<Rightarrow> Inl EXIT_TIMEOUT | x # _ \<Rightarrow> Inr x, s')"
    "c_stdout s' = (case passing of [] \<Rightarrow> [] | x # _ \<Rightarrow> if event_shown o' x then line x else [])"
    using t(4,7) by (auto simp: kept)
  then show ?thesis
    using t(1) by (cases passing) (simp_all add: wait_run_def and_then_def exit_defs)
qed

text \<open>
  A kernel to evaluate this on, whose world is the queue of batches, with a directory \<open>a\<close> and a file
  \<open>b\<close>, and the command line \<open>inotifywait -m -c -q -t 5 --exclude x a b\<close> as it is parsed.
\<close>

definition feed_os :: "event list list os" where
  "feed_os = quiet_os\<lparr>
     os_inotify_add_watch := (\<lambda>_ f _ w. ((if f = ''a'' then 1 else 2, 0), w)),
     os_lstat := (\<lambda>f w. ((0, 0, if f = ''a'' then S_IFDIR else 0), w)),
     os_ppoll := (\<lambda>_ _ w. ((if w = [] then 0 else 1, 0), w)),
     os_fionread := (\<lambda>_ w. ((0, 0, 4096), w)),
     os_read := (\<lambda>_ _ w. case w of [] \<Rightarrow> ((0, 0, []), [])
       | b # bs \<Rightarrow> ((int (length (encode_events b)), 0, encode_events b), bs)),
     os_strtol := (\<lambda>_. (5, 0, 1)),
     os_regexec := (\<lambda>re path. if re_pattern re = ''x'' \<and> CHR ''x'' \<in> set path then 0 else 1)\<rparr>"

definition sample_args :: "string list" where
  "sample_args = [''inotifywait'', ''-m'', ''-c'', ''-q'', ''-t'', ''5'', ''--exclude'', ''x'', ''a'', ''b'']"

definition sample_parser :: option_parser where
  "sample_parser argv opts longs =
     \<lparr>pa_results = [(109, None), (99, None), (113, None), (116, Some ''5''), (97, Some ''x'')],
       pa_argv = argv, pa_optind = 8\<rparr>"

definition sample_batches :: "event list list" where
  "sample_batches = [[\<lparr>ev_wd = 1, ev_mask = IN_CREATE, ev_cookie = 0, ev_len = 16, ev_name = ''x''\<rparr>,
      \<lparr>ev_wd = 1, ev_mask = IN_CREATE, ev_cookie = 0, ev_len = 16, ev_name = ''y''\<rparr>],
     [\<lparr>ev_wd = 2, ev_mask = IN_OPEN, ev_cookie = 0, ev_len = 0, ev_name = []\<rparr>]]"

definition sample_opts :: wait_opts where
  "sample_opts = wait_opts_default\<lparr>o_fanotify := False, o_monitor := True, o_csv := True, o_quiet := 1,
     o_timeout := 5, o_filters := no_filters\<lparr>f_exc := Some ''x''\<rparr>\<rparr>"

lemma sample_parsed:
  "wait_parse_opts feed_os v (getopt_new sample_parser sample_args wait_OPT_STRING wait_LONG_OPTS)
     (wait_opts_default\<lparr>o_fanotify := False\<rparr>) (machine_new w) = (Some ([''a'', ''b''], sample_opts), machine_new w)"
proof -
  have c: "as_c_char 109 = 109" "as_c_char 99 = 99" "as_c_char 113 = 113" "as_c_char 116 = 116"
    "as_c_char 97 = 97" "opt_char 97 = CHR ''a''"
    "opt_char 109 = CHR ''m''" "opt_char 99 = CHR ''c''" "opt_char 113 = CHR ''q''" "opt_char 116 = CHR ''t''"
    "wrap32 1 = 1"
    by code_simp+
  have r: "remaining (getopt_new sample_parser sample_args wait_OPT_STRING wait_LONG_OPTS) = [''a'', ''b'']"
    by (simp add: remaining_def getopt_new_def sample_parser_def sample_args_def Let_def cstring_def)
  have g: "go_results (getopt_new sample_parser sample_args wait_OPT_STRING wait_LONG_OPTS) =
      [(109, None), (99, None), (113, None), (116, Some ''5''), (97, Some ''x'')]"
    by (simp add: getopt_new_def sample_parser_def Let_def)
  show ?thesis
    by (simp add: wait_parse_opts_def g r wait_option_def is_timeout_option_valid_def c Let_def OPT_ERR_def
        OPT_END_def wait_opts_default_def wait_checks_def validate_def no_filters_def has_include_def
        feed_os_def sample_opts_def)
qed

theorem inotifywait_monitor_witness:
  "\<exists>s. inotifywait feed_os sample_parser ''1'' 4 sample_args sample_batches = Some (2, s) \<and>
    c_stdout s = ''a/,CREATE,y'' @ nl @ ''b,OPEN,'' @ nl"
proof -
  let ?wdof = "\<lambda>f. if f = ''a'' then 1 else 2 :: int" and ?isd = "\<lambda>f. f = ''a''" and ?files = "[''a'', ''b'']"
  have name: "\<not> invoked_as_fsnotify (argv0 (getopt_new sample_parser sample_args wait_OPT_STRING wait_LONG_OPTS))"
    by (simp add: invoked_as_fsnotify_def argv0_def getopt_new_def sample_args_def Let_def) code_simp
  have o': "plain_run feed_os sample_opts" "o_monitor sample_opts"
    by (simp_all add: plain_run_def plain_files_def format_ok_def sample_opts_def wait_opts_default_def filters_ok_def
        given_filters_def no_filters_def feed_os_def quiet_os_def)
  have files: "?files = fl_watch (sorted_out (arg_names ?files))" "?files \<noteq> []"
    by (simp_all add: sorted_out_def arg_names_def marked_excluded_def)
  have kernel: "os_inotify_init feed_os sample_batches = ((3, 0), sample_batches)" "(0 :: int) \<le> 3"
    "format_tried feed_os sample_opts sample_batches sample_batches" "sample_batches = sample_batches"
    by (simp_all add: feed_os_def quiet_os_def format_tried_def sample_opts_def wait_opts_default_def)
  have watch: "\<forall>f\<in>set ?files. watchable feed_os (=) 3 (watched_events sample_opts) ?wdof ?isd f"
    by (simp add: watchable_def feed_os_def cstring_def S_IFDIR_def S_IFMT_def)
  have feeds: "feeds feed_os (=) 3 (o_timeout sample_opts) timed_out"
    by (simp add: feeds_def feed_os_def EVENT_SIZE_def)
  have valid: "\<forall>ev\<in>set (concat sample_batches). valid_event ev"
    by (simp add: sample_batches_def valid_event_def)
  have batches: "\<forall>b\<in>set sample_batches. batch_ok b"
    using valid by (simp add: sample_batches_def batch_ok_def length_encode_event size_defs)
  have events: "\<forall>ev\<in>set (concat sample_batches). valid_event ev \<and>
      length (wd_name ?wdof ?isd ?files (ev_wd ev) @ ev_name ev) < MAX_STRLEN"
    using valid by (simp add: sample_batches_def wd_name_def watched_name_def cstring_def size_defs)
  have fuel: "length (concat sample_batches) < 4" by (simp add: sample_batches_def)
  have shown: "filter (\<lambda>ev. kept feed_os (o_filters sample_opts) (event_file ?wdof ?isd ?files ev) \<and>
      event_shown sample_opts ev) (concat sample_batches) = tl (concat sample_batches)"
    by (simp add: sample_batches_def event_shown_def wanted_events_def sample_opts_def kept_def given_filters_def
        wait_opts_default_def no_filters_def has_include_def event_file_def wd_name_def watched_name_def
        cstring_def feed_os_def in_defs)
  let ?line = "\<lambda>ev. csv_line (event_path_of ?wdof ?isd ?files ev) (ev_mask ev)"
  have n: "mask_text IN_CREATE CHR '','' = ''CREATE''" "mask_text IN_OPEN CHR '','' = ''OPEN''"
    by (simp_all add: mask_text_def names_of_def NAMES_def in_defs)
  have lines: "concat (map ?line (tl (concat sample_batches))) = ''a/,CREATE,y'' @ nl @ ''b,OPEN,'' @ nl"
    by (simp add: sample_batches_def csv_line_def event_path_of_def wd_name_def watched_name_def cstring_def
        n csv_escape_len_def csv_escape_def MAX_STRLEN_def Let_def)
  have csv: "lines_ok feed_os sample_opts sample_batches ?line (event_path_of ?wdof ?isd ?files) (concat sample_batches)"
    by (simp add: lines_ok_def event_line_def sample_opts_def)
  from inotifywait_monitor [OF name sample_parsed o' files kernel watch feeds batches events csv fuel]
  show ?thesis unfolding shown using lines by simp
qed

text \<open>The command line \<open>inotifywait -q -t 5 a b\<close>, for the first event in the default format.\<close>

definition once_args :: "string list" where
  "once_args = [''inotifywait'', ''-q'', ''-t'', ''5'', ''a'', ''b'']"

definition once_parser :: option_parser where
  "once_parser argv opts longs =
     \<lparr>pa_results = [(113, None), (116, Some ''5'')], pa_argv = argv, pa_optind = 4\<rparr>"

definition once_opts :: wait_opts where
  "once_opts = wait_opts_default\<lparr>o_fanotify := False, o_quiet := 1, o_timeout := 5\<rparr>"

lemma once_parsed:
  "wait_parse_opts feed_os v (getopt_new once_parser once_args wait_OPT_STRING wait_LONG_OPTS)
     (wait_opts_default\<lparr>o_fanotify := False\<rparr>) (machine_new w) = (Some ([''a'', ''b''], once_opts), machine_new w)"
proof -
  have c: "as_c_char 113 = 113" "as_c_char 116 = 116" "opt_char 113 = CHR ''q''" "opt_char 116 = CHR ''t''"
    "wrap32 1 = 1"
    by code_simp+
  have r: "remaining (getopt_new once_parser once_args wait_OPT_STRING wait_LONG_OPTS) = [''a'', ''b'']"
    by (simp add: remaining_def getopt_new_def once_parser_def once_args_def Let_def cstring_def)
  have g: "go_results (getopt_new once_parser once_args wait_OPT_STRING wait_LONG_OPTS) =
      [(113, None), (116, Some ''5'')]"
    by (simp add: getopt_new_def once_parser_def Let_def)
  show ?thesis
    by (simp add: wait_parse_opts_def g r wait_option_def is_timeout_option_valid_def c Let_def OPT_ERR_def
        OPT_END_def wait_opts_default_def wait_checks_def validate_def no_filters_def has_include_def
        feed_os_def once_opts_def)
qed

theorem inotifywait_once_witness:
  "\<exists>s. inotifywait feed_os once_parser ''1'' 4 once_args sample_batches = Some (0, s) \<and>
    c_stdout s = ''a/ CREATE x'' @ nl"
proof -
  let ?wdof = "\<lambda>f. if f = ''a'' then 1 else 2 :: int" and ?isd = "\<lambda>f. f = ''a''" and ?files = "[''a'', ''b'']"
  have name: "\<not> invoked_as_fsnotify (argv0 (getopt_new once_parser once_args wait_OPT_STRING wait_LONG_OPTS))"
    by (simp add: invoked_as_fsnotify_def argv0_def getopt_new_def once_args_def Let_def) code_simp
  have o': "plain_run feed_os once_opts" "\<not> o_monitor once_opts"
    by (simp_all add: plain_run_def plain_files_def format_ok_def out_format_def once_opts_def wait_opts_default_def
        filters_ok_def given_filters_def no_filters_def MAX_STRLEN_def)
  have files: "?files = fl_watch (sorted_out (arg_names ?files))" "?files \<noteq> []"
    by (simp_all add: sorted_out_def arg_names_def marked_excluded_def)
  have kernel: "os_inotify_init feed_os sample_batches = ((3, 0), sample_batches)" "(0 :: int) \<le> 3"
    "format_tried feed_os once_opts sample_batches sample_batches" "sample_batches = sample_batches"
    by (simp_all add: feed_os_def quiet_os_def format_tried_def once_opts_def wait_opts_default_def)
  have watch: "\<forall>f\<in>set ?files. watchable feed_os (=) 3 (watched_events once_opts) ?wdof ?isd f"
    by (simp add: watchable_def feed_os_def cstring_def S_IFDIR_def S_IFMT_def)
  have feeds: "feeds feed_os (=) 3 (o_timeout once_opts) timed_out"
    by (simp add: feeds_def feed_os_def EVENT_SIZE_def)
  have valid: "\<forall>ev\<in>set (concat sample_batches). valid_event ev"
    by (simp add: sample_batches_def valid_event_def)
  have batches: "\<forall>b\<in>set sample_batches. batch_ok b"
    using valid by (simp add: sample_batches_def batch_ok_def length_encode_event size_defs)
  have events: "\<forall>ev\<in>set (concat sample_batches). valid_event ev \<and>
      length (wd_name ?wdof ?isd ?files (ev_wd ev) @ ev_name ev) < MAX_STRLEN"
    using valid by (simp add: sample_batches_def wd_name_def watched_name_def cstring_def size_defs)
  have fuel: "length (concat sample_batches) < 4" by (simp add: sample_batches_def)
  let ?line = "\<lambda>ev. ep_dirname (event_path_of ?wdof ?isd ?files ev) @ '' '' @ mask_text (ev_mask ev) CHR '','' @ '' '' @
      ep_eventname (event_path_of ?wdof ?isd ?files ev) @ nl"
  have n: "mask_text IN_CREATE CHR '','' = ''CREATE''" "mask_text IN_OPEN CHR '','' = ''OPEN''"
    by (simp_all add: mask_text_def names_of_def NAMES_def in_defs)
  have lines: "lines_ok feed_os once_opts sample_batches ?line (event_path_of ?wdof ?isd ?files) (concat sample_batches)"
    by (simp add: lines_ok_def event_line_def once_opts_def out_format_def wait_opts_default_def sample_batches_def
        fmt_piece_def n event_path_of_def ep_dirname_def wd_name_def watched_name_def cstring_def MAX_STRLEN_def)
  have kept: "concat sample_batches = filter (\<lambda>ev. kept feed_os (o_filters once_opts) (event_file ?wdof ?isd ?files ev))
      (concat sample_batches)"
    by (simp add: kept_def given_filters_def once_opts_def wait_opts_default_def no_filters_def)
  from inotifywait_once [OF name once_parsed [of "''1''"] o' files kernel watch feeds batches events lines fuel kept]
  show ?thesis
    by (simp add: sample_batches_def once_opts_def wait_opts_default_def watched_events_def wanted_events_def
        event_shown_def has_include_def no_filters_def n [unfolded in_defs] event_path_of_def ep_dirname_def
        wd_name_def watched_name_def cstring_def in_defs Let_def)
qed

end
