(* ===== verification/WatchTool.thy ===== *)
theory WatchTool
  imports Help Feed
begin

text \<open>
  \<open>inotifywatch\<close> (\<open>src/src/inotifywatch.rs\<close>): its options, its signal handlers, the loop that
  counts events until a signal ends it, and the table of the counters.
\<close>

subsection \<open>Signals\<close>

text \<open>
  The three flags the handlers set, and the handler of each signal. A signal is delivered where the
  program looks at the flags; a signal without a handler is not the program's to handle.
\<close>

datatype handler = Handle_impatient_user | Handle_signal | Print_info_now

record sig_state =
  sg_done :: bool
  sg_print_now :: bool
  sg_times_called :: int
  sg_handlers :: "int \<rightharpoonup> handler"

definition sig_new :: sig_state where
  "sig_new = \<lparr>sg_done = False, sg_print_now = False, sg_times_called = 0, sg_handlers = Map.empty\<rparr>"

definition SIGHUP :: int where "SIGHUP = 1"
definition SIGINT :: int where "SIGINT = 2"
definition SIGUSR1 :: int where "SIGUSR1 = 10"
definition SIGALRM :: int where "SIGALRM = 14"
definition SIGTERM :: int where "SIGTERM = 15"

definition raw_stderr :: "string \<Rightarrow> 'w machine \<Rightarrow> 'w machine" where
  "raw_stderr msg s = ceprint msg s"

definition handle_impatient_user :: "sig_state \<Rightarrow> 'w machine \<Rightarrow> (int + sig_state) \<times> 'w machine" where
  "handle_impatient_user g s =
     (if sg_times_called g \<noteq> 0
      then (Inl 1, raw_stderr (''No statistics collected, asked to abort before all watches could be established.'' @ nl) s)
      else (Inr (g\<lparr>sg_times_called := wrap32 (sg_times_called g + 1)\<rparr>),
        raw_stderr (''No statistics have been collected because I haven'' @ quote @
          ''t finished establishing'' @ nl @ ''inotify watches yet.  If you are sure you want me to '' @
          ''exit, interrupt me again.'' @ nl) s))"

definition handle_signal :: "sig_state \<Rightarrow> sig_state" where
  "handle_signal g = g\<lparr>sg_done := True\<rparr>"

definition print_info_now :: "sig_state \<Rightarrow> sig_state" where
  "print_info_now g = g\<lparr>sg_print_now := True\<rparr>"

definition set_signal :: "int \<Rightarrow> handler \<Rightarrow> sig_state \<Rightarrow> sig_state" where
  "set_signal sig h g = g\<lparr>sg_handlers := (sg_handlers g)(sig \<mapsto> h)\<rparr>"

fun run_handlers :: "int list \<Rightarrow> sig_state \<Rightarrow> 'w machine \<Rightarrow> (int + sig_state) \<times> 'w machine" where
  "run_handlers [] g s = (Inr g, s)"
| "run_handlers (sig # sigs) g s =
     (case sg_handlers g sig of
        None \<Rightarrow> run_handlers sigs g s
      | Some Handle_impatient_user \<Rightarrow>
          (case handle_impatient_user g s of
             (Inl c, s) \<Rightarrow> (Inl c, s)
           | (Inr g, s) \<Rightarrow> run_handlers sigs g s)
      | Some Handle_signal \<Rightarrow> run_handlers sigs (handle_signal g) s
      | Some Print_info_now \<Rightarrow> run_handlers sigs (print_info_now g) s)"

definition deliver_signals :: "'w os \<Rightarrow> sig_state \<Rightarrow> 'w machine \<Rightarrow> ((int + sig_state) \<times> 'w machine) option" where
  "deliver_signals os g s = (let (sigs, s) = sys (os_signals os) s in Some (run_handlers sigs g s))"

subsection \<open>Options\<close>

record watch_opts =
  wo_events :: u32
  wo_timeout :: int
  wo_verbose :: int
  wo_zero :: int
  wo_sort :: int
  wo_recursive :: int
  wo_no_dereference :: int
  wo_fromfile :: "string option"
  wo_filters :: filters
  wo_fanotify :: bool
  wo_filesystem :: bool

definition watch_opts_default :: watch_opts where
  "watch_opts_default = \<lparr>wo_events = 0, wo_timeout = BLOCKING_TIMEOUT, wo_verbose = 0, wo_zero = 0,
     wo_sort = -1, wo_recursive = 0, wo_no_dereference = 0, wo_fromfile = None, wo_filters = no_filters,
     wo_fanotify = False, wo_filesystem = False\<rparr>"

definition watch_OPT_STRING :: string where
  "watch_OPT_STRING = ''hrPa:d:zve:t:IFS''"

definition watch_LONG_OPTS :: "long_opt list" where
  "watch_LONG_OPTS =
     [(''help'', False, CHR ''h''), (''event'', True, CHR ''e''), (''timeout'', True, CHR ''t''),
      (''verbose'', False, CHR ''v''), (''zero'', False, CHR ''z''), (''ascending'', True, CHR ''a''),
      (''descending'', True, CHR ''d''), (''recursive'', False, CHR ''r''), (''inotify'', False, CHR ''I''),
      (''fanotify'', False, CHR ''F''), (''filesystem'', False, CHR ''S''),
      (''no-dereference'', False, CHR ''P''), (''fromfile'', True, CHR ''o''), (''exclude'', True, CHR ''c''),
      (''excludei'', True, CHR ''b''), (''include'', True, CHR ''j''), (''includei'', True, CHR ''k'')]"

definition sort_key :: "string \<Rightarrow> 'w machine \<Rightarrow> int option \<times> 'w machine" where
  "sort_key optarg s =
     (let event = str_to_event (Some optarg)
      in if event = -1
         then (None, ceprint (quote @ optarg @ quote @ '' is not a valid key for sorting!'' @ nl) s)
         else (Some (sint event), s))"

text \<open>The two options that set the order, \<open>-a\<close> and \<open>-d\<close>.\<close>

definition sort_ascending ::
  "string \<Rightarrow> bool \<Rightarrow> watch_opts \<Rightarrow> 'w machine \<Rightarrow> (bool \<times> watch_opts) option \<times> 'w machine" where
  "sort_ascending optarg sort_set o' s =
     (if sort_set then (None, ceprint (''Please specify -a or -d once only!'' @ nl) s)
      else if eq_ignore_ascii_case optarg ''total'' then (Some (True, o'\<lparr>wo_sort := 0\<rparr>), s)
      else if eq_ignore_ascii_case optarg ''move''
      then (None, ceprint (''Cannot sort by `move'' @ quote @ '' event; please use `moved_from'' @ quote @
             '' or `moved_to'' @ quote @ ''.'' @ nl) s)
      else if eq_ignore_ascii_case optarg ''close''
      then (None, ceprint (''Cannot sort by `close'' @ quote @ '' event; please use `close_write'' @ quote @
             '' or `close_nowrite'' @ quote @ ''.'' @ nl) s)
      else case sort_key optarg s of
             (None, s) \<Rightarrow> (None, s)
           | (Some k, s) \<Rightarrow> (Some (True, o'\<lparr>wo_sort := k\<rparr>), s))"

definition sort_descending ::
  "string \<Rightarrow> bool \<Rightarrow> watch_opts \<Rightarrow> 'w machine \<Rightarrow> (bool \<times> watch_opts) option \<times> 'w machine" where
  "sort_descending optarg sort_set o' s =
     (if sort_set then (None, ceprint (''Please specify -a or -d once only!'' @ nl) s)
      else if eq_ignore_ascii_case optarg ''total'' then (Some (sort_set, o'\<lparr>wo_sort := -1\<rparr>), s)
      else case sort_key optarg s of
             (None, s) \<Rightarrow> (None, s)
           | (Some k, s) \<Rightarrow> (Some (sort_set, o'\<lparr>wo_sort := wrap32 (- k)\<rparr>), s))"

definition watch_option ::
  "'w os \<Rightarrow> string \<Rightarrow> getopt \<Rightarrow> char \<Rightarrow> string option \<Rightarrow> bool \<Rightarrow> watch_opts \<Rightarrow> 'w machine \<Rightarrow>
     (bool \<times> watch_opts) option \<times> 'w machine" where
  "watch_option os v g c arg sort_set o' s =
     (let keep = (\<lambda>o'. (Some (sort_set, o'), s));
          optarg = (case arg of Some a \<Rightarrow> a | None \<Rightarrow> [])
      in if c = CHR ''h'' then (None, cprint (watch_help v (help_name g)) s)
         else if c = CHR ''v'' then keep (o'\<lparr>wo_verbose := wrap32 (wo_verbose o' + 1)\<rparr>)
         else if c = CHR ''r'' then keep (o'\<lparr>wo_recursive := wrap32 (wo_recursive o' + 1)\<rparr>)
         else if c = CHR ''I'' then keep (o'\<lparr>wo_fanotify := False\<rparr>)
         else if c = CHR ''F'' then keep (o'\<lparr>wo_fanotify := True\<rparr>)
         else if c = CHR ''S'' then keep (o'\<lparr>wo_filesystem := True, wo_fanotify := True\<rparr>)
         else if c = CHR ''P'' then keep (o'\<lparr>wo_no_dereference := wrap32 (wo_no_dereference o' + 1)\<rparr>)
         else if c = CHR ''z'' then keep (o'\<lparr>wo_zero := wrap32 (wo_zero o' + 1)\<rparr>)
         else if c = CHR ''c'' then keep (o'\<lparr>wo_filters := (wo_filters o')\<lparr>f_exc := arg\<rparr>\<rparr>)
         else if c = CHR ''b'' then keep (o'\<lparr>wo_filters := (wo_filters o')\<lparr>f_exci := arg\<rparr>\<rparr>)
         else if c = CHR ''j'' then keep (o'\<lparr>wo_filters := (wo_filters o')\<lparr>f_inc := arg\<rparr>\<rparr>)
         else if c = CHR ''k'' then keep (o'\<lparr>wo_filters := (wo_filters o')\<lparr>f_inci := arg\<rparr>\<rparr>)
         else if c = CHR ''o''
         then if wo_fromfile o' \<noteq> None then (None, ceprint (''Multiple --fromfile options given.'' @ nl) s)
              else keep (o'\<lparr>wo_fromfile := arg\<rparr>)
         else if c = CHR ''t''
         then let ((ok, t), s) = is_timeout_option_valid os (wo_timeout o') arg s
              in (if ok then Some (sort_set, o'\<lparr>wo_timeout := t\<rparr>) else None, s)
         else if c = CHR ''e''
         then let (e, s) = parse_event arg s
              in (case e of
                    None \<Rightarrow> None
                  | Some e \<Rightarrow> Some (sort_set, o'\<lparr>wo_events := wo_events o' OR e\<rparr>), s)
         else if c = CHR ''a'' then sort_ascending optarg sort_set o' s
         else if c = CHR ''d'' then sort_descending optarg sort_set o' s
         else keep o')"

fun watch_options ::
  "'w os \<Rightarrow> string \<Rightarrow> getopt \<Rightarrow> (int \<times> string option) list \<Rightarrow> bool \<Rightarrow> watch_opts \<Rightarrow> 'w machine \<Rightarrow>
     (int \<times> watch_opts) option \<times> 'w machine" where
  "watch_options os v g [] sort_set o' s = (Some (OPT_END, o'), s)"
| "watch_options os v g ((r, arg) # rs) sort_set o' s =
     (let curr_opt = as_c_char r
      in if curr_opt = OPT_ERR \<or> curr_opt = OPT_END then (Some (curr_opt, o'), s)
         else case watch_option os v g (opt_char curr_opt) arg sort_set o' s of
                (None, s) \<Rightarrow> (None, s)
              | (Some (sort_set, o'), s) \<Rightarrow> watch_options os v g rs sort_set o' s)"

text \<open>\<open>wrapping_abs\<close>, as the word it is compared as; the events that will be watched.\<close>

definition sort_event :: "int \<Rightarrow> u32" where
  "sort_event k = word_of_int (wrap32 \<bar>k\<bar>)"

definition counted_mask :: "watch_opts \<Rightarrow> u32" where
  "counted_mask o' = (if wo_events o' \<noteq> 0 then wo_events o' else IN_ALL_EVENTS)"

definition watch_parse_opts ::
  "'w os \<Rightarrow> string \<Rightarrow> getopt \<Rightarrow> watch_opts \<Rightarrow> 'w machine \<Rightarrow>
     (string list \<times> watch_opts) option \<times> 'w machine" where
  "watch_parse_opts os v g o' s =
     (case watch_options os v g (go_results g) False o' s of
        (None, s) \<Rightarrow> (None, s)
      | (Some (curr_opt, o'), s) \<Rightarrow>
          if wo_sort o' \<noteq> 0 \<and> wo_sort o' \<noteq> -1 \<and> sort_event (wo_sort o') AND counted_mask o' = 0
          then (None, ceprint (''Can'' @ quote @ ''t sort by an event which isn'' @ quote @
                  ''t being watched for!'' @ nl) s)
          else let (ok, s) = validate (wo_filters o') s
               in if \<not> ok then (None, s)
                  else (if curr_opt = OPT_ERR then None else Some (remaining g, o'), s))"

subsection \<open>The table\<close>

definition COLUMNS :: "(u32 \<times> string \<times> nat) list" where
  "COLUMNS =
     [(IN_ACCESS, ''access'', 6), (IN_MODIFY, ''modify'', 6), (IN_ATTRIB, ''attrib'', 6),
      (IN_CLOSE_WRITE, ''close_write'', 11), (IN_CLOSE_NOWRITE, ''close_nowrite'', 13),
      (IN_OPEN, ''open'', 4), (IN_MOVED_FROM, ''moved_from'', 10), (IN_MOVED_TO, ''moved_to'', 8),
      (IN_MOVE_SELF, ''move_self'', 9), (IN_CREATE, ''create'', 6), (IN_DELETE, ''delete'', 6),
      (IN_DELETE_SELF, ''delete_self'', 11), (IN_UNMOUNT, ''unmount'', 7)]"

definition stat_value :: "watch_stats \<Rightarrow> u32 \<Rightarrow> u32" where
  "stat_value st ev = (case stats_get st ev of Some v \<Rightarrow> v | None \<Rightarrow> 0)"

definition shown_columns :: "watch_opts \<Rightarrow> 'w machine \<Rightarrow> (u32 \<times> string \<times> nat) list" where
  "shown_columns o' s =
     filter (\<lambda>(ev, _, _). ev AND wo_events o' \<noteq> 0 \<and> (wo_zero o' \<noteq> 0 \<or> get_stat_total ev s \<noteq> 0)) COLUMNS"

definition show_cell :: "nat \<Rightarrow> u32 \<Rightarrow> string" where
  "show_cell width v = pad_right width (show_nat (unat v)) @ ''  ''"

fun print_rows ::
  "'w os \<Rightarrow> watch_opts \<Rightarrow> (u32 \<times> string \<times> nat) list \<Rightarrow> (nat \<times> watch_stats) list \<Rightarrow> 'w machine \<Rightarrow>
     'w machine option" where
  "print_rows os o' shown [] s = Some s"
| "print_rows os o' shown ((w, stats) # ws) s =
     (if wo_zero o' = 0 \<and> st_total stats = 0 then print_rows os o' shown ws s
      else do {
        let s = cprint (show_cell 5 (st_total stats)) s;
        let s = fold (\<lambda>(ev, _, width) s. cprint (show_cell width (stat_value stats ev)) s) shown s;
        (name, s) \<leftarrow> filename_from_watch os w s;
        print_rows os o' shown ws (cprint (name @ nl) s)
      })"

definition print_info :: "'w os \<Rightarrow> watch_opts \<Rightarrow> 'w machine \<Rightarrow> (int \<times> 'w machine) option" where
  "print_info os o' s =
     (if get_stat_total 0 s = 0 then Some (EXIT_SUCCESS, ceprint (''No events occurred.'' @ nl) s)
      else do {
        let shown = shown_columns o' s;
        let s = cprint ''total  '' s;
        let s = fold (\<lambda>(_, name, _) s. cprint (name @ ''  '') s) shown s;
        let s = cprint (''filename'' @ nl) s;
        ws \<leftarrow> watches_sorted_by_event (wo_sort o') s;
        s \<leftarrow> print_rows os o' shown ws s;
        Some (EXIT_SUCCESS, s)
      })"

definition check_print_now :: "'w os \<Rightarrow> watch_opts \<Rightarrow> sig_state \<Rightarrow> 'w machine \<Rightarrow> (sig_state \<times> 'w machine) option" where
  "check_print_now os o' g s =
     (if sg_print_now g
      then do {
        (r, s) \<leftarrow> print_info os o' s;
        Some (g\<lparr>sg_print_now := False\<rparr>, cprint nl s)
      }
      else Some (g, s))"

subsection \<open>The program\<close>

text \<open>Options, filters, library.\<close>

definition watch_setup ::
  "'w os \<Rightarrow> string \<Rightarrow> getopt \<Rightarrow> 'w machine \<Rightarrow>
     ((int + string list \<times> watch_opts \<times> sig_state) \<times> 'w machine) option" where
  "watch_setup os v g s =
     (let o' = watch_opts_default\<lparr>wo_fanotify := (argc g > 0 \<and> invoked_as_fsnotify (argv0 g))\<rparr>;
          sg = set_signal SIGINT Handle_impatient_user sig_new
      in case watch_parse_opts os v g o' s of
           (None, s) \<Rightarrow> Some (Inl EXIT_FAILURE, s)
         | (Some (args, o'), s) \<Rightarrow>
             let (ok, s) = install os (wo_filters o') (wo_recursive o') s
             in if \<not> ok then Some (Inl EXIT_FAILURE, s)
                else let (ok, s) = init os (wo_fanotify o') (wo_filesystem o') (wo_verbose o') s
                     in if \<not> ok then Some (Inl EXIT_FAILURE, warn_inotify_init_error os (wo_fanotify o') s)
                        else let o' = o'\<lparr>wo_events := counted_mask o'\<rparr>;
                                 o' = (if wo_no_dereference o' \<noteq> 0
                                       then o'\<lparr>wo_events := wo_events o' OR IN_DONT_FOLLOW\<rparr> else o');
                                 o' = (if wo_fanotify o' then o'\<lparr>wo_events := wo_events o' OR IN_ISDIR\<rparr> else o')
                             in Some (Inr (args, o', sg), s))"

definition watch_before :: "watch_opts \<Rightarrow> string \<Rightarrow> 'w machine \<Rightarrow> 'w machine" where
  "watch_before o' f s =
     (if wo_filesystem o' then ceprint (''Setting up filesystem watch on '' @ f @ nl) s
      else if wo_recursive o' \<noteq> 0 \<and> wo_verbose o' \<noteq> 0 then ceprint (''Setting up watch(es) on '' @ f @ nl) s
      else s)"

definition watch_after :: "watch_opts \<Rightarrow> string \<Rightarrow> 'w machine \<Rightarrow> 'w machine" where
  "watch_after o' f s =
     (if wo_recursive o' \<noteq> 0 \<and> wo_verbose o' \<noteq> 0 then ceprint (''OK, '' @ f @ '' is now being watched.'' @ nl) s
      else s)"

text \<open>The files and their watches; signals that arrive meanwhile are the impatient user's.\<close>

definition watch_establish ::
  "'w os \<Rightarrow> nat \<Rightarrow> string list \<Rightarrow> watch_opts \<Rightarrow> sig_state \<Rightarrow> 'w machine \<Rightarrow>
     ((int + sig_state) \<times> 'w machine) option" where
  "watch_establish os fuel args o' g s =
     and_then (deliver_signals os g s) (\<lambda>g s. do {
       (l, s) \<leftarrow> construct_path_list os fuel args (wo_fromfile o') s;
       case l of
         None \<Rightarrow> Some (Inl EXIT_FAILURE, s)
       | Some l \<Rightarrow>
           if fl_watch l = [] then Some (Inl EXIT_FAILURE, ceprint (''No files specified to watch!'' @ nl) s)
           else do {
             let s = ceprint (''Establishing watches...'' @ nl) s;
             (ok, s) \<leftarrow> watch_list os fuel l (wo_events o') (wo_recursive o' \<noteq> 0) (wo_filesystem o')
                         (wo_fanotify o') ''Failed to watch '' ceprint (watch_before o') (watch_after o') s;
             if \<not> ok then Some (Inl EXIT_FAILURE, s) else deliver_signals os g s
           }
     })"

text \<open>The messages, the handlers and the alarm before the events are counted.\<close>

definition watch_start ::
  "'w os \<Rightarrow> watch_opts \<Rightarrow> sig_state \<Rightarrow> 'w machine \<Rightarrow> ((int + sig_state) \<times> 'w machine) option" where
  "watch_start os o' g s =
     (let num_watches = (word_of_int (get_num_watches s) :: u32);
          s = (if wo_verbose o' \<noteq> 0 then ceprint (''Total of '' @ show_nat (unat num_watches) @ '' watches.'' @ nl) s
               else s);
          s = ceprint (''Finished establishing watches, now collecting statistics.'' @ nl) s
      in if wo_timeout o' < 0
         then Some (Inl EXIT_FAILURE, ceprint (''Negative timeout specified - abort!'' @ nl) s)
         else let s = (if wo_timeout o' \<noteq> 0 \<and> wo_verbose o' \<noteq> 0
                       then ceprint (''Will listen for events for '' @ show_int (wo_timeout o') @ '' seconds.'' @ nl) s
                       else s);
                  g = set_signal SIGTERM Handle_signal (set_signal SIGHUP Handle_signal
                        (set_signal SIGINT Handle_signal g));
                  (g, s) = (if wo_timeout o' \<noteq> 0
                       then (set_signal SIGALRM Handle_signal g, sysw (os_alarm os (word_of_int (wo_timeout o'))) s)
                       else (g, sysw (os_alarm os (- 1)) s));
                  g = set_signal SIGUSR1 Print_info_now g
              in Some (Inr g, initialize_stats s))"

text \<open>
  The loop; \<open>mf\<close> is the state of the move tracker. \<open>Inr\<close> when a signal asked to stop. The fuel
  bounds the number of events, and what each of them may take.
\<close>

fun watch_loop ::
  "'w os \<Rightarrow> nat \<Rightarrow> watch_opts \<Rightarrow> string option \<Rightarrow> sig_state \<Rightarrow> 'w machine \<Rightarrow>
     ((int + sig_state) \<times> 'w machine) option" where
  "watch_loop os 0 o' mf g s = None"
| "watch_loop os (Suc fuel) o' mf g s =
     and_then (deliver_signals os g s) (\<lambda>g s. do {
       (g, s) \<leftarrow> check_print_now os o' g s;
       (event, s) \<leftarrow> next_event os (Suc fuel) BLOCKING_TIMEOUT s;
       and_then (deliver_signals os g s) (\<lambda>g s. do {
         (g, s) \<leftarrow> check_print_now os o' g s;
         and_then
           (case event of
              None \<Rightarrow>
                if error s = 0 then Some (Inl EXIT_TIMEOUT, s)
                else if error s \<noteq> EINTR
                then Some (Inl EXIT_FAILURE, ceprint (strerror os (error s) @ nl) s)
                else Some (Inr mf, s)
            | Some event \<Rightarrow>
                if wo_filesystem o' then Some (Inr mf, s)
                else do {
                  (mf, s) \<leftarrow> handle_event os (Suc fuel) mf event (wo_recursive o' \<noteq> 0) (wo_events o') False
                               ceprint s;
                  Some (Inr mf, s)
                })
           (\<lambda>mf s. and_then (deliver_signals os g s) (\<lambda>g s.
              if sg_done g then Some (Inr g, s) else watch_loop os fuel o' mf g s))
       })
     })"

definition watch_run ::
  "'w os \<Rightarrow> nat \<Rightarrow> watch_opts \<Rightarrow> sig_state \<Rightarrow> 'w machine \<Rightarrow> ((int + int) \<times> 'w machine) option" where
  "watch_run os fuel o' g s =
     and_then (watch_loop os fuel o' None g s) (\<lambda>g s. do {
       (c, s) \<leftarrow> print_info os o' s;
       Some (Inr c, s)
     })"

definition watch_main ::
  "'w os \<Rightarrow> string \<Rightarrow> nat \<Rightarrow> getopt \<Rightarrow> 'w \<Rightarrow> (int \<times> 'w machine) option" where
  "watch_main os v fuel g w =
     map_option (\<lambda>(r, s). (case r of Inl c \<Rightarrow> c | Inr c \<Rightarrow> c, s))
       (and_then (watch_setup os v g (machine_new w)) (\<lambda>(args, o', sg) s.
          and_then (watch_establish os fuel args o' sg s) (\<lambda>sg s.
            and_then (watch_start os o' sg s) (\<lambda>sg s. watch_run os fuel o' sg s))))"

definition inotifywatch ::
  "'w os \<Rightarrow> option_parser \<Rightarrow> string \<Rightarrow> nat \<Rightarrow> string list \<Rightarrow> 'w \<Rightarrow> (int \<times> 'w machine) option" where
  "inotifywatch os parser v fuel args w =
     watch_main os v fuel (getopt_new parser args watch_OPT_STRING watch_LONG_OPTS) w"

subsection \<open>The text of the table\<close>

definition header_cell :: "u32 \<times> string \<times> nat \<Rightarrow> string" where
  "header_cell c = fst (snd c) @ ''  ''"

definition row_cell :: "watch_stats \<Rightarrow> u32 \<times> string \<times> nat \<Rightarrow> string" where
  "row_cell st c = show_cell (snd (snd c)) (stat_value st (fst c))"

definition header_text :: "(u32 \<times> string \<times> nat) list \<Rightarrow> string" where
  "header_text shown = ''total  '' @ concat (map header_cell shown) @ ''filename'' @ nl"

definition row_text :: "(u32 \<times> string \<times> nat) list \<Rightarrow> watch \<Rightarrow> string" where
  "row_text shown w =
     show_cell 5 (st_total (w_stats w)) @ concat (map (row_cell (w_stats w)) shown) @ w_filename w @ nl"

definition table_text :: "(u32 \<times> string \<times> nat) list \<Rightarrow> bool \<Rightarrow> watch list \<Rightarrow> string" where
  "table_text shown zero ws =
     header_text shown @ concat (map (row_text shown) (filter (\<lambda>w. zero \<or> st_total (w_stats w) \<noteq> 0) ws))"

lemma cprint_cprint: "cprint b (cprint a s) = cprint (a @ b) s"
  by (simp add: cprint_def)

lemma fold_header_cells:
  "fold (\<lambda>(_, name, _) s. cprint (name @ ''  '') s) shown s = cprint (concat (map header_cell shown)) s"
  by (induction shown arbitrary: s) (auto simp: header_cell_def cprint_cprint cprint_def)

lemma fold_row_cells:
  "fold (\<lambda>(ev, _, width) s. cprint (show_cell width (stat_value st ev)) s) shown s =
     cprint (concat (map (row_cell st) shown)) s"
  by (induction shown arbitrary: s) (auto simp: row_cell_def cprint_cprint cprint_def)

lemma cprint_inotify [simp]:
  "inotify_table (cprint m s) = inotify_table s" "watches (cprint m s) = watches s"
  by (simp_all add: cprint_def inotify_table_def table_inv_def)

lemma print_rows_text:
  "inotify_table s \<Longrightarrow> \<forall>(n, w)\<in>set ws. watches s n = Some w \<Longrightarrow>
     print_rows os o' shown (map (\<lambda>(n, w). (n, w_stats w)) ws) s =
       Some (cprint (concat (map (row_text shown)
         (filter (\<lambda>w. wo_zero o' \<noteq> 0 \<or> st_total (w_stats w) \<noteq> 0) (map snd ws)))) s)"
proof (induction ws arbitrary: s)
  case Nil
  then show ?case by (simp add: cprint_def)
next
  case (Cons x ws)
  obtain n w where x: "x = (n, w)" by (cases x)
  have w: "watches s n = Some w" "w_fid w = None"
    using Cons.prems by (auto simp: x inotify_table_def)
  have name: "filename_from_watch os n t = Some (w_filename w, t)" if "watches t n = Some w" for t
    using w that by (simp add: filename_from_watch_def filename_from_watch_id_def watch_at_def)
  show ?case
    using Cons.IH Cons.prems w name unfolding x
    by (simp add: fold_row_cells cprint_cprint row_text_def)
qed

lemma watch_tables:
  assumes "same_counts s t"
  shows "watches_sorted_by_event k t = watches_sorted_by_event k s" "shown_columns o' t = shown_columns o' s"
    "get_stat_total e t = get_stat_total e s"
proof -
  have at: "watches_at t ns = watches_at s ns" for ns
    using assms by (induction ns) (simp_all add: watch_at_def same_counts_def)
  show "watches_sorted_by_event k t = watches_sorted_by_event k s"
    using assms by (simp add: watches_sorted_by_event_def at same_counts_def)
  show total: "get_stat_total e t = get_stat_total e s" for e
    using assms by (simp add: get_stat_total_def same_counts_def)
  show "shown_columns o' t = shown_columns o' s"
    by (simp add: shown_columns_def total)
qed

lemma same_counts_cprint [simp]: "same_counts s (cprint m s)"
  by (simp add: same_counts_def cprint_def)

text \<open>
  The table is the counters: in inotify mode, when events were counted, \<open>print_info
\<close> succeeds and
  appends to the output one header and one row per watch, in the order the options ask for
  (ascending or descending by the chosen counter), every watch of the table exactly once, except
  that rows without events are left out unless \<open>--zero\<close> was given; nothing else changes.\<close>

lemma print_info_text:
  assumes t: "inotify_table s" and some: "get_stat_total 0 s \<noteq> 0"
    and order: "sort_order (wo_sort o') = (event, asc)"
  shows "\<exists>ws. print_info os o' s =
      Some (0, cprint (table_text (shown_columns o' s) (wo_zero o' \<noteq> 0) (map snd ws)) s) \<and>
    distinct (map fst ws) \<and>
    (\<forall>n w. (n, w) \<in> set ws \<longleftrightarrow> watches s n = Some w \<and> watch_from_wd s (w_wd w) = Some n) \<and>
    sorted_wrt (\<lambda>(_, a) (_, b). if asc then stat_or_0 event a \<le> stat_or_0 event b
      else stat_or_0 event b \<le> stat_or_0 event a) ws"
proof -
  have inv: "table_inv s" using t by (simp add: inotify_table_def)
  from watches_sorted_lemma [OF inv order] obtain ws where
    ws: "watches_sorted_by_event (wo_sort o') s = Some (map (\<lambda>(n, w). (n, w_stats w)) ws)"
      "distinct (map fst ws)"
      "\<forall>n w. (n, w) \<in> set ws \<longleftrightarrow> watches s n = Some w \<and> watch_from_wd s (w_wd w) = Some n"
      "sorted_wrt (\<lambda>(_, a) (_, b). if asc then stat_or_0 event a \<le> stat_or_0 event b
        else stat_or_0 event b \<le> stat_or_0 event a) ws" by blast
  let ?m = "header_text (shown_columns o' s)"
  have sorted: "watches_sorted_by_event (wo_sort o') (cprint ?m s) = Some (map (\<lambda>(n, w). (n, w_stats w)) ws)"
    unfolding watch_tables(1) [OF same_counts_cprint] by (rule ws(1))
  have rows: "print_rows os o' (shown_columns o' s) (map (\<lambda>(n, w). (n, w_stats w)) ws) (cprint ?m s) =
      Some (cprint (table_text (shown_columns o' s) (wo_zero o' \<noteq> 0) (map snd ws)) s)"
    using print_rows_text [of "cprint ?m s" ws os o' "shown_columns o' s"] t ws(3)
    by (auto simp: cprint_cprint table_text_def)
  have header: "cprint (''filename'' @ nl) (fold (\<lambda>(_, name, _) s. cprint (name @ ''  '') s) (shown_columns o' s)
      (cprint ''total  '' s)) = cprint ?m s"
    by (simp add: fold_header_cells cprint_cprint header_text_def)
  have "print_info os o' s = Some (0, cprint (table_text (shown_columns o' s) (wo_zero o' \<noteq> 0) (map snd ws)) s)"
    using some sorted rows header by (simp add: print_info_def EXIT_SUCCESS_def)
  with ws show ?thesis by blast
qed

definition counting_watch :: "unit machine" where
  "counting_watch = record_stats 3 IN_OPEN ((one_watch ''/a'')\<lparr>collect_stats := True\<rparr>)"

definition counted_open :: watch where
  "counted_open = (new_watch 3 None ''/a'' 0)\<lparr>w_stats := stats_record stats_default IN_OPEN\<rparr>"

lemma counting_watch_facts:
  "inotify_table counting_watch" "get_stat_total e counting_watch = stat_int (stats_get (w_stats counted_open) e)"
  "watches counting_watch = [1 \<mapsto> counted_open]" "by_wd counting_watch = [(3, 1)]"
  "c_stdout counting_watch = []"
proof -
  let ?s = "(one_watch ''/a'')\<lparr>collect_stats := True\<rparr>"
  note o = one_watch_facts [of "''/a''"]
  have f: "watch_from_wd ?s 3 = Some 1" "watches ?s 1 = Some (new_watch 3 None ''/a'' 0)"
    by (simp_all add: watch_from_wd_def bt_get_def o)
  have st: "w_stats (new_watch 3 None ''/a'' 0) = stats_default"
    by simp
  show "watches counting_watch = [1 \<mapsto> counted_open]"
    unfolding counting_watch_def record_stats_def f option.simps Let_def
    by (simp add: counted_open_def o)
  have "totals (one_watch ''/a'') = stats_default" "c_stdout (one_watch ''/a'') = []" "\<not> fanotify_mode (one_watch ''/a'')"
    by (simp_all add: one_watch_def register_def Let_def)
  note one = this
  show "get_stat_total e counting_watch = stat_int (stats_get (w_stats counted_open) e)"
    unfolding counting_watch_def record_stats_def f option.simps Let_def
    by (simp add: get_stat_total_def counted_open_def one)
  show "by_wd counting_watch = [(3, 1)]"
    by (simp add: counting_watch_def o)
  have "table_inv ?s" using o(1) by (simp add: table_inv_def)
  moreover have "length (evstr ?s) = 1024" using one_watch_evstr [of "''/a''"] by simp
  ultimately have "inotify_table ?s"
    using one o(2) by (simp add: inotify_table_def o(3))
  then show "inotify_table counting_watch"
    unfolding counting_watch_def by (rule passes_record_stats)
  show "c_stdout counting_watch = []"
    unfolding counting_watch_def record_stats_def f option.simps Let_def by (simp add: one)
qed

lemma print_info_example:
  "\<exists>s'. print_info quiet_os (watch_opts_default\<lparr>wo_events := IN_OPEN\<rparr>) counting_watch = Some (0, s') \<and>
    c_stdout s' = ''total  open  filename'' @ nl @ ''1      1     /a'' @ nl"
proof -
  let ?o = "watch_opts_default\<lparr>wo_events := IN_OPEN\<rparr>"
  have order: "sort_order (wo_sort ?o) = (0, False)"
    by (simp add: watch_opts_default_def sort_order_def)
  have vals: "stats_get (w_stats counted_open) 0 = Some 1" "stats_get (w_stats counted_open) IN_OPEN = Some 1"
    "st_total (w_stats counted_open) = 1"
    by (simp_all add: counted_open_def stats_get_def stats_record_def stats_inc_def stats_default_def in_defs)
  have fname: "w_filename counted_open = ''/a''" by (simp add: counted_open_def cstring_def)
  have "get_stat_total 0 counting_watch \<noteq> 0"
    by (simp add: counting_watch_facts vals stat_int_def)
  from print_info_text [OF counting_watch_facts(1) this order, of quiet_os] obtain ws where
    p: "print_info quiet_os ?o counting_watch =
      Some (0, cprint (table_text (shown_columns ?o counting_watch) (wo_zero ?o \<noteq> 0) (map snd ws)) counting_watch)"
    and ws: "distinct (map fst ws)" "\<forall>n w. (n, w) \<in> set ws \<longleftrightarrow>
      watches counting_watch n = Some w \<and> watch_from_wd counting_watch (w_wd w) = Some n"
    by (elim exE conjE) (rule that)
  have "set ws = {(1, counted_open)}"
    using ws(2) by (auto simp: counting_watch_facts watch_from_wd_def bt_get_def counted_open_def split: if_splits)
  with ws(1) have "ws = [(1, counted_open)]"
    by (cases ws; cases "tl ws") (auto simp: distinct_map)
  moreover have "shown_columns ?o counting_watch = [(IN_OPEN, ''open'', 4)]"
    by (simp add: shown_columns_def COLUMNS_def counting_watch_facts vals [unfolded in_defs] stat_int_def watch_opts_default_def in_defs)
  moreover have "show_nat 1 = ''1''" by (simp add: show_nat_def show_base.simps)
  moreover from this have "table_text [(IN_OPEN, ''open'', 4)] False [counted_open] =
      ''total  open  filename'' @ nl @ ''1      1     /a'' @ nl"
    by (simp add: table_text_def header_text_def row_text_def header_cell_def row_cell_def show_cell_def
        stat_value_def vals pad_right_def fname numeral_eq_Suc)
  moreover have "wo_zero ?o = 0" by (simp add: watch_opts_default_def)
  ultimately have "print_info quiet_os ?o counting_watch =
      Some (0, cprint (''total  open  filename'' @ nl @ ''1      1     /a'' @ nl) counting_watch)"
    using p by simp
  then show ?thesis by (simp add: cprint_def counting_watch_facts)
qed

subsection \<open>Alignment\<close>

lemma length_show_nat: "0 < k \<Longrightarrow> n < 10 ^ k \<Longrightarrow> length (show_nat n) \<le> k"
  using length_show_base [of 10 k n] by (simp add: show_nat_def)

lemma COLUMNS_widths: "c \<in> set COLUMNS \<Longrightarrow> length (fst (snd c)) = snd (snd c) \<and> 0 < snd (snd c)"
  by (auto simp: COLUMNS_def)

text \<open>Cells of fixed lengths, one behind the other.\<close>

lemma cells_at:
  assumes "\<forall>c\<in>set cs. length (f c) = l c"
  shows "k < length cs \<Longrightarrow>
      take (l (cs ! k)) (drop (length p + sum_list (map l (take k cs))) (p @ concat (map f cs) @ r)) = f (cs ! k)"
    and "drop (length p + sum_list (map l cs)) (p @ concat (map f cs) @ r) = r"
proof -
  have len: "length (concat (map f xs)) = sum_list (map l xs)" if "set xs \<subseteq> set cs" for xs
    using that assms by (induction xs) auto
  show "drop (length p + sum_list (map l cs)) (p @ concat (map f cs) @ r) = r"
    using len [of cs] by simp
  show "take (l (cs ! k)) (drop (length p + sum_list (map l (take k cs))) (p @ concat (map f cs) @ r)) = f (cs ! k)"
    if k: "k < length cs"
  proof -
    have "concat (map f cs) = concat (map f (take k cs)) @ f (cs ! k) @ concat (map f (drop (Suc k) cs))"
      using arg_cong [OF id_take_nth_drop [OF k], of "\<lambda>xs. concat (map f xs)"] by simp
    with len [OF set_take_subset, of k] assms nth_mem [OF k] show ?thesis by simp
  qed
qed

text \<open>Where the columns of a table start, and what a line has in them.\<close>

definition column_start :: "(u32 \<times> string \<times> nat) list \<Rightarrow> nat \<Rightarrow> nat" where
  "column_start shown k = 7 + sum_list (map (\<lambda>(_, name, _). length name + 2) (take k shown))"

definition cell_of :: "(u32 \<times> string \<times> nat) list \<Rightarrow> nat \<Rightarrow> string \<Rightarrow> string" where
  "cell_of shown k line = take (length (fst (snd (shown ! k))) + 2) (drop (column_start shown k) line)"

lemma laid_out_line:
  assumes "length p = 7" and "\<forall>c\<in>set shown. length (f c) = length (fst (snd c)) + 2"
  shows "take 7 (p @ concat (map f shown) @ r) = p"
    "k < length shown \<Longrightarrow> cell_of shown k (p @ concat (map f shown) @ r) = f (shown ! k)"
    "drop (column_start shown (length shown)) (p @ concat (map f shown) @ r) = r"
  using assms(1) cells_at(1) [OF assms(2), of k p r] cells_at(2) [OF assms(2), of p r]
  by (simp_all add: cell_of_def column_start_def case_prod_unfold)

lemma show_cell_pad: "length (show_nat (unat v)) \<le> n \<Longrightarrow> show_cell n v = pad_right (n + 2) (show_nat (unat v))"
proof -
  have "replicate m c @ [c, c] = replicate (Suc (Suc m)) c" for m and c :: char by (induction m) simp_all
  then show "length (show_nat (unat v)) \<le> n \<Longrightarrow> show_cell n v = pad_right (n + 2) (show_nat (unat v))"
    by (simp add: show_cell_def pad_right_def Suc_diff_le)
qed

text \<open>C39.
  The printed columns line up: when no watch has a counter with more digits than its heading has
  letters (five for the total), \<open>print_info\<close> prints a line of headings and a line for each watch that
  is shown. Column \<open>k\<close> starts at the same place in all of them and is two wider than its heading;
  it holds the heading, or the watch's counter, and is filled with blanks. The first seven places
  hold the total, and behind the last column is the heading \<open>filename\<close> or the name of the watch.\<close>

theorem table_aligned:
  assumes t: "inotify_table s" and some: "get_stat_total 0 s \<noteq> 0"
    and order: "sort_order (wo_sort o') = (event, asc)" and shown: "shown = shown_columns o' s"
    and fits: "\<forall>n w. watches s n = Some w \<longrightarrow> unat (st_total (w_stats w)) < 10 ^ 5 \<and>
      (\<forall>(e, name, _)\<in>set shown. unat (stat_value (w_stats w) e) < 10 ^ length name)"
  shows "\<exists>header row ws. print_info os o' s = Some (0, cprint (header @ nl @ concat (map (\<lambda>(_, w). row w @ nl) ws)) s) \<and>
    distinct (map fst ws) \<and> (\<forall>n w. (n, w) \<in> set ws \<longleftrightarrow> watches s n = Some w \<and> watch_from_wd s (w_wd w) = Some n \<and>
       (wo_zero o' \<noteq> 0 \<or> st_total (w_stats w) \<noteq> 0)) \<and>
    take 7 header = ''total  '' \<and>
    (\<forall>k<length shown. cell_of shown k header = fst (snd (shown ! k)) @ ''  '') \<and>
    drop (column_start shown (length shown)) header = ''filename'' \<and>
    (\<forall>(n, w)\<in>set ws. take 7 (row w) = pad_right 7 (show_nat (unat (st_total (w_stats w)))) \<and>
       (\<forall>k<length shown. cell_of shown k (row w) = pad_right (length (fst (snd (shown ! k))) + 2)
          (show_nat (unat (stat_value (w_stats w) (fst (shown ! k)))))) \<and>
       drop (column_start shown (length shown)) (row w) = w_filename w)"
proof -
  from print_info_text [OF t some order, of os] obtain ws where
    ws: "print_info os o' s = Some (0, cprint (table_text shown (wo_zero o' \<noteq> 0) (map snd ws)) s)"
      "\<forall>n w. (n, w) \<in> set ws \<longleftrightarrow> watches s n = Some w \<and> watch_from_wd s (w_wd w) = Some n" "distinct (map fst ws)"
    unfolding shown by blast
  define header where "header = ''total  '' @ concat (map header_cell shown) @ ''filename''"
  define row where "row w = show_cell 5 (st_total (w_stats w)) @ concat (map (row_cell (w_stats w)) shown) @ w_filename w" for w :: watch
  let ?ws = "filter (\<lambda>(_, w). wo_zero o' \<noteq> 0 \<or> st_total (w_stats w) \<noteq> 0) ws"
  have "row_text shown = (\<lambda>w. row w @ nl)" by (rule ext) (simp add: row_text_def row_def)
  then have "table_text shown (wo_zero o' \<noteq> 0) (map snd ws) = header @ nl @ concat (map (\<lambda>(_, w). row w @ nl) ?ws)"
    by (simp add: table_text_def header_text_def header_def filter_map comp_def case_prod_unfold)
  moreover have widths: "\<forall>c\<in>set shown. length (fst (snd c)) = snd (snd c) \<and> 0 < snd (snd c)"
    using COLUMNS_widths by (auto simp: shown shown_columns_def)
  then have "\<forall>c\<in>set shown. length (header_cell c) = length (fst (snd c)) + 2" by (simp add: header_cell_def)
  note head = laid_out_line [where p = "''total  ''" and r = "''filename''", OF _ this, folded header_def]
  have row: "take 7 (row w) = pad_right 7 (show_nat (unat (st_total (w_stats w)))) \<and>
       (\<forall>k<length shown. cell_of shown k (row w) = pad_right (length (fst (snd (shown ! k))) + 2)
          (show_nat (unat (stat_value (w_stats w) (fst (shown ! k)))))) \<and>
       drop (column_start shown (length shown)) (row w) = w_filename w" if "(n, w) \<in> set ?ws" for n w
  proof -
    from that ws(2) fits have f: "unat (st_total (w_stats w)) < 10 ^ 5"
      "\<forall>c\<in>set shown. unat (stat_value (w_stats w) (fst c)) < 10 ^ length (fst (snd c))" by fastforce+
    have tot: "show_cell 5 (st_total (w_stats w)) = pad_right 7 (show_nat (unat (st_total (w_stats w))))"
      using show_cell_pad [of "st_total (w_stats w)" 5] length_show_nat [OF _ f(1)] by simp
    have cell: "row_cell (w_stats w) c = pad_right (length (fst (snd c)) + 2) (show_nat (unat (stat_value (w_stats w) (fst c))))"
      and len: "length (row_cell (w_stats w) c) = length (fst (snd c)) + 2" if "c \<in> set shown" for c
    proof -
      have d: "length (show_nat (unat (stat_value (w_stats w) (fst c)))) \<le> length (fst (snd c))"
        using length_show_nat [of "length (fst (snd c))"] widths f(2) that by auto
      then show "row_cell (w_stats w) c = pad_right (length (fst (snd c)) + 2) (show_nat (unat (stat_value (w_stats w) (fst c))))"
        using show_cell_pad [OF d] widths that by (simp add: row_cell_def)
      with d show "length (row_cell (w_stats w) c) = length (fst (snd c)) + 2" by (simp add: length_pad_right)
    qed
    have "length (show_cell 5 (st_total (w_stats w))) = 7"
      using length_show_nat [OF _ f(1)] by (simp add: tot length_pad_right)
    with laid_out_line [where p = "show_cell 5 (st_total (w_stats w))" and shown = shown and f = "row_cell (w_stats w)"
        and r = "w_filename w"] len
    show ?thesis using cell by (simp add: row_def tot)
  qed
  ultimately show ?thesis
    using ws head row
    by (intro exI [of _ header] exI [of _ row] exI [of _ ?ws]) (auto simp: header_cell_def distinct_map_filter)
qed

theorem table_aligned_witness:
  "\<exists>header row. print_info quiet_os (watch_opts_default\<lparr>wo_events := IN_OPEN\<rparr>) counting_watch =
      Some (0, cprint (header @ nl @ row @ nl) counting_watch) \<and>
    take 7 header = ''total  '' \<and> take 7 row = ''1      '' \<and>
    drop 7 header = ''open  filename'' \<and> drop 7 row = ''1     /a''"
proof -
  let ?o = "watch_opts_default\<lparr>wo_events := IN_OPEN\<rparr>"
  have order: "sort_order (wo_sort ?o) = (0, False)"
    by (simp add: watch_opts_default_def sort_order_def)
  have vals: "stats_get (w_stats counted_open) 0 = Some 1" "stats_get (w_stats counted_open) IN_OPEN = Some 1"
    "st_total (w_stats counted_open) = 1"
    by (simp_all add: counted_open_def stats_get_def stats_record_def stats_inc_def stats_default_def in_defs)
  have some: "get_stat_total 0 counting_watch \<noteq> 0"
    by (simp add: counting_watch_facts vals stat_int_def)
  have shown: "[(IN_OPEN, ''open'', 4)] = shown_columns ?o counting_watch"
    by (simp add: shown_columns_def COLUMNS_def counting_watch_facts vals [unfolded in_defs] stat_int_def watch_opts_default_def in_defs)
  have fits: "\<forall>n w. watches counting_watch n = Some w \<longrightarrow> unat (st_total (w_stats w)) < 10 ^ 5 \<and>
      (\<forall>(e, name, _)\<in>set [(IN_OPEN, ''open'', 4)]. unat (stat_value (w_stats w) e) < 10 ^ length name)"
    by (simp add: counting_watch_facts vals stat_value_def)
  from table_aligned [OF counting_watch_facts(1) some order shown fits, of quiet_os] obtain header row ws where
    p: "print_info quiet_os ?o counting_watch =
        Some (0, cprint (header @ nl @ concat (map (\<lambda>(_, w). row w @ nl) ws)) counting_watch)"
    and ws: "distinct (map fst ws)" "\<forall>n w. (n, w) \<in> set ws \<longleftrightarrow> watches counting_watch n = Some w \<and>
      watch_from_wd counting_watch (w_wd w) = Some n \<and> (wo_zero ?o \<noteq> 0 \<or> st_total (w_stats w) \<noteq> 0)"
    and h: "take 7 header = ''total  ''" "cell_of [(IN_OPEN, ''open'', 4)] 0 header = ''open  ''"
      "drop (column_start [(IN_OPEN, ''open'', 4)] 1) header = ''filename''"
    and r: "\<forall>(n, w)\<in>set ws. take 7 (row w) = pad_right 7 (show_nat (unat (st_total (w_stats w)))) \<and>
       (\<forall>k<length [(IN_OPEN, ''open'', 4 :: nat)]. cell_of [(IN_OPEN, ''open'', 4)] k (row w) =
          pad_right (length (fst (snd ([(IN_OPEN, ''open'', 4 :: nat)] ! k))) + 2)
          (show_nat (unat (stat_value (w_stats w) (fst ([(IN_OPEN, ''open'', 4 :: nat)] ! k)))))) \<and>
       drop (column_start [(IN_OPEN, ''open'', 4)] (length [(IN_OPEN, ''open'', 4 :: nat)])) (row w) = w_filename w"
    by (elim exE conjE) (rule that, auto)
  have wd: "w_wd counted_open = 3" by (simp add: counted_open_def)
  have "set ws = {(1, counted_open)}"
    using ws(2) vals(3) wd by (auto simp: counting_watch_facts watch_from_wd_def bt_get_def split: if_splits)
  with ws(1) have w: "ws = [(1, counted_open)]"
    by (cases ws; cases "tl ws") (auto simp: distinct_map)
  have one: "show_nat 1 = ''1''" by (simp add: show_nat_def show_base.simps)
  have name: "w_filename counted_open = ''/a''" by (simp add: counted_open_def cstring_def)
  have split: "drop 7 x = take 6 (drop 7 x) @ drop 13 x" for x :: string
    using append_take_drop_id [of 6 "drop 7 x"] by simp
  have hd: "take 6 (drop 7 header) = ''open  ''" "drop 13 header = ''filename''"
    using h(2,3) by (simp_all add: cell_of_def column_start_def eval_nat_numeral)
  have r1: "take 7 (row counted_open) = ''1      ''"
    "take 6 (drop 7 (row counted_open)) = ''1     ''" "drop 13 (row counted_open) = ''/a''"
    using r by (simp_all add: w cell_of_def column_start_def vals stat_value_def name pad_right_def
      one [unfolded One_nat_def] eval_nat_numeral)
  have "drop 7 header = ''open  filename''" using split [of header] unfolding hd by simp
  moreover have "drop 7 (row counted_open) = ''1     /a''" using split [of "row counted_open"] unfolding r1 by simp
  ultimately show ?thesis
    using p h(1) r1(1) by (intro exI [of _ header] exI [of _ "row counted_open"]) (simp add: w)
qed

text \<open>C38.
  What \<open>--descending\<close> sorts by: for an event other than \<open>access\<close>, the rows are sorted descending by
  its counter. For \<open>access\<close>, whose bit is 1, the negated key is the one that stands for the total:
  the rows are sorted by the total instead. A malformed list of events, whose value is 0, sorts
  ascending by the total.\<close>

theorem descending_order:
  assumes key: "\<not> eq_ignore_ascii_case arg ''total''" and e: "str_to_event (Some arg) = e" "0 \<le> sint e"
  shows "\<exists>k. sort_descending arg False o' s = (Some (False, o'\<lparr>wo_sort := k\<rparr>), s) \<and>
    sort_order k = (if e = 0 then (0, True) else if e = IN_ACCESS then (0, False) else (e, False))"
proof -
  have less: "sint e < 2 ^ 31" using sint_lt [of e] by simp
  have "e \<noteq> -1" using e(2) by auto
  then have "sort_descending arg False o' s = (Some (False, o'\<lparr>wo_sort := wrap32 (- sint e)\<rparr>), s)"
    using key e(1) by (simp add: sort_descending_def sort_key_def)
  moreover have "wrap32 (- sint e) = - sint e"
    using less e(2) by (intro wrap32_id) simp_all
  moreover have "wrap32 (sint e) = sint e"
    using less e(2) by (intro wrap32_id) simp_all
  moreover have "e = IN_ACCESS" if "sint e = 1"
    using arg_cong [OF that, of "of_int :: int \<Rightarrow> u32"] by (simp add: IN_ACCESS_def)
  then have "sint e = 1 \<longleftrightarrow> e = IN_ACCESS" by (auto simp: IN_ACCESS_def)
  moreover have "e = 0" if "sint e = 0"
    using arg_cong [OF that, of "of_int :: int \<Rightarrow> u32"] by simp
  then have "sint e = 0 \<longleftrightarrow> e = 0" by auto
  ultimately show ?thesis
    using e(2) by (intro exI [of _ "- sint e"]) (auto simp: sort_order_def)
qed

theorem descending_order_witness:
  "\<exists>k. sort_descending ''access'' False watch_opts_default (machine_new ()) =
      (Some (False, watch_opts_default\<lparr>wo_sort := k\<rparr>), machine_new ()) \<and> sort_order k = (0, False)"
proof -
  have key: "\<not> eq_ignore_ascii_case ''access'' ''total''" by code_simp
  have e: "str_to_event (Some ''access'') = IN_ACCESS" by code_simp
  have "0 \<le> sint IN_ACCESS" by (simp add: IN_ACCESS_def)
  from descending_order [OF key e this, of watch_opts_default "machine_new ()"] show ?thesis
    by (simp add: IN_ACCESS_def)
qed

subsection \<open>Counting until a signal\<close>

lemma deliver_quiet: "os_signals os (world s) = ([], world s) \<Longrightarrow> deliver_signals os g s = Some (Inr g, s)"
  by (simp add: deliver_signals_def sys_def)

lemma collect_counted: "collect_stats (counted e s) = collect_stats s"
  by (simp add: counted_def)

lemma delivered_counts:
  assumes d: "delivered os x s t" and on: "collect_stats s"
  shows "same_counts (record_stats (ev_wd x) (ev_mask x) s) t" "collect_stats t"
proof -
  from d obtain s1 where s1: "reader_moved s s1" "t = counted x s1" by (auto simp: delivered_def)
  note f = reader_moved_fields [OF s1(1)]
  have "same_counts s s1" by (simp add: same_counts_def f)
  then show "same_counts (record_stats (ev_wd x) (ev_mask x) s) t"
    using same_counts_record [of s s1 "ev_wd x" "ev_mask x"] on f by (simp add: s1(2) counted_def)
  show "collect_stats t" using on f by (simp add: s1(2) collect_counted)
qed

abbreviation counts_of :: "event list \<Rightarrow> (int \<times> u32) list" where
  "counts_of evs \<equiv> map (\<lambda>e. (ev_wd e, ev_mask e)) evs"

definition collecting :: "sig_state \<Rightarrow> int \<Rightarrow> bool" where
  "collecting g sig \<longleftrightarrow> \<not> sg_done g \<and> \<not> sg_print_now g \<and> sg_handlers g sig = Some Handle_signal"

lemma loop_until_signal:
  "deliverable s evs \<Longrightarrow> length evs < fuel \<Longrightarrow> wo_recursive o' = 0 \<Longrightarrow> \<not> wo_filesystem o' \<Longrightarrow>
     collect_stats s \<Longrightarrow> collecting g sig \<Longrightarrow> os_signals os (world s) = ([], world s) \<Longrightarrow>
     os_ppoll os (fd s) (-1) (world s) = ((-1, EINTR), w1) \<Longrightarrow> os_signals os w1 = ([sig], w2) \<Longrightarrow>
     os_signals os w2 = ([], w2) \<Longrightarrow>
     \<exists>t. watch_loop os fuel o' None g s = Some (Inr (handle_signal g), t) \<and> inotify_table t \<and>
       c_stdout t = c_stdout s \<and> same_counts (record_all (counts_of (filter (passes os s) evs)) s) t"
proof (induction "length evs" arbitrary: evs s fuel rule: less_induct)
  case less
  obtain f where f: "fuel = Suc f" using less.prems(2) by (cases fuel) auto
  note quiet = deliver_quiet [OF less.prems(7)]
  show ?case
  proof (cases "filter (passes os s) evs = []")
    case True
    from next_event_none [OF less.prems(1) True less.prems(2), of BLOCKING_TIMEOUT "-1" EINTR w1] less.prems(8)
    obtain t where t: "next_event os fuel BLOCKING_TIMEOUT s = Some (None, t)" "idle EINTR w1 s t"
      by (auto simp: BLOCKING_TIMEOUT_def)
    note i = idleD [OF t(2)]
    let ?u = "t\<lparr>world := w2\<rparr>"
    have got: "deliver_signals os g t = Some (Inr (handle_signal g), ?u)"
      using less.prems(6,9) i(2) by (simp add: deliver_signals_def sys_def collecting_def)
    have more: "deliver_signals os (handle_signal g) ?u = Some (Inr (handle_signal g), ?u)"
      using less.prems(10) by (intro deliver_quiet) simp
    have "watch_loop os fuel o' None g s = Some (Inr (handle_signal g), ?u)"
      using t(1) got more i(1) less.prems(6) quiet
      by (simp add: f and_then_def check_print_now_def collecting_def handle_signal_def EINTR_def)
    moreover have "inotify_table ?u"
      using i(9) less.prems(1) by (simp add: deliverable_def inotify_table_def table_inv_def)
    moreover have "same_counts (record_all [] s) ?u"
      using i by (simp add: same_counts_def record_all_def)
    ultimately show ?thesis using i(3) True by auto
  next
    case False
    then obtain y where "y \<in> set evs" "passes os s y" by (auto simp: filter_empty_conv)
    from next_event_first [OF less.prems(1) this less.prems(2), of BLOCKING_TIMEOUT] obtain pre x es t where
      evs: "evs = pre @ x # es" "filter (passes os s) pre = []" "passes os s x"
      and call: "next_event os fuel BLOCKING_TIMEOUT s = Some (Some x, t)"
      and t: "delivered os x s t" "deliverable t es" by metis
    note td = deliveredD [OF t(1)] and tc = delivered_counts [OF t(1) less.prems(5)]
    have "\<exists>u. watch_loop os f o' None g t = Some (Inr (handle_signal g), u) \<and> inotify_table u \<and>
       c_stdout u = c_stdout t \<and> same_counts (record_all (counts_of (filter (passes os t) es)) t) u"
      using less.prems evs(1) f td tc(2) t(2) by (intro less.hyps) auto
    then obtain u where u: "watch_loop os f o' None g t = Some (Inr (handle_signal g), u)" "inotify_table u"
       "c_stdout u = c_stdout t" "same_counts (record_all (counts_of (filter (passes os t) es)) t) u" by blast
    have "watch_loop os fuel o' None g s = watch_loop os f o' None g t"
      using call quiet less.prems(3-7) td(4) deliver_quiet [of os t]
      by (simp add: f and_then_def check_print_now_def collecting_def handle_plain)
    moreover have "same_counts (record_all (counts_of (filter (passes os s) evs)) s) u"
      using same_counts_trans [OF same_counts_record_all [OF tc(1)] u(4)] td(3) evs
      by (simp add: record_all_Cons)
    ultimately show ?thesis using u td(6) by auto
  qed
qed

text \<open>C21.
  A complete run: when events are waiting and then a signal (\<open>SIGINT\<close>, \<open>SIGTERM\<close> or the alarm)
  interrupts the wait, the program ends with code 0 after counting exactly the events that pass
  the filter, each once, on its watch and in the totals, and prints the table of exactly these
  counters.\<close>

theorem counts_until_signal:
  assumes t: "inotify_table s" and pending: "pending s evs" and valid: "\<forall>x\<in>set evs. valid_event x"
    and fits: "\<forall>x\<in>set evs. length (event_text s x) < MAX_STRLEN" and fuel: "length evs < fuel"
    and o': "wo_recursive o' = 0" "\<not> wo_filesystem o'" and on: "collect_stats s"
    and g: "\<not> sg_done g" "\<not> sg_print_now g" "sg_handlers g sig = Some Handle_signal"
    and calm: "os_signals os (world s) = ([], world s)"
    and interrupted: "os_ppoll os (fd s) (-1) (world s) = ((-1, EINTR), w1)"
    and signal: "os_signals os w1 = ([sig], w2)" and after: "os_signals os w2 = ([], w2)"
  shows "\<exists>u s'. same_counts (record_all (counts_of (filter (passes os s) evs)) s) u \<and>
    c_stdout u = c_stdout s \<and> print_info os o' u = Some (0, s') \<and>
    watch_run os fuel o' g s = Some (Inr 0, s')"
proof -
  have "collecting g sig" using g by (simp add: collecting_def)
  from loop_until_signal [OF deliverableI [OF t pending valid fits] fuel o' on this calm interrupted signal after]
  obtain u where u: "watch_loop os fuel o' None g s = Some (Inr (handle_signal g), u)" "inotify_table u"
    "c_stdout u = c_stdout s" "same_counts (record_all (counts_of (filter (passes os s) evs)) s) u" by blast
  obtain event asc where order: "sort_order (wo_sort o') = (event, asc)" by fastforce
  have "\<exists>s'. print_info os o' u = Some (0, s')"
  proof (cases "get_stat_total 0 u = 0")
    case True
    then show ?thesis by (simp add: print_info_def EXIT_SUCCESS_def)
  next
    case False
    from print_info_text [OF u(2) this order] show ?thesis by blast
  qed
  with u show ?thesis by (auto simp: watch_run_def and_then_def)
qed

text \<open>A system that is interrupted once.\<close>

definition interrupted_os :: "nat os" where
  "interrupted_os = quiet_os\<lparr>os_ppoll := (\<lambda>_ _ w. ((-1, EINTR), 1)),
     os_signals := (\<lambda>w. if w = 1 then ([SIGTERM], 2) else ([], w))\<rparr>"

theorem counts_until_signal_witness:
  "\<exists>u s'. get_stat_total 0 u = 2 \<and> print_info interrupted_os watch_opts_default u = Some (0, s') \<and>
    watch_run interrupted_os 5 watch_opts_default (set_signal SIGTERM Handle_signal sig_new)
      ((at_world 0 (with_events two_events))\<lparr>collect_stats := True\<rparr>) = Some (Inr 0, s')"
proof -
  let ?s = "(at_world 0 (with_events two_events))\<lparr>collect_stats := True\<rparr> :: nat machine"
  let ?g = "set_signal SIGTERM Handle_signal sig_new" and ?o = watch_opts_default
  have v: "\<forall>x\<in>set two_events. valid_event x"
    by (simp add: two_events_def valid_event_def)
  have len: "length (encode_events two_events) \<le> 1000" and ne: "two_events \<noteq> []"
    using v by (simp_all add: two_events_def length_encode_event EVENT_SIZE_def)
  note ok = with_events_ok [OF len ne]
  have frame: "inotify_table (s\<lparr>collect_stats := c\<rparr>) = inotify_table s"
    "pending (s\<lparr>collect_stats := c\<rparr>) evs = pending s evs" "event_text (s\<lparr>collect_stats := c\<rparr>) ev = event_text s ev"
    for s :: "nat machine" and c evs ev
    by (simp_all add: inotify_table_def table_inv_def pending_def bytes_at_def event_text_def wd_path_def
        watch_from_wd_def split: option.split)
  have s: "inotify_table ?s" "pending ?s two_events"
    using ok(1,2) by (simp_all add: frame at_world_reader)
  have "\<forall>x\<in>set two_events. length (event_text (with_events two_events) x) < MAX_STRLEN"
    by (simp add: ok(3)) (simp add: two_events_def MAX_STRLEN_def)
  then have fits: "\<forall>x\<in>set two_events. length (event_text ?s x) < MAX_STRLEN"
    by (simp add: frame at_world_reader)
  have n: "length two_events < 5" by (simp add: two_events_def)
  have o': "wo_recursive ?o = 0" "\<not> wo_filesystem ?o" by (simp_all add: watch_opts_default_def)
  have g: "\<not> sg_done ?g" "\<not> sg_print_now ?g" "sg_handlers ?g SIGTERM = Some Handle_signal"
    by (simp_all add: set_signal_def sig_new_def)
  have w: "world ?s = 0" by (simp add: at_world_fields)
  have os: "os_signals interrupted_os (world ?s) = ([], world ?s)"
    "os_ppoll interrupted_os (fd ?s) (-1) (world ?s) = ((-1, EINTR), 1)"
    "os_signals interrupted_os 1 = ([SIGTERM], 2)" "os_signals interrupted_os 2 = ([], 2)"
    by (simp_all add: interrupted_os_def w)
  have on: "collect_stats ?s" by simp
  from counts_until_signal [OF s v fits n o' on g os] obtain u s' where
    u: "same_counts (record_all (counts_of (filter (passes interrupted_os ?s) two_events)) ?s) u"
    and run: "print_info interrupted_os ?o u = Some (0, s')"
      "watch_run interrupted_os 5 ?o ?g ?s = Some (Inr 0, s')"
    by (elim exE conjE) (rule that)
  have "passes interrupted_os ?s x" for x
    by (simp add: passes_def at_world_fields ok(4))
  then have all: "filter (passes interrupted_os ?s) two_events = two_events" by simp
  have wd: "watch_from_wd ?s 3 \<noteq> None"
    by (simp add: watch_from_wd_def bt_get_def at_world_fields with_events_def Let_def one_watch_facts)
  have zero: "totals ?s = stats_default"
    by (simp add: at_world_fields with_events_def Let_def wr_bytes_def one_watch_def register_def)
  have masks: "map snd (filter (\<lambda>e. watch_from_wd ?s (fst e) \<noteq> None) (counts_of two_events)) = [IN_OPEN, IN_DELETE_SELF]"
    using wd unfolding two_events_def list.map event.simps filter.simps fst_conv snd_conv by simp
  have "totals u = stats_replay stats_default [IN_OPEN, IN_DELETE_SELF]"
    using u record_all_totals [of "counts_of two_events" ?s] unfolding all masks zero same_counts_def by simp
  moreover have "collect_stats u"
    using u by (simp add: same_counts_def record_all_fields)
  ultimately have "get_stat_total 0 u = 2"
    by (simp add: get_stat_total_def stat_int_def stats_replay_simps stats_get_def stats_record_def stats_default_def in_defs)
  with run show ?thesis by blast
qed

end
