(* ===== verification/WatchRun.thy ===== *)
theory WatchRun
  imports WatchTool FileWatches
begin

text \<open>
  The whole of \<open>inotifywatch\<close>, from the command line to the table: the events that the kernel hands
  over, batch after batch, are counted until a signal interrupts the wait.
\<close>

subsection \<open>Counting batch after batch\<close>

text \<open>Nothing is left, and a signal interrupts the poll.\<close>

definition interrupted :: "'w os \<Rightarrow> int \<Rightarrow> int \<times> int \<Rightarrow> 'w \<Rightarrow> bool" where
  "interrupted os sig r w \<longleftrightarrow>
     r = (-1, EINTR) \<and> (\<exists>w'. os_signals os w = ([sig], w') \<and> os_signals os w' = ([], w'))"

text \<open>No signal comes while there are events.\<close>

definition undisturbed :: "'w os \<Rightarrow> ('w \<Rightarrow> event list list \<Rightarrow> bool) \<Rightarrow> bool" where
  "undisturbed os queued \<longleftrightarrow> (\<forall>w bs. queued w bs \<longrightarrow> os_signals os w = ([], w))"

lemma watch_loop_feed:
  "waiting queued s evs bs \<Longrightarrow> feeds os queued (fd s) (-1) (interrupted os sig) \<Longrightarrow>
     length (evs @ concat bs) < fuel \<Longrightarrow> undisturbed os queued \<Longrightarrow> collecting g sig \<Longrightarrow>
     wo_recursive o' = 0 \<Longrightarrow> \<not> wo_filesystem o' \<Longrightarrow> collect_stats s \<Longrightarrow>
     \<exists>t. watch_loop os fuel o' None g s = Some (Inr (handle_signal g), t) \<and> inotify_table t \<and>
       c_stdout t = c_stdout s \<and> event_text t = event_text s \<and>
       same_counts (record_all (counts_of (filter (passes os s) (evs @ concat bs))) s) t"
proof (induction "length (evs @ concat bs)" arbitrary: evs bs s fuel rule: less_induct)
  case less
  obtain f where f: "fuel = Suc f" using less.prems(3) by (cases fuel) auto
  note wd = waitingD [OF less.prems(1)]
  have ini: "initialized s" using wd(1) by (simp add: inotify_table_def)
  have quiet: "deliver_signals os g s = Some (Inr g, s)"
    using less.prems(4) wd(3) by (intro deliver_quiet) (auto simp: undisturbed_def)
  note call = next_event_loop [OF ini, of os fuel BLOCKING_TIMEOUT]
  have timeout: "(if BLOCKING_TIMEOUT = 0 then -1 else BLOCKING_TIMEOUT) = -1" by (simp add: BLOCKING_TIMEOUT_def)
  from loop_feed [OF less.prems(1-3)] show ?case
  proof (cases rule: feed_resultE)
    case (none rc e s1)
    then obtain w' where stop: "rc = -1" "e = EINTR" "os_signals os (world s1) = ([sig], w')"
      "os_signals os w' = ([], w')" by (auto simp: interrupted_def)
    let ?u = "s1\<lparr>world := w'\<rparr>"
    have got: "deliver_signals os g s1 = Some (Inr (handle_signal g), ?u)"
      using less.prems(5) stop by (simp add: deliver_signals_def sys_def collecting_def)
    have more: "deliver_signals os (handle_signal g) ?u = Some (Inr (handle_signal g), ?u)"
      using stop(4) by (intro deliver_quiet) simp
    have "next_event os fuel BLOCKING_TIMEOUT s = Some (None, s1)"
      using call none(2) by (simp add: timeout)
    then have "watch_loop os fuel o' None g s = Some (Inr (handle_signal g), ?u)"
      using got more none(5) stop(1,2) less.prems(5) quiet
      by (simp add: f and_then_def check_print_now_def collecting_def handle_signal_def EINTR_def)
    moreover have "fed s ?u" using none(3) by (rule fed_trans) (simp add: fed_def)
    ultimately show ?thesis
      using fed_fields [OF \<open>fed s ?u\<close>] fed_same [OF \<open>fed s ?u\<close>] wd(1) none(1)
      by (intro exI [of _ ?u]) (simp add: same_counts_def record_all_def)
  next
    case (event pre x es cs s1)
    let ?t = "counted x s1"
    have t1: "inotify_table s1" by (rule waitingD(1) [OF event(7)])
    note c = counted_reader [OF t1] counted_more [of x s1] and ff = fed_fields [OF event(6)]
    have w: "waiting queued ?t es cs" by (rule waiting_world [OF event(7)]) (simp_all add: c fun_eq_iff)
    have on: "collect_stats ?t" using less.prems(8) ff by (simp add: collect_counted)
    have tx: "event_text ?t = event_text s" "passes os ?t = passes os s" "c_stdout ?t = c_stdout s"
      using c ff(16) fed_same [OF event(6)] by simp_all
    have counts: "same_counts (record_stats (ev_wd x) (ev_mask x) s) ?t"
      using same_counts_record [of s s1 "ev_wd x" "ev_mask x"] less.prems(8) ff
      by (simp add: counted_def same_counts_def)
    have "\<exists>u. watch_loop os f o' None g ?t = Some (Inr (handle_signal g), u) \<and> inotify_table u \<and>
       c_stdout u = c_stdout ?t \<and> event_text u = event_text ?t \<and>
       same_counts (record_all (counts_of (filter (passes os ?t) (es @ concat cs))) ?t) u"
    proof (rule less.hyps [OF _ w _ _ less.prems(4-7) on])
      show "length (es @ concat cs) < length (evs @ concat bs)" "length (es @ concat cs) < f"
        using event(1) less.prems(3) f by simp_all
      show "feeds os queued (fd ?t) (-1) (interrupted os sig)"
        using less.prems(2) c(7) ff(15) by simp
    qed
    then obtain u where u: "watch_loop os f o' None g ?t = Some (Inr (handle_signal g), u)" "inotify_table u"
       "c_stdout u = c_stdout s" "event_text u = event_text s"
       "same_counts (record_all (counts_of (filter (passes os s) (es @ concat cs))) ?t) u" by (auto simp: tx)
    have calm: "deliver_signals os g ?t = Some (Inr g, ?t)"
      using less.prems(4) waitingD(3) [OF w] by (intro deliver_quiet) (auto simp: undisturbed_def)
    have "next_event os fuel BLOCKING_TIMEOUT s = Some (Some x, ?t)"
      using call event(4,5) c(2) by (simp add: timeout)
    then have "watch_loop os fuel o' None g s = watch_loop os f o' None g ?t"
      using quiet calm less.prems(5-7)
      by (simp add: f and_then_def check_print_now_def collecting_def handle_plain)
    moreover have "same_counts (record_all (counts_of (filter (passes os s) (evs @ concat bs))) s) u"
      using same_counts_trans [OF same_counts_record_all [OF counts] u(5)] event(2,3) unfolding event(1)
      by (simp add: record_all_Cons)
    ultimately show ?thesis using u(1-4) by auto
  qed
qed

subsection \<open>The program\<close>

text \<open>The options of the runs followed here: a filter or none, no directory tree, inotify.\<close>

definition plain_count :: "'w os \<Rightarrow> watch_opts \<Rightarrow> bool" where
  "plain_count os o' \<longleftrightarrow> wo_recursive o' = 0 \<and> \<not> wo_filesystem o' \<and> \<not> wo_fanotify o' \<and>
     wo_no_dereference o' = 0 \<and> filters_ok os (wo_filters o') \<and> wo_fromfile o' = None \<and> 0 \<le> wo_timeout o'"

text \<open>What the signals of the run are, and that setting the alarm leaves the events.\<close>

definition ends_run :: "watch_opts \<Rightarrow> int \<Rightarrow> bool" where
  "ends_run o' sig \<longleftrightarrow> sig \<in> {SIGINT, SIGHUP, SIGTERM} \<or> sig = SIGALRM \<and> wo_timeout o' \<noteq> 0"

definition alarm_quiet :: "'w os \<Rightarrow> ('w \<Rightarrow> event list list \<Rightarrow> bool) \<Rightarrow> bool" where
  "alarm_quiet os queued \<longleftrightarrow> (\<forall>w bs n. queued w bs \<longrightarrow> queued (os_alarm os n w) bs)"

lemma watch_setup_plain:
  assumes name: "\<not> invoked_as_fsnotify (argv0 g)"
    and parse: "watch_parse_opts os v g (watch_opts_default\<lparr>wo_fanotify := False\<rparr>) (machine_new w) =
      (Some (args, o'), machine_new w)"
    and o': "plain_count os o'" and kernel: "os_inotify_init os w = ((d, e), w1)" "0 \<le> d"
  shows "\<exists>s. watch_setup os v g (machine_new w) =
      Some (Inr (args, o'\<lparr>wo_events := counted_mask o'\<rparr>, set_signal SIGINT Handle_impatient_user sig_new), s) \<and>
    inotify_table s \<and> fd s = d \<and> world s = w1 \<and> c_stdout s = [] \<and> first_byte s = 0 \<and> filtering (wo_filters o') s \<and>
    by_wd s = [] \<and> counters_zero s \<and> \<not> collect_stats s"
proof -
  have "install os (wo_filters o') 0 s = (True, installed (wo_filters o') s)" for s
    using o' by (intro install_filters) (simp add: plain_count_def)
  with assms show ?thesis
    by (cases rule: filters_cases [of "wo_filters o'"])
      (simp_all add: watch_setup_def init_def sys_def plain_count_def inotify_table_def table_inv_def Let_def
        wd_ix.points_def fid_ix.points_def name_ix.points_def counters_zero_def installed_def filtering_def)
qed

lemma ceprint_set_up:
  "set_up s (ceprint msg t) = set_up s t" "inotify_table (ceprint msg t) = inotify_table t"
  "wd_path (ceprint msg t) = wd_path t" "world (ceprint msg t) = world t"
  "watch_from_wd (ceprint msg t) = watch_from_wd t" "fd (ceprint msg t) = fd t"
  "counters_zero (ceprint msg t) = counters_zero t"
  by (simp_all add: ceprint_def set_up_def settings_effects inotify_table_def table_inv_def
      wd_path_effects counters_zero_def)

lemma watch_establish_plain:
  assumes t: "inotify_table s" and o': "plain_count os o'"
    and files: "files = fl_watch (sorted_out (arg_names args))" "files \<noteq> []"
    and kernel: "\<forall>f\<in>set files. watchable os queued (fd s) (wo_events o') wdof isd f"
    and q: "queued (world s) bs" "undisturbed os queued" and empty: "by_wd s = []" and zero: "counters_zero s"
  shows "\<exists>t. watch_establish os fuel args o' g s = Some (Inr g, t) \<and> inotify_table t \<and> set_up s t \<and>
    queued (world t) bs \<and> wd_path t = wd_name wdof isd files \<and> counters_zero t \<and>
    (\<forall>v. watch_from_wd t v = None \<longleftrightarrow> v \<notin> wdof ` set files)"
proof -
  have calm: "deliver_signals os g t = Some (Inr g, t)" if "queued (world t) bs" for t
    using q(2) that by (intro deliver_quiet) (auto simp: undisturbed_def)
  have list: "construct_path_list os fuel args None s = Some (Some (sorted_out (arg_names args)), s)"
    using fold_file_list_add [of args "[]"] by (simp add: construct_path_list_def no_files_sorted)
  have around: "watch_before o' = (\<lambda>_ s. s)" "watch_after o' = (\<lambda>_ s. s)"
    using o' by (simp_all add: watch_before_def watch_after_def plain_count_def fun_eq_iff)
  let ?s1 = "ceprint (''Establishing watches...'' @ nl) s"
  have s1: "inotify_table ?s1" "queued (world ?s1) bs" "\<forall>f\<in>set files. watchable os queued (fd ?s1) (wo_events o') wdof isd f"
    using t q(1) kernel by (simp_all add: ceprint_set_up)
  from watch_list_set_up [where queued = queued, OF s1, of fuel "sorted_out (arg_names args)" False "''Failed to watch ''" ceprint]
  obtain t where t: "watch_list_loop os fuel (sorted_out (arg_names args)) (wo_events o') False False False
      ''Failed to watch '' ceprint (\<lambda>_ s. s) (\<lambda>_ s. s) files ?s1 = Some (True, t)"
    "inotify_table t" "set_up ?s1 t" "queued (world t) bs"
    "\<And>v. wd_path t v = (if watch_from_wd ?s1 v = None then wd_name wdof isd files v else wd_path ?s1 v)"
    "\<And>v. watch_from_wd t v = None \<longleftrightarrow> v \<notin> wdof ` set files \<and> watch_from_wd ?s1 v = None"
    "counters_zero ?s1 \<longrightarrow> counters_zero t" by blast
  have free: "watch_from_wd ?s1 v = None" for v using empty by (simp add: ceprint_set_up watch_from_wd_def)
  have "watch_establish os fuel args o' g s = Some (Inr g, t)"
    using o' list t(1) files calm [OF q(1)] calm [OF t(4)]
    by (simp add: watch_establish_def plain_count_def and_then_def watch_list_def around)
  moreover have "set_up s t" using t(3) by (simp add: set_up_def ceprint_def settings_effects)
  moreover have "wd_path t = wd_name wdof isd files" using t(5) free by (simp add: fun_eq_iff)
  ultimately show ?thesis
    using t(2,4,6,7) free zero by (simp add: ceprint_set_up)
qed

lemma initialize_stats_fresh:
  assumes "inotify_table s" and "\<not> collect_stats s"
  shows "initialize_stats s = s\<lparr>totals := stats_default, collect_stats := True\<rparr>"
  using assms by (simp add: initialize_stats_def inotify_table_def)

lemma collecting_started: "ends_run o' sig \<Longrightarrow> \<not> sg_done g \<Longrightarrow> \<not> sg_print_now g \<Longrightarrow>
    sg_handlers g = h \<Longrightarrow> watch_start os o' g s = Some (Inr g', t) \<Longrightarrow> collecting g' sig"
  by (auto simp: watch_start_def ends_run_def collecting_def set_signal_def SIGINT_def SIGHUP_def SIGTERM_def
      SIGALRM_def SIGUSR1_def Let_def sysw_def split: if_splits prod.splits)

lemma watch_start_plain:
  assumes t: "inotify_table s" and o': "plain_count os o'" and off: "\<not> collect_stats s"
    and q: "queued (world s) bs" "alarm_quiet os queued" and sig: "ends_run o' sig"
  shows "\<exists>g' t. watch_start os o' (set_signal SIGINT Handle_impatient_user sig_new) s = Some (Inr g', t) \<and>
    collecting g' sig \<and> inotify_table t \<and> queued (world t) bs \<and> watches t = watches s \<and> by_wd t = by_wd s \<and>
    wd_path t = wd_path s \<and> totals t = stats_default \<and> collect_stats t \<and> c_stdout t = c_stdout s \<and>
    fd t = fd s \<and> first_byte t = first_byte s \<and> filtering f t = filtering f s"
proof -
  let ?g = "set_signal SIGINT Handle_impatient_user sig_new"
  define n where "n = (if wo_timeout o' \<noteq> 0 then word_of_int (wo_timeout o') else - 1 :: u32)"
  have "\<exists>g' m. watch_start os o' ?g s = Some (Inr g', initialize_stats (s\<lparr>c_stderr := m, world := os_alarm os n (world s)\<rparr>))"
  proof -
    have e: "ceprint b (ceprint a t) = ceprint (a @ b) t" for a b and t :: "'a machine" by (simp add: ceprint_def)
    have c: "sysw h (ceprint a s) = s\<lparr>c_stderr := c_stderr s @ a, world := h (world s)\<rparr>" for h a
      by (simp add: sysw_def ceprint_def)
    show ?thesis
      using o' by (cases "wo_verbose o' = 0"; cases "wo_timeout o' = 0")
        (fastforce simp: watch_start_def plain_count_def Let_def e c n_def simp del: append.simps)+
  qed
  then obtain g' m where run:
    "watch_start os o' ?g s = Some (Inr g', initialize_stats (s\<lparr>c_stderr := m, world := os_alarm os n (world s)\<rparr>))"
    by blast
  let ?u = "s\<lparr>c_stderr := m, world := os_alarm os n (world s)\<rparr>"
  have u: "inotify_table ?u" "\<not> collect_stats ?u" using t off by (simp_all add: inotify_table_def table_inv_def)
  have "queued (os_alarm os n (world s)) bs" using q by (simp add: alarm_quiet_def)
  moreover have "inotify_table (?u\<lparr>totals := stats_default, collect_stats := True\<rparr>)"
    using t by (simp add: inotify_table_def table_inv_def)
  moreover have "wd_path (?u\<lparr>totals := stats_default, collect_stats := True\<rparr>) = wd_path s"
    by (rule ext) (simp add: wd_path_def watch_from_wd_def split: option.split)
  moreover have "collecting g' sig"
    using collecting_started [OF sig _ _ _ run] by (simp add: set_signal_def sig_new_def)
  ultimately show ?thesis using run initialize_stats_fresh [OF u] by (simp add: filtering_def split: list.split)
qed

subsection \<open>The table of a run\<close>

text \<open>The counters of a descriptor, and of the whole run.\<close>

definition counted_for :: "int \<Rightarrow> event list \<Rightarrow> watch_stats" where
  "counted_for wd evs = stats_replay stats_default (map ev_mask (filter (\<lambda>ev. ev_wd ev = wd) evs))"

lemma masks_counts: "masks_of wd (counts_of evs) = map ev_mask (filter (\<lambda>ev. ev_wd ev = wd) evs)"
  by (induction evs) (auto simp: masks_of_def)

lemma totals_counts:
  "map snd (filter (\<lambda>e. fst e \<in> A) (counts_of evs)) = map ev_mask (filter (\<lambda>ev. ev_wd ev \<in> A) evs)"
  by (induction evs) auto

lemma stat_int_count: "0 < n \<Longrightarrow> n < 2 ^ 32 \<Longrightarrow> stat_int (Some (of_nat n)) \<noteq> 0"
proof -
  assume n: "0 < n" "n < 2 ^ 32"
  then have "unat (of_nat n :: u32) = n" by (intro unat_of_nat_small) simp
  with n(1) have "(of_nat n :: u32) \<noteq> 0" by (metis less_irrefl unsigned_0)
  then show ?thesis by (simp add: stat_int_def signed_eq_0_iff)
qed

text \<open>The watches after counting, read off the table before.\<close>

lemma counted_watch:
  assumes t: "inotify_table t" and zero: "counters_zero t" and same: "same_counts (record_all (counts_of evs) t) u"
    and paths: "wd_path u = wd_path t" and u: "inotify_table u"
    and n: "watches u n = Some w" "watch_from_wd u (w_wd w) = Some n"
  shows "w_filename w = wd_path t (w_wd w)" "w_stats w = counted_for (w_wd w) evs" "watch_from_wd t (w_wd w) \<noteq> None"
proof -
  have inv: "table_inv t" using t by (simp add: inotify_table_def)
  have wd: "watch_from_wd t (w_wd w) = Some n"
    using n(2) same by (simp add: same_counts_def watch_from_wd_def record_all_fields)
  then show "watch_from_wd t (w_wd w) \<noteq> None" by simp
  from watch_from_wd_found [OF inv wd] obtain v where v: "watches t n = Some v" by blast
  from record_all_watch [OF inv wd v, of "counts_of evs"] same n(1) v zero
  show "w_stats w = counted_for (w_wd w) evs"
    by (auto simp: same_counts_def counters_zero_def masks_counts counted_for_def)
  have "w_wd w \<noteq> 0" using n(1) u table_invD(4) [of u n w] by (auto simp: inotify_table_def watch_ok_def)
  with n have "wd_path u (w_wd w) = w_filename w" by (simp add: wd_path_def)
  with paths show "w_filename w = wd_path t (w_wd w)" by simp
qed

text \<open>C2.
  The whole program: \<open>inotifywatch\<close> on a list of files that the kernel can watch, with any filter
  but no directory tree. Whatever batches of events the kernel hands over until one of the signals
  that end the run interrupts the wait, the program ends with code 0 and prints exactly the table
  of what happened: one row for each descriptor, with the name of the first file that has it and
  the counters of exactly its events that the filter keeps, in the order that was asked for, and the columns of the
  events that were watched for and, without \<open>--zero\<close>, occurred.\<close>

theorem inotifywatch_counts:
  fixes os :: "'w os" and queued :: "'w \<Rightarrow> event list list \<Rightarrow> bool" and parser :: option_parser and argv :: "string list"
  defines "g \<equiv> getopt_new parser argv watch_OPT_STRING watch_LONG_OPTS"
  assumes name: "\<not> invoked_as_fsnotify (argv0 g)"
    and parse: "watch_parse_opts os v g (watch_opts_default\<lparr>wo_fanotify := False\<rparr>) (machine_new w) =
      (Some (args, o'), machine_new w)"
    and o': "plain_count os o'" and order: "sort_order (wo_sort o') = (event, asc)"
    and files: "files = fl_watch (sorted_out (arg_names args))" "files \<noteq> []"
    and kernel: "os_inotify_init os w = ((d, e), w1)" "0 \<le> d" "queued w1 bs"
    and watch: "\<forall>f\<in>set files. watchable os queued d (counted_mask o') wdof isd f"
    and signals: "undisturbed os queued" "alarm_quiet os queued" "ends_run o' sig"
    and feeds: "feeds os queued d (-1) (interrupted os sig)"
    and batches: "\<forall>b\<in>set bs. batch_ok b"
    and events: "\<forall>ev\<in>set (concat bs). valid_event ev \<and>
      length (wd_name wdof isd files (ev_wd ev) @ ev_name ev) < MAX_STRLEN"
    and seen: "seen = filter (\<lambda>ev. kept os (wo_filters o') (event_file wdof isd files ev)) (concat bs)"
    and known: "known = filter (\<lambda>ev. ev_wd ev \<in> wdof ` set files) seen"
      "known \<noteq> []" "length known < 2 ^ 32"
    and fuel: "length (concat bs) < fuel"
  shows "\<exists>s ws. inotifywatch os parser v fuel argv w = Some (0, s) \<and>
    c_stdout s = table_text (filter (\<lambda>(ev, _, _). ev AND counted_mask o' \<noteq> 0 \<and> (wo_zero o' \<noteq> 0 \<or>
      stat_int (stats_get (stats_replay stats_default (map ev_mask known)) ev) \<noteq> 0)) COLUMNS) (wo_zero o' \<noteq> 0) ws \<and>
    distinct (map w_wd ws) \<and> w_wd ` set ws = wdof ` set files \<and>
    (\<forall>x\<in>set ws. w_filename x = wd_name wdof isd files (w_wd x) \<and> w_stats x = counted_for (w_wd x) seen) \<and>
    sorted_wrt (\<lambda>a b. if asc then stat_or_0 event a \<le> stat_or_0 event b
      else stat_or_0 event b \<le> stat_or_0 event a) ws"
proof -
  let ?all = "concat bs" and ?o = "o'\<lparr>wo_events := counted_mask o'\<rparr>"
  let ?g = "set_signal SIGINT Handle_impatient_user sig_new"
  have o2: "plain_count os ?o" "ends_run ?o sig" using o' signals(3) by (simp_all add: plain_count_def ends_run_def)
  from watch_setup_plain [OF name parse o' kernel(1,2)] obtain s where
    s: "watch_setup os v g (machine_new w) = Some (Inr (args, ?o, ?g), s)" "inotify_table s" "fd s = d" "world s = w1"
      "c_stdout s = []" "first_byte s = 0" "filtering (wo_filters o') s" "by_wd s = []" "counters_zero s" "\<not> collect_stats s" by blast
  have "queued (world s) bs" using kernel(3) s(4) by simp
  from watch_establish_plain [where queued = queued, OF s(2) o2(1) files _ this signals(1) s(8,9), of wdof isd fuel ?g] watch s(3)
  obtain t where t: "watch_establish os fuel args ?o ?g s = Some (Inr ?g, t)" "inotify_table t" "set_up s t"
    "queued (world t) bs" "wd_path t = wd_name wdof isd files" "counters_zero t"
    "\<And>v. watch_from_wd t v = None \<longleftrightarrow> v \<notin> wdof ` set files" by auto
  note f = set_up_fields [OF t(3)]
  have "\<not> collect_stats t" using t(3) s(10) settings_sel(5) [of t s] by (simp add: set_up_def)
  from watch_start_plain [where queued = queued, OF t(2) o2(1) this t(4) signals(2) o2(2)] obtain g' r where
    r: "watch_start os ?o ?g t = Some (Inr g', r)" "collecting g' sig" "inotify_table r" "queued (world r) bs"
      "watches r = watches t" "by_wd r = by_wd t" "wd_path r = wd_path t" "totals r = stats_default"
      "collect_stats r" "c_stdout r = c_stdout t" "fd r = fd t" "first_byte r = first_byte t" "filtering (wo_filters o') r = filtering (wo_filters o') t"
    by blast
  have le: "length (event_text r ev) \<le> length (wd_name wdof isd files (ev_wd ev) @ ev_name ev)" for ev
    by (simp add: event_text_def r(7) t(5))
  have wait: "waiting queued r [] bs"
    using r(3,4,12) batches events f(4) s(6) le_less_trans [OF le] by (auto simp: waiting_def pending_def)
  have "filtering (wo_filters o') r" using r(13) filtering_set_up [OF t(3)] s(7) by simp
  then have "passes os r = (\<lambda>ev. kept os (wo_filters o') (event_file wdof isd files ev))"
    using o' r(7) t(5) by (intro ext passes_filtering) (simp_all add: plain_count_def)
  then have all: "filter (passes os r) ?all = seen" by (simp add: seen)
  have "\<exists>u. watch_loop os fuel ?o None g' r = Some (Inr (handle_signal g'), u) \<and> inotify_table u \<and>
      c_stdout u = c_stdout r \<and> event_text u = event_text r \<and>
      same_counts (record_all (counts_of (filter (passes os r) ([] @ ?all))) r) u"
    using feeds fuel signals(1) r(2,9,11) o2(1) f(3) s(3)
    by (intro watch_loop_feed [OF wait, where sig = sig]) (simp_all add: plain_count_def)
  then obtain u where u: "watch_loop os fuel ?o None g' r = Some (Inr (handle_signal g'), u)" "inotify_table u"
    "c_stdout u = []" "event_text u = event_text r" "same_counts (record_all (counts_of seen) r) u"
    using r(10) f(6) s(5) by (auto simp: all)
  have known_wd: "watch_from_wd r v \<noteq> None \<longleftrightarrow> v \<in> wdof ` set files" for v
    using t(7) [of v] r(6) by (simp add: watch_from_wd_def)
  have tot: "totals u = stats_replay stats_default (map ev_mask known)"
    using u(5) record_all_totals [of "counts_of seen" r] r(8)
    by (simp add: same_counts_def known_wd totals_counts known(1) del: map_map not_None_eq)
  have on: "collect_stats u" using u(5) r(9) by (simp add: same_counts_def record_all_fields)
  have total: "get_stat_total ev u = stat_int (stats_get (stats_replay stats_default (map ev_mask known)) ev)" for ev
    using on tot by (simp add: get_stat_total_def)
  have "stats_get stats_default 0 = Some 0" by (rule stats_get_default) simp
  from stats_replay_total [OF this, of "map ev_mask known"] have "get_stat_total 0 u \<noteq> 0"
    using stat_int_count [of "length known"] known(2,3) by (simp add: total)
  moreover have "sort_order (wo_sort ?o) = (event, asc)" using order by simp
  ultimately obtain ws where
    p: "print_info os ?o u = Some (0, cprint (table_text (shown_columns ?o u) (wo_zero ?o \<noteq> 0) (map snd ws)) u)"
    and ws: "distinct (map fst ws)"
      "\<forall>n x. (n, x) \<in> set ws \<longleftrightarrow> watches u n = Some x \<and> watch_from_wd u (w_wd x) = Some n"
      "sorted_wrt (\<lambda>(_, a) (_, b). if asc then stat_or_0 event a \<le> stat_or_0 event b
        else stat_or_0 event b \<le> stat_or_0 event a) ws" using print_info_text [OF u(2)] by blast
  have rz: "counters_zero r" using t(6) r(5) by (simp add: counters_zero_def)
  note cw = counted_watch [OF r(3) rz u(5) wd_path_same [OF u(4)] u(2)]
  let ?xs = "map snd ws"
  have row: "w_filename x = wd_name wdof isd files (w_wd x)" "w_stats x = counted_for (w_wd x) seen"
    "w_wd x \<in> wdof ` set files" if "x \<in> set ?xs" for x
    using that cw[of _ x] ws(2) t(5) r(7) known_wd by auto
  have "inj_on (w_wd \<circ> snd) (set ws)"
    using ws(2) by (auto simp: inj_on_def)
  then have d: "distinct (map w_wd ?xs)"
    using ws(1) unfolding map_map by (simp add: distinct_map)
  have "v \<in> w_wd ` set ?xs" if "v \<in> wdof ` set files" for v
  proof -
    from that known_wd [of v] obtain n where "watch_from_wd r v = Some n" by auto
    then have n: "watch_from_wd u v = Some n"
      using u(5) by (simp add: same_counts_def watch_from_wd_def record_all_fields)
    from watch_from_wd_found [OF _ n] u(2) obtain x where "watches u n = Some x" "w_wd x = v"
      by (auto simp: inotify_table_def)
    with n ws(2) have "(n, x) \<in> set ws" by simp
    with \<open>w_wd x = v\<close> show ?thesis by force
  qed
  then have wds: "w_wd ` set ?xs = wdof ` set files" using row(3) by (intro equalityI subsetI) (auto simp del: set_map)
  have sorted: "sorted_wrt (\<lambda>a b. if asc then stat_or_0 event a \<le> stat_or_0 event b
      else stat_or_0 event b \<le> stat_or_0 event a) ?xs"
    using ws(3) by (simp add: sorted_wrt_map case_prod_unfold)
  have "inotifywatch os parser v fuel argv w =
      Some (0, cprint (table_text (shown_columns ?o u) (wo_zero ?o \<noteq> 0) ?xs) u)"
    using s(1) t(1) r(1) u(1) p
    by (simp add: inotifywatch_def g_def [symmetric] watch_main_def watch_run_def and_then_def)
  then show ?thesis
    using d wds row(1,2) sorted u(3) by (intro exI conjI) (auto simp: cprint_def shown_columns_def total)
qed

text \<open>
  A kernel to evaluate this on: its world is the queue of batches and whether the poll was
  interrupted and the signal delivered; and the command line \<open>inotifywatch a b\<close> as it is parsed.
\<close>

definition count_os :: "(event list list \<times> nat) os" where
  "count_os = quiet_os\<lparr>
     os_inotify_add_watch := (\<lambda>_ f _ w. ((if f = ''a'' then 1 else 2, 0), w)),
     os_lstat := (\<lambda>f w. ((0, 0, if f = ''a'' then S_IFDIR else 0), w)),
     os_ppoll := (\<lambda>_ _ (bs, n). if bs = [] then ((-1, EINTR), (bs, 1)) else ((1, 0), (bs, n))),
     os_fionread := (\<lambda>_ w. ((0, 0, 4096), w)),
     os_read := (\<lambda>_ _ (bs, n). case bs of [] \<Rightarrow> ((0, 0, []), ([], n))
       | b # bs \<Rightarrow> ((int (length (encode_events b)), 0, encode_events b), (bs, n))),
     os_signals := (\<lambda>(bs, n). if n = 1 then ([SIGTERM], (bs, 2)) else ([], (bs, n)))\<rparr>"

definition count_parser :: option_parser where
  "count_parser argv opts longs = \<lparr>pa_results = [], pa_argv = argv, pa_optind = 1\<rparr>"

definition count_batches :: "event list list" where
  "count_batches = [[\<lparr>ev_wd = 1, ev_mask = IN_CREATE, ev_cookie = 0, ev_len = 16, ev_name = ''x''\<rparr>],
     [\<lparr>ev_wd = 2, ev_mask = IN_OPEN, ev_cookie = 0, ev_len = 0, ev_name = []\<rparr>]]"

abbreviation count_args :: "string list" where
  "count_args \<equiv> [''inotifywatch'', ''a'', ''b'']"

theorem inotifywatch_counts_witness:
  "\<exists>s ws. inotifywatch count_os count_parser ''1'' 3 count_args (count_batches, 0) = Some (0, s) \<and>
    c_stdout s = table_text [(IN_OPEN, ''open'', 4), (IN_CREATE, ''create'', 6)] False ws \<and> w_wd ` set ws = {1, 2}"
proof -
  let ?wdof = "\<lambda>f. if f = ''a'' then 1 else 2 :: int" and ?isd = "\<lambda>f. f = ''a''" and ?files = "[''a'', ''b'']"
  let ?g = "getopt_new count_parser count_args watch_OPT_STRING watch_LONG_OPTS"
  let ?o = "watch_opts_default\<lparr>wo_fanotify := False\<rparr>" and ?q = "\<lambda>w bs. w = (bs, 0 :: nat)"
  have name: "\<not> invoked_as_fsnotify (argv0 ?g)"
    by (simp add: invoked_as_fsnotify_def argv0_def getopt_new_def Let_def) code_simp
  have r: "remaining ?g = ?files" "go_results ?g = []"
    by (simp_all add: remaining_def getopt_new_def count_parser_def Let_def cstring_def)
  have parse: "watch_parse_opts count_os ''1'' ?g ?o (machine_new (count_batches, 0)) =
      (Some (?files, ?o), machine_new (count_batches, 0))"
    by (simp add: watch_parse_opts_def r validate_def watch_opts_default_def no_filters_def has_include_def OPT_END_def OPT_ERR_def)
  have o': "plain_count count_os ?o"
    by (simp add: plain_count_def watch_opts_default_def BLOCKING_TIMEOUT_def filters_ok_def given_filters_def
        no_filters_def)
  have order: "sort_order (wo_sort ?o) = (0, False)"
    by (simp add: watch_opts_default_def sort_order_def)
  have files: "?files = fl_watch (sorted_out (arg_names ?files))" "?files \<noteq> []"
    by (simp_all add: sorted_out_def arg_names_def marked_excluded_def)
  have kernel: "os_inotify_init count_os (count_batches, 0) = ((3, 0), (count_batches, 0))" "(0 :: int) \<le> 3"
    "?q (count_batches, 0) count_batches"
    by (simp_all add: count_os_def quiet_os_def)
  have watch: "\<forall>f\<in>set ?files. watchable count_os ?q 3 (counted_mask ?o) ?wdof ?isd f"
    by (simp add: watchable_def count_os_def cstring_def S_IFDIR_def S_IFMT_def)
  have signals: "undisturbed count_os ?q" "alarm_quiet count_os ?q" "ends_run ?o SIGTERM"
    by (simp_all add: undisturbed_def alarm_quiet_def ends_run_def count_os_def quiet_os_def)
  have feeds: "feeds count_os ?q 3 (-1) (interrupted count_os SIGTERM)"
    by (simp add: feeds_def count_os_def EVENT_SIZE_def interrupted_def)
  have valid: "\<forall>ev\<in>set (concat count_batches). valid_event ev"
    by (simp add: count_batches_def valid_event_def)
  have batches: "\<forall>b\<in>set count_batches. batch_ok b"
    using valid by (simp add: count_batches_def batch_ok_def length_encode_event size_defs)
  have events: "\<forall>ev\<in>set (concat count_batches). valid_event ev \<and>
      length (wd_name ?wdof ?isd ?files (ev_wd ev) @ ev_name ev) < MAX_STRLEN"
    using valid by (simp add: count_batches_def wd_name_def watched_name_def cstring_def size_defs)
  have seen: "concat count_batches = filter (\<lambda>ev. kept count_os (wo_filters ?o) (event_file ?wdof ?isd ?files ev))
      (concat count_batches)"
    by (simp add: kept_def given_filters_def watch_opts_default_def no_filters_def)
  have known: "concat count_batches = filter (\<lambda>ev. ev_wd ev \<in> ?wdof ` set ?files) (concat count_batches)"
    "concat count_batches \<noteq> []" "length (concat count_batches) < 2 ^ 32"
    by (simp_all add: count_batches_def)
  have fuel: "length (concat count_batches) < 3" by (simp add: count_batches_def)
  have zero: "(wo_zero ?o \<noteq> 0) = False" by (simp add: watch_opts_default_def)
  have cols: "filter (\<lambda>(ev, _, _). ev AND counted_mask ?o \<noteq> 0 \<and> (False \<or>
      stat_int (stats_get (stats_replay stats_default (map ev_mask (concat count_batches))) ev) \<noteq> 0)) COLUMNS =
      [(IN_OPEN, ''open'', 4), (IN_CREATE, ''create'', 6)]"
    by (simp add: count_batches_def COLUMNS_def counted_mask_def watch_opts_default_def stats_get_def
        stats_record_def stats_inc_def stats_default_def stat_int_def in_defs)
  from inotifywatch_counts [OF name parse o' order files kernel watch signals feeds batches events seen known fuel]
  obtain s ws where run: "inotifywatch count_os count_parser ''1'' 3 count_args (count_batches, 0) = Some (0, s)"
    "c_stdout s = table_text [(IN_OPEN, ''open'', 4), (IN_CREATE, ''create'', 6)] False ws"
    "w_wd ` set ws = ?wdof ` set ?files"
    unfolding zero cols by (elim exE conjE) (rule that)
  moreover have "?wdof ` set ?files = {1, 2}" by auto
  ultimately show ?thesis by (intro exI [of _ s] exI [of _ ws]) simp
qed

end
