(* ===== verification/TableSpec.thy ===== *)
theory TableSpec
  imports Paths
begin

text \<open>
  What the watch table promises to a program that watches files with inotify, as an abstract
  specification: a partial map from names to descriptors next to the system's state, with one
  equation for each operation. A removal asks the kernel, whose answer decides about it. The table
  of \<open>WatchTable\<close>, three indexes over stored watches, implements it: each operation on the concrete
  state is simulated by the abstract one, and so is every sequence of operations.
\<close>

subsection \<open>Simulation\<close>

text \<open>
  The contract between a detailed system and its specification: an operation that the specification
  allows succeeds on every state that represents an abstract one, and the result represents the
  abstract result.
\<close>

fun all_allowed :: "('op \<Rightarrow> 'a \<Rightarrow> bool) \<Rightarrow> ('op \<Rightarrow> 'a \<Rightarrow> 'a) \<Rightarrow> 'op list \<Rightarrow> 'a \<Rightarrow> bool" where
  "all_allowed allowed astep [] a = True"
| "all_allowed allowed astep (p # ps) a = (allowed p a \<and> all_allowed allowed astep ps (astep p a))"

fun run_all :: "('op \<Rightarrow> 'c \<Rightarrow> 'c option) \<Rightarrow> 'op list \<Rightarrow> 'c \<Rightarrow> 'c option" where
  "run_all cstep [] c = Some c"
| "run_all cstep (p # ps) c = Option.bind (cstep p c) (run_all cstep ps)"

locale simulation =
  fixes rep :: "'c \<Rightarrow> 'a \<Rightarrow> bool"
    and allowed :: "'op \<Rightarrow> 'a \<Rightarrow> bool"
    and astep :: "'op \<Rightarrow> 'a \<Rightarrow> 'a"
    and cstep :: "'op \<Rightarrow> 'c \<Rightarrow> 'c option"
  assumes simulates: "rep c a \<Longrightarrow> allowed p a \<Longrightarrow> \<exists>c'. cstep p c = Some c' \<and> rep c' (astep p a)"
begin

lemma simulates_all:
  "rep c a \<Longrightarrow> all_allowed allowed astep ps a \<Longrightarrow>
     \<exists>c'. run_all cstep ps c = Some c' \<and> rep c' (fold astep ps a)"
proof (induction ps arbitrary: c a)
  case (Cons p ps)
  from simulates [OF Cons.prems(1), of p] Cons.prems(2) obtain d where
    "cstep p c = Some d" "rep d (astep p a)" by auto
  with Cons.IH [of d "astep p a"] Cons.prems(2) show ?case by simp
qed simp

end

subsection \<open>The specification\<close>

type_synonym watched = "string \<rightharpoonup> int"

text \<open>
  The operations: a file is watched under a descriptor, a watch is removed or renamed, by its name
  or by its descriptor, a directory is moved with everything below it.
\<close>

datatype table_op = Watch string int | Unwatch string | Unwatch_wd int
  | Rename string string | Rename_wd int string | Move string string

text \<open>The move: a name below \<open>new\<close> is what the name below \<open>old\<close> was; nothing is left below \<open>old\<close>.\<close>

definition abs_move :: "string \<Rightarrow> string \<Rightarrow> watched \<Rightarrow> watched" where
  "abs_move old new a = (\<lambda>k.
     let source = old @ drop (length new) k
     in if starts_with k new \<and> a source \<noteq> None \<and> source \<noteq> new then a source
        else if starts_with k old \<and> k \<noteq> new then None else a k)"

text \<open>A descriptor that is watched is no longer, when the kernel says so.\<close>

definition abs_remove :: "'w os \<Rightarrow> int \<Rightarrow> int option \<Rightarrow> 'w \<times> watched \<Rightarrow> 'w \<times> watched" where
  "abs_remove os d wd = (\<lambda>(w, a). case wd of
     None \<Rightarrow> (w, a)
   | Some wd \<Rightarrow> (case os_inotify_rm_watch os d wd w of
       ((status, e), w) \<Rightarrow> (w, if status < 0 then a else (\<lambda>f. if a f = Some wd then None else a f))))"

definition abs_rename :: "int option \<Rightarrow> string \<Rightarrow> watched \<Rightarrow> watched" where
  "abs_rename wd g a = (case wd of
     None \<Rightarrow> a
   | Some wd \<Rightarrow> (\<lambda>f. if f = g then Some wd else if a f = Some wd then None else a f))"

definition in_use :: "watched \<Rightarrow> int \<Rightarrow> int option" where
  "in_use a wd = (if wd \<in> ran a then Some wd else None)"

fun abs_op :: "'w os \<Rightarrow> int \<Rightarrow> table_op \<Rightarrow> 'w \<times> watched \<Rightarrow> 'w \<times> watched" where
  "abs_op os d (Watch f wd) (w, a) = (w, a(f \<mapsto> wd))"
| "abs_op os d (Unwatch f) (w, a) = abs_remove os d (a f) (w, a)"
| "abs_op os d (Unwatch_wd wd) (w, a) = abs_remove os d (in_use a wd) (w, a)"
| "abs_op os d (Rename f g) (w, a) = (w, abs_rename (a f) g a)"
| "abs_op os d (Rename_wd wd g) (w, a) = (w, abs_rename (in_use a wd) g a)"
| "abs_op os d (Move old new) (w, a) = (w, abs_move old new a)"

text \<open>When an operation is allowed: names and descriptors that are new must not be in use.\<close>

fun abs_allowed :: "table_op \<Rightarrow> 'w \<times> watched \<Rightarrow> bool" where
  "abs_allowed (Watch f wd) (w, a) \<longleftrightarrow> 0 < wd \<and> NUL \<notin> set f \<and> a f = None \<and> wd \<notin> ran a"
| "abs_allowed (Unwatch f) (w, a) \<longleftrightarrow> True"
| "abs_allowed (Unwatch_wd wd) (w, a) \<longleftrightarrow> True"
| "abs_allowed (Rename f g) (w, a) \<longleftrightarrow> NUL \<notin> set g \<and> a g = None"
| "abs_allowed (Rename_wd wd g) (w, a) \<longleftrightarrow> NUL \<notin> set g \<and> a g = None"
| "abs_allowed (Move old new) (w, a) \<longleftrightarrow> old \<noteq> [] \<and> new \<noteq> [] \<and> NUL \<notin> set new \<and>
     (\<forall>r. a (old @ r) \<noteq> None \<longrightarrow> a (new @ r) = None)"

text \<open>The operations of the library.\<close>

fun table_op_exec :: "'w os \<Rightarrow> table_op \<Rightarrow> 'w machine \<Rightarrow> 'w machine option" where
  "table_op_exec os (Watch f wd) s = map_option snd (create_watch os wd None f 0 s)"
| "table_op_exec os (Unwatch f) s = map_option snd (remove_watch_by_filename os f s)"
| "table_op_exec os (Unwatch_wd wd) s = map_option snd (remove_watch_by_wd os wd s)"
| "table_op_exec os (Rename f g) s = set_filename_by_filename f g s"
| "table_op_exec os (Rename_wd wd g) s = set_filename_by_wd wd g s"
| "table_op_exec os (Move old new) s = replace_filename old new s"

subsection \<open>What a table represents\<close>

text \<open>
  In a coherent table every stored watch is an inotify watch that is found under its descriptor and
  under its name.
\<close>

definition coherent :: "'w machine \<Rightarrow> bool" where
  "coherent s \<longleftrightarrow> table_inv s \<and> initialized s \<and>
     (\<forall>n w. watches s n = Some w \<longrightarrow> w_fid w = None \<and> w_dirf w = 0 \<and>
        bt_get (by_wd s) (w_wd w) = Some n \<and> bt_get (by_filename s) (w_filename w) = Some n)"

definition abs_table :: "'w machine \<Rightarrow> watched" where
  "abs_table s = (\<lambda>f. Option.bind (bt_get (by_filename s) f) (\<lambda>n. map_option w_wd (watches s n)))"

definition represents :: "'w machine \<Rightarrow> 'w \<times> watched \<Rightarrow> bool" where
  "represents s wa \<longleftrightarrow> coherent s \<and> world s = fst wa \<and> abs_table s = snd wa"

lemma coherentD:
  assumes "coherent s"
  shows "table_inv s" "initialized s"
    "watches s n = Some w \<Longrightarrow> w_fid w = None"
    "watches s n = Some w \<Longrightarrow> bt_get (by_wd s) (w_wd w) = Some n"
    "watches s n = Some w \<Longrightarrow> bt_get (by_filename s) (w_filename w) = Some n"
    "watches s n = Some w \<Longrightarrow> w_dirf w = 0"
  using assms by (auto simp: coherent_def)

text \<open>An entry of the map is a stored watch.\<close>

lemma abs_table_iff:
  assumes "table_inv s"
  shows "abs_table s f = Some wd \<longleftrightarrow>
    (\<exists>n w. bt_get (by_filename s) f = Some n \<and> watches s n = Some w \<and> w_filename w = f \<and> w_wd w = wd)"
  using name_ix.pointsD [OF table_invD(3) [OF assms]]
  by (fastforce simp: abs_table_def bind_eq_Some_conv)

lemma abs_table_None:
  assumes "table_inv s"
  shows "abs_table s f = None \<longleftrightarrow> bt_get (by_filename s) f = None"
  using name_ix.pointsD [OF table_invD(3) [OF assms]]
  by (cases "bt_get (by_filename s) f") (fastforce simp: abs_table_def)+

lemma abs_table_ran:
  assumes co: "coherent s" and wd: "wd \<notin> ran (abs_table s)"
  shows "bt_get (by_wd s) wd = None"
proof (rule ccontr)
  assume "bt_get (by_wd s) wd \<noteq> None"
  then obtain n w where "watches s n = Some w" "w_wd w = wd"
    using wd_ix.pointsD [OF table_invD(1) [OF coherentD(1) [OF co]]] by fastforce
  with coherentD(5) [OF co] abs_table_iff [OF coherentD(1) [OF co]] have
    "abs_table s (w_filename w) = Some wd" by blast
  with wd show False by (auto simp: ran_def)
qed

lemma representsI: "coherent s \<Longrightarrow> (\<And>f. abs_table s f = a f) \<Longrightarrow> represents s (world s, a)"
  by (auto simp: represents_def)

text \<open>A descriptor of the map is that of one watch.\<close>

lemma abs_table_wd:
  assumes co: "coherent s" and n: "watches s n = Some w"
  shows "abs_table s f = Some (w_wd w) \<longleftrightarrow> f = w_filename w" "in_use (abs_table s) (w_wd w) = Some (w_wd w)"
proof -
  note inv = coherentD(1) [OF co]
  show 1: "abs_table s f = Some (w_wd w) \<longleftrightarrow> f = w_filename w" for f
    using abs_table_iff [OF inv, of f "w_wd w"] coherentD(4,5) [OF co] n by (metis option.inject)
  have "abs_table s (w_filename w) = Some (w_wd w)" by (simp add: 1)
  then show "in_use (abs_table s) (w_wd w) = Some (w_wd w)" by (auto simp: in_use_def ran_def)
qed

subsection \<open>Each operation\<close>

lemma watch_represents:
  assumes co: "coherent s" and ok: "abs_allowed (Watch f wd) (world s, abs_table s)"
  shows "\<exists>s'. table_op_exec os (Watch f wd) s = Some s' \<and>
    represents s' (abs_op os (fd s) (Watch f wd) (world s, abs_table s)) \<and> fd s' = fd s"
proof -
  let ?s = "register os wd None f 0 s"
  note inv = coherentD(1) [OF co]
  have c: "cstring f = f" and wd: "0 < wd" using ok by (simp_all add: cstring_id)
  have free: "bt_get (by_wd s) wd = None" "bt_get (by_filename s) f = None"
    using ok abs_table_ran [OF co, of wd] by (simp_all add: abs_table_None [OF inv])
  have w: "watches ?s = (watches s)(next_id s \<mapsto> new_watch wd None f 0)"
    using register_stored [of s wd f os None 0] register_table(5) [OF inv, of _ os wd None f 0] free(1)
    by (auto simp: fun_eq_iff)
  have ix: "bt_get (by_wd ?s) = (bt_get (by_wd s))(wd \<mapsto> next_id s)"
    "bt_get (by_filename ?s) = (bt_get (by_filename s))(f \<mapsto> next_id s)"
    using register_table(1,2) [OF inv, of os wd None f 0] free by (simp_all add: filed_def c)
  have ini: "initialized ?s" "fd ?s = fd s" "world ?s = world s"
    using coherentD(2) [OF co] by (simp_all add: register_def Let_def drop_watch_def)
  have old: "w_wd w \<noteq> wd \<and> w_filename w \<noteq> f" if "watches s n = Some w" for n w
    using coherentD(4,5) [OF co that] free by auto
  have "coherent ?s"
    using register_inv [OF inv wd, of os None f 0] ini old coherentD(3-6) [OF co]
    by (auto simp: coherent_def w ix c)
  moreover have "abs_table ?s g = ((abs_table s)(f \<mapsto> wd)) g" for g
    using table_invD(7) [OF inv] name_ix.pointsD [OF table_invD(3) [OF inv], of g]
    by (cases "bt_get (by_filename s) g") (auto simp: abs_table_def w ix)
  ultimately show ?thesis
    using create_watch_register [OF wd, of os None f 0 s] ini(2,3) by (auto simp: represents_def)
qed

text \<open>Removing the watch \<open>n\<close>.\<close>

lemma remove_represents:
  assumes co: "coherent s" and n: "watches s n = Some w"
  shows "\<exists>ok s'. remove_watch os (Some n) s = Some (ok, s') \<and>
    represents s' (abs_remove os (fd s) (Some (w_wd w)) (world s, abs_table s)) \<and> fd s' = fd s"
proof -
  note inv = coherentD(1) [OF co] and ini = coherentD(2) [OF co]
  have w: "w_fid w = None" "w_dirf w = 0" using coherentD(3,6) [OF co n] by auto
  obtain status e y where rm: "os_inotify_rm_watch os (fd s) (w_wd w) (world s) = ((status, e), y)"
    by (metis surj_pair)
  from remove_watch_status [OF inv ini n rm] w obtain s' where
    s': "remove_watch os (Some n) s = Some (0 \<le> status, s')" "table_inv s'" "world s' = y"
      "if 0 \<le> status then watches s' = (watches s)(n := None) \<and>
         bt_get (by_wd s') = (bt_get (by_wd s))(w_wd w := None) \<and>
         bt_get (by_filename s') = (bt_get (by_filename s))(w_filename w := None)
       else watches s' = watches s \<and> by_wd s' = by_wd s \<and> by_filename s' = by_filename s"
    by auto
  have frame: "initialized s'" "fd s' = fd s"
    using s'(1) ini n w rm
    by (auto simp: remove_watch_def remove_inotify_watch_def destroy_watch_def watch_at_def sys_def drop_watch_def
        ceprint_def Let_def split: if_splits)
  show ?thesis
  proof (cases "0 \<le> status")
    case False
    with s'(2,4) frame co have "coherent s'" by (simp add: coherent_def)
    with False s' frame show ?thesis by (auto simp: represents_def abs_remove_def rm abs_table_def)
  next
    case True
    then have ix: "watches s' = (watches s)(n := None)" "bt_get (by_wd s') = (bt_get (by_wd s))(w_wd w := None)"
      "bt_get (by_filename s') = (bt_get (by_filename s))(w_filename w := None)" using s'(4) by auto
    have "w_wd v \<noteq> w_wd w \<and> w_filename v \<noteq> w_filename w" if "watches s m = Some v" "m \<noteq> n" for m v
      using that coherentD(4,5) [OF co that(1)] coherentD(4,5) [OF co n] by auto
    with frame s'(2) have "coherent s'"
      using coherentD(3-6) [OF co] by (auto simp: coherent_def ix)
    moreover have "abs_table s' k = (if abs_table s k = Some (w_wd w) then None else abs_table s k)" for k
    proof (cases "k = w_filename w")
      case False
      have "bt_get (by_filename s) k \<noteq> Some n"
        using name_ix.pointsD [OF table_invD(3) [OF inv], of k n] n False by auto
      with False abs_table_wd(1) [OF co n, of k] show ?thesis by (auto simp: abs_table_def ix split: Option.bind_splits)
    qed (simp add: abs_table_wd(1) [OF co n], simp add: abs_table_def ix)
    ultimately show ?thesis
      using True s'(1,3) frame(2) by (auto simp: represents_def abs_remove_def rm fun_eq_iff)
  qed
qed

text \<open>The watch that a name or a descriptor leads to.\<close>

lemma found_by_name:
  assumes "coherent s"
  shows "case bt_get (by_filename s) f of None \<Rightarrow> abs_table s f = None
    | Some n \<Rightarrow> \<exists>w. watches s n = Some w \<and> abs_table s f = Some (w_wd w)"
  using abs_table_None [OF coherentD(1) [OF assms], of f] name_ix.pointsD [OF table_invD(3) [OF coherentD(1) [OF assms]], of f]
  by (auto simp: abs_table_def split: option.splits)

lemma found_by_wd:
  assumes co: "coherent s"
  shows "case bt_get (by_wd s) wd of None \<Rightarrow> in_use (abs_table s) wd = None
    | Some n \<Rightarrow> \<exists>w. watches s n = Some w \<and> in_use (abs_table s) wd = Some (w_wd w)"
proof (cases "bt_get (by_wd s) wd")
  case None
  have "wd \<notin> ran (abs_table s)"
  proof
    assume "wd \<in> ran (abs_table s)"
    then obtain f n w where "watches s n = Some w" "w_wd w = wd"
      using abs_table_iff [OF coherentD(1) [OF co]] by (auto simp: ran_def)
    with coherentD(4) [OF co] None show False by auto
  qed
  with None show ?thesis by (simp add: in_use_def)
next
  case (Some n)
  with wd_ix.pointsD [OF table_invD(1) [OF coherentD(1) [OF co]]] obtain w where
    "watches s n = Some w" "w_wd w = wd" by fastforce
  with abs_table_wd(2) [OF co, of n w] Some show ?thesis by auto
qed

lemma unwatch_represents:
  assumes co: "coherent s"
    and i: "case i of None \<Rightarrow> x = None | Some n \<Rightarrow> \<exists>w. watches s n = Some w \<and> x = Some (w_wd w)"
  shows "\<exists>s'. map_option snd (remove_watch os i s) = Some s' \<and>
    represents s' (abs_remove os (fd s) x (world s, abs_table s)) \<and> fd s' = fd s"
proof (cases i)
  case None
  then show ?thesis using i co coherentD(2) [OF co] by (simp add: remove_watch_def abs_remove_def represents_def)
next
  case (Some n)
  with i obtain w where "watches s n = Some w" "x = Some (w_wd w)" by auto
  with remove_represents [OF co, of n w os] Some show ?thesis by fastforce
qed

text \<open>Renaming the watch \<open>n\<close>.\<close>

lemma rename_watch_frame:
  "rename_watch n name s = Some s' \<Longrightarrow>
     initialized s' = initialized s \<and> fd s' = fd s \<and> world s' = world s"
  by (cases "bt_get (by_filename s) (w_filename (the (watches s n))) = Some n")
    (auto simp: rename_watch_def watch_at_def Let_def bind_eq_Some_conv)

lemma rename_watch_represents:
  assumes co: "coherent s" and n: "watches s n = Some w" and g: "NUL \<notin> set g" "abs_table s g = None"
  shows "\<exists>s'. rename_watch n g s = Some s' \<and>
    represents s' (world s, abs_rename (Some (w_wd w)) g (abs_table s)) \<and> fd s' = fd s"
proof -
  note inv = coherentD(1) [OF co] and ini = coherentD(2) [OF co]
  have c: "cstring g = g" and free: "bt_get (by_filename s) g = None" and f: "bt_get (by_filename s) (w_filename w) = Some n"
    using g coherentD(5) [OF co n] by (simp_all add: cstring_id abs_table_None [OF inv])
  from rename_watch_total [OF n, of g] obtain s' where r: "rename_watch n g s = Some s'" by blast
  note h = rename_watch_fields [OF n r] and fr = rename_watch_frame [OF r]
  have ix: "bt_get (by_filename s') = (bt_get (by_filename s))(w_filename w := None, g \<mapsto> n)"
    using rename_watch_moves [OF inv n f _ r] free by (simp add: c)
  have other: "w_filename v \<noteq> w_filename w \<and> w_filename v \<noteq> g" if "watches s m = Some v" "m \<noteq> n" for m v
    using that coherentD(5) [OF co that(1)] f free by auto
  have "coherent s'"
    using rename_watch_inv [OF inv n r] coherentD(3-6) [OF co] fr ini n other
    by (auto simp: coherent_def h(1,5) ix c)
  moreover have "abs_table s' k = abs_rename (Some (w_wd w)) g (abs_table s) k" for k
  proof (cases "k = g \<or> k = w_filename w")
    case True
    then show ?thesis using abs_table_wd(1) [OF co n] by (auto simp: abs_rename_def abs_table_def ix h(1))
  next
    case False
    have "bt_get (by_filename s) k \<noteq> Some n"
      using name_ix.pointsD [OF table_invD(3) [OF inv], of k n] n False by auto
    with False abs_table_wd(1) [OF co n, of k] show ?thesis
      by (auto simp: abs_rename_def abs_table_def ix h(1) split: Option.bind_splits)
  qed
  ultimately show ?thesis using r fr by (auto simp: represents_def fun_eq_iff)
qed

lemma rename_represents:
  assumes co: "coherent s" and g: "NUL \<notin> set g" "abs_table s g = None"
    and i: "case i of None \<Rightarrow> x = None | Some n \<Rightarrow> \<exists>w. watches s n = Some w \<and> x = Some (w_wd w)"
  shows "\<exists>s'. (case i of None \<Rightarrow> Some s | Some n \<Rightarrow> rename_watch n g s) = Some s' \<and>
    represents s' (world s, abs_rename x g (abs_table s)) \<and> fd s' = fd s"
proof (cases i)
  case None
  then show ?thesis using i co by (simp add: abs_rename_def represents_def)
next
  case (Some n)
  with i obtain w where "watches s n = Some w" "x = Some (w_wd w)" by auto
  with rename_watch_represents [OF co _ g, of n w] Some show ?thesis by fastforce
qed

lemma replace_entries_frame:
  "replace_entries ns old new s = Some s' \<Longrightarrow>
     initialized s' = initialized s \<and> fd s' = fd s \<and> world s' = world s"
  by (induction ns arbitrary: s)
    (auto simp: Let_def bind_eq_Some_conv split: option.splits if_splits dest: rename_watch_frame)

lemma move_name_sel [simp]:
  "w_wd (move_name old new w) = w_wd w" "w_fid (move_name old new w) = w_fid w"
  "w_dirf (move_name old new w) = w_dirf w"
  by (simp_all add: move_name_def)

text \<open>The name index after a move, at every name.\<close>

lemma replace_filename_at:
  assumes inv: "table_inv s" and ne: "old \<noteq> []" "new \<noteq> []" "NUL \<notin> set new"
    and free: "\<And>r. bt_get (by_filename s) (old @ r) \<noteq> None \<Longrightarrow> bt_get (by_filename s) (new @ r) = None"
    and s': "replace_filename old new s = Some s'"
  shows "bt_get (by_filename s') k =
    (let source = old @ drop (length new) k
     in if starts_with k new \<and> bt_get (by_filename s) source \<noteq> None \<and> source \<noteq> new
        then bt_get (by_filename s) source
        else if starts_with k old \<and> k \<noteq> new then None else bt_get (by_filename s) k)"
proof -
  note p = table_invD(3) [OF inv]
  let ?ns = "bt_values (by_filename s)"
  have mv: "moving s old new ?ns n r \<longleftrightarrow> bt_get (by_filename s) (old @ r) = Some n \<and> old @ r \<noteq> new" for n r
    using name_ix.pointsD [OF p] by (fastforce simp: moving_def in_bt_values [OF name_ix.points_wf [OF p]])
  have ready: "move_ready s old new ?ns"
    using free by (auto simp: move_ready_def mv)
  have "replace_entries ?ns old new s = Some s'"
    using s' ne by (simp add: replace_filename_def)
  note idx = replace_entries_index [OF inv name_ix.points_distinct [OF p] ready ne(3) this, unfolded mv]
  have hit: "bt_get (by_filename s') (new @ r) = Some n" "bt_get (by_filename s') (old @ r) = None"
    if "bt_get (by_filename s) (old @ r) = Some n" "old @ r \<noteq> new" for r n
    using conjunct1 [OF idx, rule_format, of r n] that by simp_all
  have miss: "bt_get (by_filename s') k = bt_get (by_filename s) k"
    if "\<And>n r. bt_get (by_filename s) (old @ r) = Some n \<Longrightarrow> old @ r \<noteq> new \<Longrightarrow> k \<noteq> old @ r \<and> k \<noteq> new @ r"
    using conjunct2 [OF idx, rule_format, of k] that by blast
  define source where "source = old @ drop (length new) k"
  let ?T = "starts_with k new \<and> bt_get (by_filename s) source \<noteq> None \<and> source \<noteq> new"
  let ?S = "starts_with k old \<and> bt_get (by_filename s) k \<noteq> None \<and> k \<noteq> new"
  have T: "?T" if "k = new @ r" "bt_get (by_filename s) (old @ r) = Some n" "old @ r \<noteq> new" for r n
    using that by (simp add: source_def starts_with_def)
  consider (target) ?T | (source) "\<not> ?T" ?S | (other) "\<not> ?T" "\<not> ?S" by argo
  then show ?thesis
  proof cases
    case target
    then obtain r n where r: "k = new @ r" "source = old @ r" "bt_get (by_filename s) (old @ r) = Some n"
      by (auto simp: source_def elim!: starts_withE)
    with target have "bt_get (by_filename s') k = Some n" by (simp add: hit(1))
    with r target show ?thesis by (simp add: source_def [symmetric] Let_def)
  next
    case source
    then obtain r n where r: "k = old @ r" "bt_get (by_filename s) (old @ r) = Some n" "old @ r \<noteq> new"
      by (auto elim!: starts_withE)
    then have "bt_get (by_filename s') k = None" by (simp add: hit(2))
    with source show ?thesis by (simp only: source_def [symmetric] Let_def) simp
  next
    case other
    have "k \<noteq> old @ r \<and> k \<noteq> new @ r"
      if "bt_get (by_filename s) (old @ r) = Some n" "old @ r \<noteq> new" for n r
    proof
      show "k \<noteq> old @ r" using other(2) that by (metis not_Some_eq starts_with_append)
      show "k \<noteq> new @ r" using other(1) T [OF _ that] by argo
    qed
    then have "bt_get (by_filename s') k = bt_get (by_filename s) k" by (rule miss)
    with other show ?thesis by (simp only: source_def [symmetric] Let_def) auto
  qed
qed

lemma move_represents:
  assumes co: "coherent s" and ok: "abs_allowed (Move old new) (world s, abs_table s)"
  shows "\<exists>s'. table_op_exec os (Move old new) s = Some s' \<and>
    represents s' (abs_op os (fd s) (Move old new) (world s, abs_table s)) \<and> fd s' = fd s"
proof -
  note inv = coherentD(1) [OF co] and ini = coherentD(2) [OF co]
  have ne: "old \<noteq> []" "new \<noteq> []" "NUL \<notin> set new"
    and free: "bt_get (by_filename s) (old @ r) \<noteq> None \<Longrightarrow> bt_get (by_filename s) (new @ r) = None" for r
    using ok by (simp_all add: abs_table_None [OF inv])
  from replace_filename_renames [OF inv ne(1,2)] obtain s' where s':
    "replace_filename old new s = Some s'" "table_inv s'" "by_wd s' = by_wd s"
    "\<And>n. watches s' n = (if \<exists>name. watch_from_filename s name = Some n
        then map_option (move_name old new) (watches s n) else watches s n)" by auto
  note ix = replace_filename_at [OF inv ne free s'(1)]
  have w: "watches s' n = map_option (move_name old new) (watches s n)" for n
    using s'(4) [of n] coherentD(5) [OF co, of n]
    by (cases "watches s n") (auto simp: watch_from_filename_def)
  have table: "abs_table s' k = abs_move old new (abs_table s) k" for k
    by (auto simp: abs_table_def [of s'] ix w abs_move_def abs_table_None [OF inv] Let_def
        option.map_comp comp_def) (auto simp: abs_table_def)
  have "bt_get (by_filename s') (w_filename (move_name old new w)) = Some n"
    if n: "watches s n = Some w" for n w
  proof (cases "moved old new w")
    case True
    then obtain r where r: "w_filename w = old @ r" "old @ r \<noteq> new"
      by (auto simp: moved_def elim!: starts_withE)
    with table_invD(4) [OF inv n] ne(3) have "cstring (new @ r) = new @ r"
      by (auto simp: watch_ok_def cstring_id)
    with True r coherentD(5) [OF co n] show ?thesis by (simp add: move_name_def ix)
  next
    case False
    with coherentD(5) [OF co n] free [of "drop (length new) (w_filename w)"] show ?thesis
      by (auto simp: move_name_def ix moved_def Let_def elim!: starts_withE)
  qed
  moreover have frame: "initialized s' = initialized s \<and> fd s' = fd s \<and> world s' = world s"
    using replace_entries_frame [of _ old new s s'] s'(1) ne(1,2) by (simp add: replace_filename_def)
  ultimately have "coherent s'"
    using s'(2,3) coherentD(2-4,6) [OF co] by (auto simp: coherent_def w)
  with table frame show ?thesis
    using s'(1) by (auto simp: represents_def fun_eq_iff)
qed

subsection \<open>The table implements the specification\<close>

interpretation table: simulation "\<lambda>s a. represents s a \<and> fd s = d" abs_allowed "abs_op os d" "table_op_exec os"
  for os d
proof
  fix s :: "'a machine" and wa p
  assume rep: "represents s wa \<and> fd s = d" and ok: "abs_allowed p wa"
  then have co: "coherent s" and wa: "wa = (world s, abs_table s)" and d: "d = fd s"
    by (auto simp: represents_def prod_eq_iff)
  show "\<exists>s'. table_op_exec os p s = Some s' \<and> represents s' (abs_op os d p wa) \<and> fd s' = d"
  proof (cases p)
    case (Watch f wd)
    with watch_represents [OF co] ok show ?thesis by (simp only: wa d)
  next
    case (Move old new)
    with move_represents [OF co] ok show ?thesis by (simp only: wa d)
  next
    case (Unwatch f)
    with unwatch_represents [OF co found_by_name [OF co, of f], of os] show ?thesis
      by (simp add: wa d remove_watch_by_filename_def watch_from_filename_def)
  next
    case (Unwatch_wd wd)
    with unwatch_represents [OF co found_by_wd [OF co, of wd], of os] show ?thesis
      by (simp add: wa d remove_watch_by_wd_def watch_from_wd_def)
  next
    case (Rename f g)
    with rename_represents [OF co _ _ found_by_name [OF co, of f], of g] ok show ?thesis
      by (simp add: wa d set_filename_by_filename_def watch_from_filename_def)
  next
    case (Rename_wd wd g)
    with rename_represents [OF co _ _ found_by_wd [OF co, of wd], of g] ok coherentD(2) [OF co] show ?thesis
      by (simp add: wa d set_filename_by_wd_def watch_from_wd_def)
  qed
qed





end
