(* ===== verification/Restart.thy ===== *)
theory Restart
  imports Setup Delivery
begin

text \<open>
  Initialising the library a second time (\<open>inotifytools_cleanup\<close> followed by
  \<open>inotifytools_initialize\<close>): the table and the settings are new, but the position in the event
  buffer is not among what is reset.
\<close>

text \<open>The state after the two calls.\<close>

lemma restart_eq:
  assumes ini: "initialized s" and grant: "os_inotify_init os (world (cleanup os s)) = ((d, e), w')" "0 \<le> d"
  shows "initialize os (cleanup os s) = (True, (cleanup os s)\<lparr>verbosity := 0, fanotify_mode := False,
      fd := d, initialized := True, world := w'\<rparr>)"
  using grant cleanup_eq [OF ini, of os] by (simp add: initialize_def init_def sys_def)

text \<open>Nothing is watched any more, so the paths of all events are empty.\<close>

lemma restart_pending:
  assumes t: "inotify_table s" and pending: "pending s evs"
    and grant: "os_inotify_init os (world (cleanup os s)) = ((d, e), w')" "0 \<le> d"
    and s2: "initialize os (cleanup os s) = (True, s2)"
  shows "inotify_table s2" and "pending s2 evs" and "event_text s2 ev = (if ev_len ev > 0 then ev_name ev else [])"
    and "passes os s2 ev" and "world s2 = w'" and "get_num_watches s2 = 0"
proof -
  have ini: "initialized s" and inv: "table_inv s" and evstr: "length (evstr s) = 1024"
    using t by (simp_all add: inotify_table_def)
  have s2: "s2 = (cleanup os s)\<lparr>verbosity := 0, fanotify_mode := False, fd := d, initialized := True, world := w'\<rparr>"
    using restart_eq [OF ini grant] s2 by simp
  note c = cleanup_eq [OF ini, of os]
  show "inotify_table s2"
    using table_invD(5,6) [OF inv] evstr unfolding s2 c
    by (simp add: inotify_table_def table_inv_def wd_ix.points_def fid_ix.points_def name_ix.points_def)
  have buffer: "first_byte s2 = first_byte s" "bytes s2 = bytes s" "evbuf s2 = evbuf s" by (simp_all add: s2 c)
  show "pending s2 evs" using pending by (simp only: pending_def bytes_at_def buffer)
  show "event_text s2 ev = (if ev_len ev > 0 then ev_name ev else [])"
    unfolding s2 c by (simp add: event_text_def wd_path_def watch_from_wd_def)
  show "passes os s2 ev" unfolding s2 c by (simp add: passes_def)
  show "world s2 = w'" unfolding s2 by simp
  show "get_num_watches s2 = 0" unfolding s2 c by (simp add: get_num_watches_def wrap32_def)
qed

text \<open>C29.
  A restart keeps the events of the old instance: when the library is cleaned up while events wait
  in its buffer, and initialised again, the next call returns the first of them, although it
  belongs to a descriptor of the instance that was closed and nothing is watched, and it asks the
  kernel nothing.\<close>

theorem restart_keeps_events:
  assumes t: "inotify_table s" and pending: "pending s (x # xs)" and valid: "\<forall>ev\<in>set (x # xs). valid_event ev"
    and fits: "\<forall>ev\<in>set (x # xs). length (ev_name ev) < MAX_STRLEN"
    and grant: "os_inotify_init os (world (cleanup os s)) = ((d, e), w')" "0 \<le> d"
    and fuel: "length (x # xs) < fuel"
  shows "\<exists>s2 s3. initialize os (cleanup os s) = (True, s2) \<and> get_num_watches s2 = 0 \<and>
    next_event os fuel timeout s2 = Some (Some x, s3) \<and> world s3 = w' \<and> deliverable s3 xs"
proof -
  have ini: "initialized s" using t by (simp add: inotify_table_def)
  obtain s2 where s2: "initialize os (cleanup os s) = (True, s2)" using restart_eq [OF ini grant] by blast
  note r = restart_pending [OF t pending grant s2]
  have "length (event_text s2 ev) < MAX_STRLEN" if "ev \<in> set (x # xs)" for ev
    using fits that r(3) [of ev] by (auto simp: MAX_STRLEN_def)
  then have "deliverable s2 (x # xs)" using r(1,2) valid by (simp add: deliverable_def)
  from next_event_first [OF this _ r(4) fuel, of x timeout] obtain pre y es s3 where
    s3: "x # xs = pre @ y # es" "filter (passes os s2) pre = []"
      "next_event os fuel timeout s2 = Some (Some y, s3)" "delivered os y s2 s3" "deliverable s3 es"
    by (metis list.set_intros(1))
  have "pre = []" using s3(2) r(4) by (cases pre) simp_all
  then show ?thesis
    using s2 r(5,6) s3(1,3,5) deliveredD(4) [OF s3(4)] by auto
qed

theorem restart_keeps_events_witness:
  "\<exists>s2 s3. initialize quiet_os (cleanup quiet_os (with_events two_events)) = (True, s2) \<and>
    get_num_watches s2 = 0 \<and> next_event quiet_os 3 1 s2 = Some (Some (hd two_events), s3)"
proof -
  let ?s = "with_events two_events"
  have v: "\<forall>x\<in>set two_events. valid_event x"
    by (simp add: two_events_def valid_event_def)
  have len: "length (encode_events two_events) \<le> 1000" and ne: "two_events \<noteq> []"
    using v by (simp_all add: two_events_def length_encode_event EVENT_SIZE_def)
  note ok = with_events_ok [OF len ne]
  have two: "hd two_events # tl two_events = two_events" using ne by simp
  have fits: "\<forall>ev\<in>set (hd two_events # tl two_events). length (ev_name ev) < MAX_STRLEN"
    by (simp add: two_events_def MAX_STRLEN_def)
  have k: "os_inotify_init quiet_os (world (cleanup quiet_os ?s)) = ((3, 0), ())" "(0 :: int) \<le> 3"
    by (simp_all add: quiet_os_def)
  have n: "length (hd two_events # tl two_events) < 3" by (simp add: two_events_def)
  have p: "pending ?s (hd two_events # tl two_events)" "\<forall>x\<in>set (hd two_events # tl two_events). valid_event x"
    unfolding two by (rule ok(2)) (rule v)
  from restart_keeps_events [OF ok(1) p fits k n, of 1] show ?thesis by blast
qed

end
