(* ===== verification/FanDelivery.thy ===== *)
theory FanDelivery
  imports Delivery Setup
begin

text \<open>
  Fanotify mode, as \<open>Delivery\<close> is for inotify mode: from a buffer of fanotify events about entries
  of directories, a caller of \<open>next_event\<close> gets the inotify form of each event in order, except
  those that the program itself has caused. The records are read from the first half of the buffer
  and converted into the second, so that a conversion leaves those behind it alone. A conversion
  may also add a watch: a watch in fanotify mode is found by the whole identifier, the handle of
  the directory and the name, so each entry gets a descriptor of its own at its first event.
\<close>

subsection \<open>Fanotify events\<close>

record fan_event =
  fe_vers :: "u8 list"
  fe_mask :: u32
  fe_high :: u32
  fe_fd :: "u8 list"
  fe_pid :: u32
  fe_fid :: fid
  fe_name :: string

definition encode_fan_event :: "fan_event \<Rightarrow> u8 list" where
  "encode_fan_event r = encode_fan (fe_vers r) (fe_mask r) (fe_high r) (fe_fd r) (fe_pid r) (fe_fid r)"

definition encode_fan_events :: "fan_event list \<Rightarrow> u8 list" where
  "encode_fan_events rs = concat (map encode_fan_event rs)"

text \<open>The descriptor that a fid has in the table, and the directory that was opened for it.\<close>

definition fid_link :: "'w machine \<Rightarrow> fid \<Rightarrow> (int \<times> int) option" where
  "fid_link s f = Option.bind (watch_from_fid s f) (\<lambda>n. map_option (\<lambda>w. (w_wd w, w_dirf w)) (watches s n))"

abbreviation fid_wd :: "'w machine \<Rightarrow> fid \<Rightarrow> int option" where
  "fid_wd s f \<equiv> map_option fst (fid_link s f)"

text \<open>An event about a named entry of a directory.\<close>

definition valid_fan :: "fan_event \<Rightarrow> bool" where
  "valid_fan r \<longleftrightarrow>
     names_entry (fe_fid r) (fe_name r) \<and> fe_name r \<noteq> ''.'' \<and> length (fe_vers r) = 4 \<and> length (fe_fd r) = 4"

text \<open>
  The kernel opens the directory of a fid through the descriptor of its mount, \<open>/proc\<close> names the
  directory that was opened, and looking for the entry in it finds it or finds it gone.
\<close>

definition entry_name :: "fid \<Rightarrow> string" where
  "entry_name f = cstring (map byte_char (takeWhile (\<lambda>c. c \<noteq> 0) (drop (fid_name_off f) f)))"

definition tells_path :: "'w os \<Rightarrow> int \<Rightarrow> fid \<Rightarrow> bool" where
  "tells_path os m f \<longleftrightarrow>
     (\<forall>w dirf w1 link w2 r e w3.
        os_open_by_handle os m (aligned_handle f) w = (dirf, w1) \<longrightarrow>
        os_readlink os (''/proc/self/fd/'' @ show_int dirf) (PATH_MAX - 2) w1 = (link, w2) \<longrightarrow>
        os_faccessat os dirf (entry_name f) w2 = ((r, e), w3) \<longrightarrow>
        0 < dirf \<and> link \<noteq> None \<and> (r = 0 \<or> e = ENOENT))"

text \<open>A fid that has a descriptor, or whose mount was registered and whose path the kernel can tell.\<close>

definition nameable :: "'w os \<Rightarrow> 'w machine \<Rightarrow> fid \<Rightarrow> bool" where
  "nameable os s f \<longleftrightarrow> fid_link s f \<noteq> None \<or>
     (case Option.bind (fsid_key f) (fid_link s) of None \<Rightarrow> False | Some (_, m) \<Rightarrow> tells_path os m f)"

text \<open>The inotify form; the cookie is what is in the buffer, which nothing ever writes.\<close>

definition inotify_form :: "'w machine \<Rightarrow> fan_event \<Rightarrow> event" where
  "inotify_form s r = \<lparr>ev_wd = (case fid_wd s (fe_fid r) of Some wd \<Rightarrow> wd | None \<Rightarrow> 0), ev_mask = fe_mask r,
     ev_cookie = rd_u32 s (MAX_EVENTS * EVENT_SIZE + 8),
     ev_len = of_nat (length (fe_fid r) - fid_name_off (fe_fid r)), ev_name = fe_name r\<rparr>"

definition own_event :: "'w machine \<Rightarrow> fan_event \<Rightarrow> bool" where
  "own_event s r \<longleftrightarrow> self_pid s \<noteq> 0 \<and> self_pid s = sint (fe_pid r)"

definition fan_ready :: "'w machine \<Rightarrow> bool" where
  "fan_ready s \<longleftrightarrow> initialized s \<and> fanotify_mode s \<and> regex s = None \<and> table_inv s \<and>
     (\<forall>f wd. fid_wd s f = Some wd \<longrightarrow> wd < 2 ^ 31)"

text \<open>Events in the buffer, just read or left by the last call.\<close>

definition fan_loaded :: "'w machine \<Rightarrow> fan_event list \<Rightarrow> bool" where
  "fan_loaded s rs \<longleftrightarrow>
     0 \<le> first_byte s \<and> first_byte s + int (length (encode_fan_events rs)) = bytes s + this_bytes s \<and>
     bytes s + this_bytes s \<le> 65536 \<and> bytes_at s (nat (first_byte s)) (encode_fan_events rs)"

definition fan_pending :: "'w machine \<Rightarrow> fan_event list \<Rightarrow> bool" where
  "fan_pending s rs \<longleftrightarrow>
     (if rs = [] then first_byte s = 0
      else 0 < first_byte s \<and> first_byte s + int (length (encode_fan_events rs)) = bytes s \<and>
        bytes s \<le> 65536 \<and> bytes_at s (nat (first_byte s)) (encode_fan_events rs))"

lemma encode_fan_events_simps [simp]:
  "encode_fan_events [] = []"
  "encode_fan_events (r # rs) = encode_fan_event r @ encode_fan_events rs"
  by (simp_all add: encode_fan_events_def)

lemma length_encode_fan_event:
  "valid_fan r \<Longrightarrow> length (encode_fan_event r) = META_LEN + length (fe_fid r)"
  by (simp add: valid_fan_def encode_fan_event_def encode_fan_def META_LEN_def)

lemma encode_fan_events_Nil:
  assumes "\<forall>r\<in>set rs. valid_fan r"
  shows "encode_fan_events rs = [] \<longleftrightarrow> rs = []"
proof (cases rs)
  case (Cons r rs')
  then show ?thesis using assms length_encode_fan_event [of r] by (auto simp: META_LEN_def)
qed simp

lemma rd_same: "evbuf t = evbuf s \<Longrightarrow> rd_u32 t = rd_u32 s"
  by (rule ext) (simp only: rd_u32_def rd_byte_def)

lemma current_same:
  assumes "evbuf t = evbuf s" "ret_off t = ret_off s"
  shows "current_event t = current_event s"
proof -
  have "buf_slice t = buf_slice s" by (intro ext) (simp only: buf_slice_def assms)
  then show ?thesis using rd_same [OF assms(1)] assms(2) by (simp only: current_event_def)
qed

lemma fid_link_same:
  assumes "by_fid t = by_fid s" and "\<And>n. map_option (\<lambda>w. (w_wd w, w_dirf w)) (watches t n) =
    map_option (\<lambda>w. (w_wd w, w_dirf w)) (watches s n)"
  shows "fid_link t = fid_link s"
  by (intro ext) (simp add: fid_link_def watch_from_fid_def assms)

subsection \<open>What a conversion changes\<close>

text \<open>
  From \<open>s\<close> to \<open>t\<close> at most \<open>k\<close> descriptors were added, none of them in use before; every fid keeps
  the one it had, and the records of the buffer are as they were.
\<close>

definition fan_grown :: "nat \<Rightarrow> 'w machine \<Rightarrow> 'w machine \<Rightarrow> bool" where
  "fan_grown k s t \<longleftrightarrow> fan_ready t \<and> fid_link s \<subseteq>\<^sub>m fid_link t \<and>
     bt_get (by_wd s) \<subseteq>\<^sub>m bt_get (by_wd t) \<and> length (by_wd t) \<le> length (by_wd s) + k \<and>
     (\<forall>f wd. fid_link s f = None \<longrightarrow> fid_wd t f = Some wd \<longrightarrow> watch_from_wd s wd = None) \<and>
     self_pid t = self_pid s \<and> fd t = fd s \<and>
     (\<forall>i<65536. evbuf t i = evbuf s i) \<and> rd_u32 t 65544 = rd_u32 s 65544"

lemma fan_grown_refl: "fan_ready s \<Longrightarrow> fan_grown 0 s s"
  by (simp add: fan_grown_def)

lemma fan_grown_trans:
  assumes "fan_grown j s t" and "fan_grown k t u"
  shows "fan_grown (j + k) s u"
proof -
  have "watch_from_wd s wd = None" if f: "fid_link s f = None" and wd: "fid_wd u f = Some wd" for f wd
  proof (cases "fid_link t f")
    case None
    moreover have "\<forall>f wd. fid_link t f = None \<longrightarrow> fid_wd u f = Some wd \<longrightarrow> watch_from_wd t wd = None"
      using assms(2) unfolding fan_grown_def by (elim conjE)
    ultimately have "bt_get (by_wd t) wd = None" using wd by (simp only: watch_from_wd_def)
    with assms(1) show ?thesis
      unfolding fan_grown_def watch_from_wd_def map_le_def by (metis domIff)
  next
    case (Some l)
    then have "fid_link u f = Some l" using assms(2) by (auto simp: fan_grown_def map_le_def dom_def)
    with Some wd have "fid_wd t f = Some wd" by simp
    moreover have "\<forall>f wd. fid_link s f = None \<longrightarrow> fid_wd t f = Some wd \<longrightarrow> watch_from_wd s wd = None"
      using assms(1) unfolding fan_grown_def by (elim conjE)
    ultimately show ?thesis using f by (simp only:)
  qed
  with assms show ?thesis unfolding fan_grown_def by (auto intro: map_le_trans)
qed

lemma fan_grownD:
  assumes "fan_grown k s t"
  shows "fan_ready t" "own_event t = own_event s" "room (k + j) s \<Longrightarrow> room j t"
    "fid_link s f = Some l \<Longrightarrow> fid_link t f = Some l"
proof -
  show "own_event t = own_event s" by (intro ext) (use assms in \<open>simp add: own_event_def fan_grown_def\<close>)
  show "fid_link s f = Some l \<Longrightarrow> fid_link t f = Some l"
    using assms by (auto simp: fan_grown_def map_le_def dom_def)
qed (use assms in \<open>auto simp: fan_grown_def\<close>)

lemma fan_grown_nameable:
  assumes "fan_grown k s t"
  shows "nameable os s f \<Longrightarrow> nameable os t f"
  using fan_grownD(4) [OF assms]
  by (cases "fid_link s f"; cases "fsid_key f") (auto simp: nameable_def split: option.splits)

text \<open>An event about a fid that has its descriptor keeps its form.\<close>

lemma fan_grown_form:
  assumes "fan_grown k s t" and "fid_wd s (fe_fid r) = Some wd"
  shows "inotify_form t r = inotify_form s r" "fid_wd t (fe_fid r) = Some wd"
proof -
  from assms(2) obtain d where l: "fid_link s (fe_fid r) = Some (wd, d)" by auto
  then show "inotify_form t r = inotify_form s r"
    using fan_grownD(4) [OF assms(1) l] assms(1) by (simp add: inotify_form_def fan_grown_def size_defs)
  show "fid_wd t (fe_fid r) = Some wd" using fan_grownD(4) [OF assms(1) l] by simp
qed

lemma fan_moved_grown:
  assumes m: "fan_moved s t" and ok: "fan_ready s"
  shows "fan_grown 0 s t"
proof -
  note f = fan_moved_fields [OF m]
  have "fid_link t = fid_link s" by (rule fid_link_same) (simp_all add: f)
  then have "fan_ready t" using ok by (simp add: fan_ready_def f table_inv_def)
  then show ?thesis using m \<open>fid_link t = fid_link s\<close> by (simp add: fan_grown_def f fan_moved_def)
qed

lemma counted_fan:
  assumes ok: "fan_ready s"
  shows "fan_grown 0 s (counted e s)"
    "fan_pending (counted e s) rs = fan_pending s rs" "current_event (counted e s) = current_event s"
    "world (counted e s) = world s"
proof -
  have f: "evbuf (counted e s) = evbuf s" "first_byte (counted e s) = first_byte s"
    "bytes (counted e s) = bytes s" "ret_off (counted e s) = ret_off s" "by_fid (counted e s) = by_fid s"
    "self_pid (counted e s) = self_pid s" "initialized (counted e s) = initialized s"
    "fanotify_mode (counted e s) = fanotify_mode s" "regex (counted e s) = regex s"
    "by_wd (counted e s) = by_wd s" "fd (counted e s) = fd s"
    by (auto simp: counted_def record_stats_def Let_def split: option.split)
  have r: "rd_u32 (counted e s) = rd_u32 s" by (rule rd_same) (rule f)
  have "fid_link (counted e s) = fid_link s"
    by (rule fid_link_same) (auto simp: counted_def record_stats_def Let_def split: option.splits)
  moreover have "table_inv (counted e s)" using ok by (simp add: counted_def record_stats_inv fan_ready_def)
  ultimately show "fan_grown 0 s (counted e s)" using ok by (simp add: fan_grown_def fan_ready_def f r)
  show "fan_pending (counted e s) rs = fan_pending s rs" by (simp add: fan_pending_def bytes_at_def f)
  show "current_event (counted e s) = current_event s" by (rule current_same) (rule f)+
  show "world (counted e s) = world s"
    by (auto simp: counted_def record_stats_def Let_def split: option.split)
qed

text \<open>A kernel that tells the path: the fid resolves.\<close>

lemma filename_from_fid_told:
  assumes inv: "table_inv s" and f: "names_entry f name" and m: "fid_mount_fd f s = Some m" "tells_path os m f"
  shows "\<exists>p t. filename_from_fid os f s = Some (Some p, t) \<and> resolves s t"
proof -
  obtain dirf w1 where o: "os_open_by_handle os m (aligned_handle f) (world s) = (dirf, w1)" by fastforce
  obtain link w2 where l: "os_readlink os (''/proc/self/fd/'' @ show_int dirf) (PATH_MAX - 2) w1 = (link, w2)"
    by fastforce
  obtain del e w3 where a: "os_faccessat os dirf (entry_name f) w2 = ((del, e), w3)" by (metis surj_pair)
  from m(2) o l a have told: "0 < dirf" "link \<noteq> None" "del = 0 \<or> e = ENOENT"
    unfolding tells_path_def by blast+
  then obtain target where "link = Some target" by blast
  moreover have "fid_directory os f s = Some (Some dirf, s\<lparr>world := w1\<rparr>)"
    using m(1) o told(1) by (simp add: fid_directory_def sys_def)
  ultimately have "\<exists>p t. filename_from_fid os f s = Some (Some p, t)"
    using l a [unfolded entry_name_def] told(3)
    by (auto simp: filename_from_fid_def sys_def sysw_def Let_def)
  with filename_from_fid_total [OF inv, of os f] show ?thesis by auto
qed

lemma create_watch_new:
  assumes inv: "table_inv s" and room: "room 1 s"
  shows "\<exists>k. 0 < k \<and> k < 2 ^ 31 \<and> bt_get (by_wd s) k = None \<and>
    create_watch os 0 fid p d s = Some (Some k, register os k fid p d (s\<lparr>next_fanotify_wd := k\<rparr>))"
proof -
  have "length (by_wd s) < nat wd_limit" using room by simp
  with table_invD(5,6) [OF inv] obtain k where
    k: "fresh_wd (Suc (length (by_wd s))) (by_wd s) (next_fanotify_wd s) = Some k"
    using fresh_wd_total by blast
  with table_invD(5,6) [OF inv] have "0 < k" "k < 2 ^ 31" "bt_get (by_wd s) k = None"
    using fresh_wd_Some by blast+
  with create_watch_fresh [OF k] show ?thesis by blast
qed

lemma settings_buffer:
  assumes "settings t = settings s"
  shows "evbuf t = evbuf s" "ret_off t = ret_off s" "bytes t = bytes s" "this_bytes t = this_bytes s"
  using assms by (auto simp: settings_def inotifytools.truncate_def)

text \<open>A watch that is registered for a new fid is what that fid leads to; no other is affected.\<close>

lemma fid_link_registered:
  assumes inv: "table_inv s" and new: "watch_from_fid s f = None" and k: "0 < k" "bt_get (by_wd s) k = None"
  shows "fid_link (register os k (Some f) p d s) g =
    (if FidKey_new g = FidKey_new f then Some (k, d) else fid_link s g)"
proof -
  let ?v = "register os k (Some f) p d s"
  note reg = register_table [OF inv, where os = os and wd = k and fid = "Some f" and filename = p and dirf = d]
  have g: "watch_from_fid ?v g = (if FidKey_new g = FidKey_new f then Some (next_id s) else watch_from_fid s g)"
    using reg(3) new by (simp add: watch_from_fid_def filed_def)
  have "watches ?v (next_id s) = Some (new_watch k (Some f) p d)" using register_stored k(2) by blast
  moreover have "watches ?v i = watches s i" if "watch_from_fid s g = Some i" for i
    using watch_from_fid_found [OF inv that] grown_keeps(3) [OF register_grown [OF inv k(1)]] by metis
  ultimately show ?thesis
    using g by (cases "watch_from_fid s g") (simp_all add: fid_link_def)
qed

lemma cprint_fan:
  "fan_grown k s (cprint m t) = fan_grown k s t" "fid_link (cprint m t) = fid_link t"
  "same_buffer s (cprint m t) = same_buffer s t"
proof -
  show l: "fid_link (cprint m t) = fid_link t" by (rule fid_link_same) (simp_all add: cprint_def)
  have "rd_u32 (cprint m t) = rd_u32 t" by (rule rd_same) (simp add: cprint_def)
  then show "fan_grown k s (cprint m t) = fan_grown k s t"
    using l by (simp add: fan_grown_def fan_ready_def cprint_def)
  show "same_buffer s (cprint m t) = same_buffer s t" by (simp add: same_buffer_def cprint_def)
qed

text \<open>Making up a watch for a fid that has none.\<close>

lemma register_fan:
  assumes ok: "fan_ready s" and r: "resolves s t" and new: "watch_from_fid s f = None"
    and k: "0 < k" "k < 2 ^ 31" "bt_get (by_wd t) k = None"
  shows "fan_grown 1 s (register os k (Some f) p 0 (t\<lparr>next_fanotify_wd := k\<rparr>))" (is "fan_grown 1 s ?v")
    and "fid_wd (register os k (Some f) p 0 (t\<lparr>next_fanotify_wd := k\<rparr>)) f = Some k"
    and "same_buffer s (register os k (Some f) p 0 (t\<lparr>next_fanotify_wd := k\<rparr>))"
proof -
  let ?t = "t\<lparr>next_fanotify_wd := k\<rparr>"
  note r = resolves_fields [OF r] resolves_inv [OF r]
  have inv: "table_inv ?t" using ok k by (simp add: fan_ready_def r table_inv_next_wd)
  have "watch_from_fid ?t f = None" using new by (simp add: watch_from_fid_def r)
  moreover have "fid_link ?t = fid_link s" by (rule fid_link_same) (simp_all add: r)
  ultimately have link: "fid_link ?v g = (if FidKey_new g = FidKey_new f then Some (k, 0) else fid_link s g)" for g
    using fid_link_registered [OF inv _ k(1), of f os p 0 g] k(3) by simp
  have grown: "grown 1 ?t ?v" by (rule register_grown [OF inv k(1)])
  have "settings ?v = settings t" using grownD(3) [OF grown] by (simp add: settings_table)
  note set = settings_sel [OF this] settings_buffer [OF this]
  have none: "fid_link s g = None" if "FidKey_new g = FidKey_new f" for g
    using that new by (simp add: fid_link_def watch_from_fid_def)
  have "fan_ready ?v"
    using ok grownD(1) [OF grown] set k(2) by (auto simp: fan_ready_def r link split: if_splits)
  moreover have "fid_link s \<subseteq>\<^sub>m fid_link ?v" using none by (auto simp: map_le_def link)
  moreover have "bt_get (by_wd s) \<subseteq>\<^sub>m bt_get (by_wd ?v)" using grown by (simp add: grown_def r)
  moreover have "length (by_wd ?v) \<le> length (by_wd s) + 1" using grownD(2) [OF grown] by (simp add: r)
  moreover have "\<forall>g wd. fid_link s g = None \<longrightarrow> fid_wd ?v g = Some wd \<longrightarrow> watch_from_wd s wd = None"
    using k(3) by (simp add: link watch_from_wd_def r)
  ultimately show "fan_grown 1 s ?v" using set rd_same [of ?v s] by (simp add: fan_grown_def r)
  show "fid_wd ?v f = Some k" by (simp add: link)
  show "same_buffer s ?v" using set by (simp add: same_buffer_def r)
qed

text \<open>
  The descriptor of an event: the one of its fid, or a new one of the watch that is made up for it.
\<close>

lemma fan_watch_nameable:
  assumes ok: "fan_ready s" and n: "nameable os s f" and f: "names_entry f name" and room: "room 1 s"
  shows "\<exists>wd u. fan_watch os off nm f s = Some (Some (Some wd), u) \<and>
    (fan_grown 1 s u \<and> fid_wd u f = Some wd \<and> (fid_link s f \<noteq> None \<longrightarrow> world u = world s)) \<and>
    same_buffer s u \<and> - (2 ^ 31) \<le> wd \<and> wd < 2 ^ 31"
proof (cases "watch_from_fid s f")
  case (Some i)
  have inv: "table_inv s" using ok by (simp add: fan_ready_def)
  from watch_from_fid_found [OF inv Some] obtain w where w: "watches s i = Some w" by blast
  have wd: "fid_wd s f = Some (w_wd w)" using Some w by (simp add: fid_link_def)
  then have "w_wd w < 2 ^ 31" "0 < w_wd w"
    using ok table_invD(4) [OF inv w] by (auto simp: fan_ready_def watch_ok_def)
  moreover have "fan_watch os off nm f s = Some (Some (Some (w_wd w)), s)"
    using Some w by (simp add: fan_watch_def watch_at_def)
  moreover have "fan_grown 1 s s" using ok by (simp add: fan_grown_def)
  ultimately show ?thesis using wd by (auto simp: same_buffer_def)
next
  case None
  have inv: "table_inv s" using ok by (simp add: fan_ready_def)
  have link: "fid_link s f = None" using None by (simp add: fid_link_def)
  with n obtain m where m: "fid_mount_fd f s = Some m" "tells_path os m f"
    by (auto simp: nameable_def fid_mount_fd_def fid_link_def watch_at_def split: option.splits Option.bind_splits)
  from filename_from_fid_told [OF inv f m] obtain p t where
    p: "filename_from_fid os f s = Some (Some p, t)" "resolves s t" by blast
  have "table_inv t" "room 1 t" using p(2) inv room by (simp_all add: resolves_inv resolves_fields)
  from create_watch_new [OF this, of os "Some f" p 0] obtain k where
    k: "0 < k" "k < 2 ^ 31" "bt_get (by_wd t) k = None" and
    c: "create_watch os 0 (Some f) p 0 t = Some (Some k, register os k (Some f) p 0 (t\<lparr>next_fanotify_wd := k\<rparr>))"
    by blast
  define v where "v = register os k (Some f) p 0 (t\<lparr>next_fanotify_wd := k\<rparr>)"
  note v = register_fan [OF ok p(2) None k, of os p, folded v_def]
  obtain u where "fan_watch os off nm f s = Some (Some (Some k), u)" "u = v \<or> (\<exists>m. u = cprint m v)"
    using None p(1) c [folded v_def] by (cases "verbosity v = 0") (auto simp: fan_watch_def Let_def)
  then show ?thesis using v k link by (auto simp: cprint_fan)
qed

text \<open>
  From \<open>s\<close> to \<open>t\<close> the events \<open>rs\<close> were read: the fids of all have descriptors then, and when they
  had before, the kernel was not asked about any.
\<close>

definition fan_through :: "'w machine \<Rightarrow> fan_event list \<Rightarrow> 'w machine \<Rightarrow> bool" where
  "fan_through s rs t \<longleftrightarrow> fan_grown (length rs) s t \<and> (\<forall>r\<in>set rs. fid_link t (fe_fid r) \<noteq> None) \<and>
     ((\<forall>r\<in>set rs. fid_link s (fe_fid r) \<noteq> None) \<longrightarrow> world t = world s)"

lemma fan_through_trans:
  assumes "fan_through s xs t" and "fan_through t ys u"
  shows "fan_through s (xs @ ys) u"
proof -
  have "fid_link t f \<noteq> None" if "fid_link s f \<noteq> None" for f
    using that assms(1) fan_grownD(4) [of "length xs" s t f] by (auto simp: fan_through_def)
  moreover have "fid_link u f \<noteq> None" if "fid_link t f \<noteq> None" for f
    using that assms(2) fan_grownD(4) [of "length ys" t u f] by (auto simp: fan_through_def)
  moreover have "fan_grown (length (xs @ ys)) s u"
    using assms fan_grown_trans [of "length xs" s t "length ys" u] by (simp add: fan_through_def)
  ultimately show ?thesis using assms unfolding fan_through_def by (metis Un_iff set_append)
qed

lemma fan_through_Nil:
  "fan_moved s t \<Longrightarrow> fan_ready s \<Longrightarrow> fan_through s [] t"
  "fan_ready s \<Longrightarrow> fan_through s [] (counted e s)"
  by (simp_all add: fan_through_def fan_moved_grown fan_moved_fields counted_fan)

lemma fan_throughD:
  assumes "fan_through s xs t"
  shows "fan_ready t" "own_event t = own_event s" "room (length xs + j) s \<Longrightarrow> room j t"
    "nameable os s f \<Longrightarrow> nameable os t f"
  using assms fan_grownD(1-3) [of "length xs" s t] fan_grown_nameable [of "length xs" s t]
  by (simp_all add: fan_through_def)

lemma fan_through_form:
  assumes "fan_through s xs t" and "fid_link s (fe_fid r) \<noteq> None"
  shows "inotify_form t r = inotify_form s r" "fid_link t (fe_fid r) \<noteq> None"
  using assms fan_grown_form [of "length xs" s t r] by (auto simp: fan_through_def)

subsection \<open>One event\<close>

lemma deliver_fan_loaded:
  assumes ok: "fan_ready s" and l: "fan_loaded s (r # rs)" and vs: "\<forall>x\<in>set (r # rs). valid_fan x"
    and n: "nameable os s (fe_fid r)" and room: "room 1 s"
  shows "\<exists>s'. fan_through s [r] s' \<and> fan_pending s' rs \<and> current_event s' = inotify_form s' r \<and>
    deliver os s = Some (if own_event s r then (Again, s') else (Event, counted (inotify_form s' r) s'))"
proof -
  let ?n = "META_LEN + length (fe_fid r)" and ?k = "nat (first_byte s)"
  from vs have v: "valid_fan r" by simp
  have len: "length (encode_fan_event r) = ?n" by (rule length_encode_fan_event [OF v])
  from l len have pos: "0 \<le> first_byte s" "?k + ?n + length (encode_fan_events rs) \<le> 65536"
    "first_byte s + int ?n + int (length (encode_fan_events rs)) = bytes s + this_bytes s"
    by (auto simp: fan_loaded_def)
  from l have at: "bytes_at s ?k (encode_fan_event r)" "bytes_at s (?k + ?n) (encode_fan_events rs)"
    by (simp_all add: fan_loaded_def bytes_at_append len)
  have ret: "to_usize (first_byte s) = ?k" using pos by (intro to_usize_id) auto
  let ?s1 = "s\<lparr>ret_off := ?k\<rparr>"
  have at1: "bytes_at ?s1 (ret_off ?s1) (encode_fan (fe_vers r) (fe_mask r) (fe_high r) (fe_fd r) (fe_pid r) (fe_fid r))"
    using at(1) by (simp add: bytes_at_def encode_fan_event_def)
  have rd1: "rd_u32 ?s1 = rd_u32 s" by (rule rd_same) simp
  then have m1: "fan_moved s ?s1" by (simp add: fan_moved_def)
  note t1 = fan_through_Nil(1) [OF m1 ok]
  have nv: "names_entry (fe_fid r) (fe_name r)" "fe_name r \<noteq> ''.''" "length (fe_vers r) = 4" "length (fe_fd r) = 4"
    using v by (auto simp: valid_fan_def)
  have small: "ret_off ?s1 + 24 + length (fe_fid r) \<le> MAX_EVENTS * EVENT_SIZE"
    using pos(2) by (simp add: META_LEN_def size_defs)
  let ?R = "\<lambda>t wd u. fan_through t [r] u \<and> fid_wd u (fe_fid r) = Some wd"
  have watch: "\<exists>wd u. fan_watch os (ret_off ?s1 + 24) nm (fe_fid r) t = Some (Some (Some wd), u) \<and>
      ?R t wd u \<and> same_buffer t u \<and> - (2 ^ 31) \<le> wd \<and> wd < 2 ^ 31" if m: "fan_moved ?s1 t" for nm t
  proof -
    have t: "fan_through s [] t" using fan_through_trans [OF t1 fan_through_Nil(1) [OF m fan_throughD(1) [OF t1]]] by simp
    have "room 1 t" using fan_throughD(3) [OF t, of 1] room by simp
    from fan_watch_nameable [OF fan_throughD(1) [OF t] fan_throughD(4) [OF t n] nv(1) this, of "ret_off ?s1 + 24" nm]
    show ?thesis by (auto simp: fan_through_def)
  qed
  from convert_entry [OF nv(1,2) at1 nv(3,4) small watch]
  obtain t wd u s2 where s2: "convert_fanotify_event os ?s1 = Some ((True, sint (fe_pid r)), s2)"
    "current_event s2 = \<lparr>ev_wd = wd, ev_mask = fe_mask r, ev_cookie = rd_u32 s (MAX_EVENTS * EVENT_SIZE + 8),
      ev_len = of_nat (length (fe_fid r) - fid_name_off (fe_fid r)), ev_name = fe_name r\<rparr>"
    "first_byte s2 = wrap32 (first_byte s + int ?n)" "bytes s2 = bytes s" "this_bytes s2 = this_bytes s"
    and m2: "fan_moved ?s1 t" "fan_through t [r] u" "fid_wd u (fe_fid r) = Some wd" "fan_moved u s2"
    unfolding rd1 by auto
  let ?b = "bytes s + this_bytes s" and ?fb = "first_byte s + int ?n"
  have fb: "first_byte s2 = ?fb" using s2(3) pos by (simp add: wrap32_id)
  define s3 where "s3 = s2\<lparr>first_byte := if ?fb = ?b then 0 else ?fb, bytes := ?b\<rparr>"
  have "rd_u32 s3 = rd_u32 s2" by (rule rd_same) (simp add: s3_def)
  then have "fan_moved s2 s3" by (simp add: fan_moved_def s3_def)
  from fan_moved_trans [OF m2(4) this] have m3: "fan_moved u s3" .
  have tu: "fan_through u [] s3" by (rule fan_through_Nil(1) [OF m3 fan_throughD(1) [OF m2(2)]])
  have "fan_through s [] t" using fan_through_Nil(1) [OF fan_moved_trans [OF m1 m2(1)] ok] .
  from fan_through_trans [OF fan_through_trans [OF this m2(2)] tu] have th: "fan_through s [r] s3" by simp
  then have g: "fan_grown 1 s s3" by (simp add: fan_through_def)
  have "fid_wd s3 (fe_fid r) = Some wd"
    using tu m2(3) fan_grown_form(2) [of 0 u s3 r wd] by (simp add: fan_through_def)
  moreover have "rd_u32 s3 65544 = rd_u32 s 65544" using g by (simp add: fan_grown_def)
  ultimately have form: "current_event s2 = inotify_form s3 r"
    unfolding s2(2) inotify_form_def by (auto simp: size_defs)
  have over: "step_over os s = Some (Some (sint (fe_pid r)), s3)"
    using ok ret s2(1,4,5) fb pos(3) by (simp add: step_over_def fan_ready_def niceassert_def s3_def)
  have cur: "current_event s3 = inotify_form s3 r"
    unfolding form [symmetric] by (rule current_same) (simp_all add: s3_def)
  then have head: "sint (rd_u32 s3 (ret_off s3)) = ev_wd (inotify_form s3 r)"
    "rd_u32 s3 (ret_off s3 + 4) = ev_mask (inotify_form s3 r)"
    by (metis (no_types, lifting) current_event_def event.select_convs(1) Let_def)
      (metis (no_types, lifting) cur current_event_def event.select_convs(2) Let_def)
  have "fan_pending s3 rs"
  proof (cases "rs = []")
    case True
    with pos(3) show ?thesis by (simp add: fan_pending_def s3_def)
  next
    case False
    have "evbuf s3 i = evbuf s i" if "i < 65536" for i using g that by (simp add: fan_grown_def)
    then have "bytes_at s3 (?k + ?n) (encode_fan_events rs)" using at(2) pos(2) by (auto simp: bytes_at_def)
    moreover have "nat ?fb = ?k + ?n" "0 < ?fb" using pos(1) by (auto simp: META_LEN_def)
    moreover have "encode_fan_events rs \<noteq> []" using False vs encode_fan_events_Nil [of rs] by simp
    ultimately show ?thesis
      using False pos by (auto simp: fan_pending_def s3_def)
  qed
  moreover have "self_pid s3 = self_pid s" "regex s3 = None"
    using g by (simp_all only: fan_grown_def fan_ready_def)
  ultimately show ?thesis
    using over th cur head
    by (intro exI [of _ s3]) (simp add: deliver_def own_event_def filtered_out_def counted_def)
qed

lemma take_buffered_fan:
  assumes ok: "fan_ready s" and p: "fan_pending s (r # rs)" and v: "valid_fan r"
  shows "\<exists>s1. take_buffered s = Some (Buffered, s1) \<and> fan_loaded s1 (r # rs) \<and> fan_moved s s1"
proof -
  let ?s1 = "s\<lparr>ret_off := to_usize (first_byte s), this_bytes := 0\<rparr>"
  have p': "0 < first_byte s" "first_byte s + int (META_LEN + length (fe_fid r)) \<le> bytes s" "bytes s \<le> 65536"
    using p length_encode_fan_event [OF v] by (auto simp: fan_pending_def)
  then have "wrap32 (bytes s - int EVENT_SIZE) = bytes s - int EVENT_SIZE"
    by (intro wrap32_id) (auto simp: META_LEN_def EVENT_SIZE_def)
  then have "take_buffered s = Some (Buffered, ?s1)"
    using p' ok by (simp add: take_buffered_def fan_ready_def Let_def META_LEN_def EVENT_SIZE_def)
  moreover have "fan_loaded ?s1 (r # rs)" using p by (simp add: fan_pending_def fan_loaded_def bytes_at_def)
  moreover have "rd_u32 ?s1 = rd_u32 s" by (rule rd_same) simp
  then have "fan_moved s ?s1" by (simp add: fan_moved_def)
  ultimately show ?thesis by blast
qed

lemma step_fan:
  assumes ok: "fan_ready s" and p: "fan_pending s (r # rs)" and vs: "\<forall>x\<in>set (r # rs). valid_fan x"
    and n: "nameable os s (fe_fid r)" and room: "room 1 s"
  shows "\<exists>s'. fan_through s [r] s' \<and> fan_pending s' rs \<and> current_event s' = inotify_form s' r \<and>
    next_event_step os fuel timeout num_events s =
      Some (if own_event s r then (Again, s') else (Event, counted (inotify_form s' r) s'))"
proof -
  let ?s0 = "set_error 0 s"
  have "rd_u32 ?s0 = rd_u32 s" by (rule rd_same) (simp add: set_error_def)
  then have m0: "fan_moved s ?s0" by (simp add: fan_moved_def set_error_def)
  note ok0 = fan_throughD(1) [OF fan_through_Nil(1) [OF m0 ok]]
  have p0: "fan_pending ?s0 (r # rs)" using p by (simp add: fan_pending_def set_error_def bytes_at_def)
  from take_buffered_fan [OF ok0 p0] vs obtain s1 where
    b: "take_buffered ?s0 = Some (Buffered, s1)" "fan_loaded s1 (r # rs)" "fan_moved ?s0 s1" by auto
  have t: "fan_through s [] s1" by (rule fan_through_Nil(1) [OF fan_moved_trans [OF m0 b(3)] ok])
  have "room 1 s1" using fan_throughD(3) [OF t, of 1] room by simp
  from deliver_fan_loaded [OF fan_throughD(1) [OF t] b(2) vs fan_throughD(4) [OF t n] this] obtain s2 where
    "fan_through s1 [r] s2" "fan_pending s2 rs" "current_event s2 = inotify_form s2 r"
    "deliver os s1 = Some (if own_event s r then (Again, s2) else (Event, counted (inotify_form s2 r) s2))"
    by (auto simp: fan_throughD(2) [OF t])
  with b(1) fan_through_trans [OF t] show ?thesis by (fastforce simp: next_event_step_def)
qed

text \<open>The first event of another process.\<close>

lemma loop_fan:
  "fan_ready s \<Longrightarrow> fan_pending s (own @ r # rs) \<Longrightarrow> \<forall>x\<in>set (own @ r # rs). valid_fan x \<Longrightarrow>
     \<forall>x\<in>set (own @ [r]). nameable os s (fe_fid x) \<Longrightarrow> room (Suc (length own)) s \<Longrightarrow>
     \<forall>x\<in>set own. own_event s x \<Longrightarrow> \<not> own_event s r \<Longrightarrow> length own < fuel \<Longrightarrow>
     \<exists>s'. fan_through s (own @ [r]) s' \<and> fan_pending s' rs \<and> current_event s' = inotify_form s' r \<and>
       next_events_loop os fuel timeout num_events s = Some (True, counted (inotify_form s' r) s')"
proof (induction own arbitrary: s fuel)
  case Nil
  then obtain f where f: "fuel = Suc f" by (cases fuel) auto
  from Nil step_fan [of s r rs os fuel timeout num_events] f show ?case by auto
next
  case (Cons x own)
  then obtain f where f: "fuel = Suc f" by (cases fuel) auto
  from Cons.prems step_fan [of s x "own @ r # rs" os fuel timeout num_events] obtain s1 where
    s1: "fan_through s [x] s1" "fan_pending s1 (own @ r # rs)"
      "next_event_step os fuel timeout num_events s = Some (Again, s1)" by auto
  note same = fan_throughD [OF s1(1)]
  have "\<exists>s'. fan_through s1 (own @ [r]) s' \<and> fan_pending s' rs \<and> current_event s' = inotify_form s' r \<and>
      next_events_loop os f timeout num_events s1 = Some (True, counted (inotify_form s' r) s')"
    using Cons.prems s1(2) f same(3) [of "Suc (length own)"] by (intro Cons.IH) (simp_all add: same)
  then obtain s' where "fan_through s1 (own @ [r]) s'" "fan_pending s' rs" "current_event s' = inotify_form s' r"
      "next_events_loop os f timeout num_events s1 = Some (True, counted (inotify_form s' r) s')" by blast
  then show ?case using s1(3) fan_through_trans [OF s1(1)] by (intro exI [of _ s']) (auto simp: f)
qed

text \<open>The foreign events of a buffer.\<close>

abbreviation foreign :: "'w machine \<Rightarrow> fan_event list \<Rightarrow> fan_event list" where
  "foreign s rs \<equiv> filter (\<lambda>r. \<not> own_event s r) rs"

lemma take_events_fan:
  "fan_ready s \<Longrightarrow> fan_pending s rs \<Longrightarrow> \<forall>r\<in>set rs. valid_fan r \<and> nameable os s (fe_fid r) \<Longrightarrow>
     room (length rs) s \<Longrightarrow> length rs \<le> fuel \<Longrightarrow>
     \<exists>taken left s'. rs = taken @ left \<and> foreign s left = [] \<and> fan_through s taken s' \<and>
       take_events os fuel timeout (length (foreign s rs)) s =
         Some (map (Some \<circ> inotify_form s') (foreign s rs), s')"
proof (induction "length rs" arbitrary: rs s rule: less_induct)
  case less
  show ?case
  proof (cases "\<exists>r\<in>set rs. \<not> own_event s r")
    case False
    then have none: "foreign s rs = []" by (simp add: filter_empty_conv)
    moreover have "fan_through s [] s" using less.prems(1) by (simp add: fan_through_def fan_grown_refl)
    ultimately show ?thesis by (intro exI [of _ "[]"] exI [of _ rs] exI [of _ s]) simp
  next
    case True
    from split_list_first_prop [OF True] obtain own r rs' where
      rs: "rs = own @ r # rs'" "\<not> own_event s r" "\<forall>x\<in>set own. own_event s x" by auto
    have "\<exists>s1. fan_through s (own @ [r]) s1 \<and> fan_pending s1 rs' \<and> current_event s1 = inotify_form s1 r \<and>
       next_events_loop os fuel (if timeout = 0 then -1 else timeout) 1 s =
         Some (True, counted (inotify_form s1 r) s1)"
      using less.prems rs by (intro loop_fan) auto
    then obtain s1 where s1: "fan_through s (own @ [r]) s1" "fan_pending s1 rs'" "current_event s1 = inotify_form s1 r"
      "next_events_loop os fuel (if timeout = 0 then -1 else timeout) 1 s =
         Some (True, counted (inotify_form s1 r) s1)" by blast
    let ?t = "counted (inotify_form s1 r) s1"
    note ok1 = fan_throughD(1) [OF s1(1)]
    from fan_through_trans [OF s1(1) fan_through_Nil(2) [OF ok1]]
    have t: "fan_through s (own @ [r]) ?t" by simp
    note same = fan_throughD [OF t]
    have call: "next_event os fuel timeout s = Some (Some (inotify_form s1 r), ?t)"
      using next_event_loop [of s os fuel timeout] s1(3,4) less.prems(1)
      by (simp add: fan_ready_def counted_fan(3) [OF ok1] del: next_events_loop.simps)
    have "\<exists>taken left s'. rs' = taken @ left \<and> foreign ?t left = [] \<and> fan_through ?t taken s' \<and>
        take_events os fuel timeout (length (foreign ?t rs')) ?t =
          Some (map (Some \<circ> inotify_form s') (foreign ?t rs'), s')"
      using less.prems rs s1(2) same(3) [of "length rs'"] same(4)
      by (intro less.hyps) (simp_all add: same(1) counted_fan(2) [OF ok1])
    then obtain taken left s' where s': "rs' = taken @ left" "foreign s left = []" "fan_through ?t taken s'"
        "take_events os fuel timeout (length (foreign s rs')) ?t =
          Some (map (Some \<circ> inotify_form s') (foreign s rs'), s')"
      by (auto simp: same(2))
    have "fid_link s1 (fe_fid r) \<noteq> None" using s1(1) by (simp add: fan_through_def)
    from fan_through_form [OF fan_through_trans [OF fan_through_Nil(2) [OF ok1] s'(3)] this]
    have form: "inotify_form s1 r = inotify_form s' r" by simp
    have "foreign s own = []" using rs(3) by (simp add: filter_empty_conv)
    then have "take_events os fuel timeout (length (foreign s rs)) s =
        Some (map (Some \<circ> inotify_form s') (foreign s rs), s')"
      using call s'(4) rs by (simp add: form)
    then show ?thesis
      using s'(1,2) rs(1) fan_through_trans [OF t s'(3)]
      by (intro exI [of _ "own @ r # taken"] exI [of _ left] exI [of _ s']) simp
  qed
qed

text \<open>A read puts a batch of events at the start of the buffer; the table stays.\<close>

definition fan_read :: "'w machine \<Rightarrow> 'w \<Rightarrow> 'w machine \<Rightarrow> bool" where
  "fan_read s w t \<longleftrightarrow> fan_ready t \<and> fid_link t = fid_link s \<and> by_wd t = by_wd s \<and>
     own_event t = own_event s \<and> world t = w \<and> rd_u32 t 65544 = rd_u32 s 65544"

lemma read_fan:
  assumes ok: "fan_ready s" and empty: "first_byte s = 0" and vs: "\<forall>r\<in>set rs. valid_fan r" "rs \<noteq> []"
    and data: "length (encode_fan_events rs) \<le> MAX_EVENTS * EVENT_SIZE"
    and poll: "os_ppoll os (fd s) timeout (world s) = ((rc, err), w1)" "0 < rc"
    and avail: "os_fionread os (fd s) w1 = ((0, err', n), w2)" "int EVENT_SIZE * num_events \<le> int (unat n)"
    and read: "os_read os (fd s) (MAX_EVENTS * EVENT_SIZE) w2 =
      ((int (length (encode_fan_events rs)), err'', encode_fan_events rs), w3)"
  shows "\<exists>s1. next_event_step os (Suc fuel) timeout num_events s = deliver os s1 \<and> fan_loaded s1 rs \<and>
    fan_read s w3 s1"
proof -
  let ?bs = "encode_fan_events rs"
  let ?s0 = "(set_error 0 s)\<lparr>bytes := 0\<rparr>"
  let ?s1 = "(wr_bytes 0 ?bs (?s0\<lparr>world := w3\<rparr>))\<lparr>this_bytes := int (length ?bs)\<rparr>"
  have tb: "take_buffered (set_error 0 s) = Some (Must_read, ?s0)"
    using empty by (simp add: take_buffered_def set_error_def)
  have "?bs \<noteq> []" using encode_fan_events_Nil [OF vs(1)] vs(2) by simp
  then have "read_more os (Suc fuel) timeout num_events ?s0 = Some (True, ?s1)"
    using poll avail read data by (simp add: read_more_def sys_def set_error_def size_defs mult.commute)
  with tb have "next_event_step os (Suc fuel) timeout num_events s = deliver os ?s1"
    by (simp add: next_event_step_def)
  moreover have "fan_loaded ?s1 rs"
    using data empty bytes_at_wr [of 0 ?bs "?s0\<lparr>world := w3\<rparr>"]
    by (simp add: fan_loaded_def set_error_def EVBUF_LEN_def size_defs bytes_at_def)
  moreover have l: "fid_link ?s1 = fid_link s" by (rule fid_link_same) (simp_all add: set_error_def)
  moreover have "own_event ?s1 = own_event s" by (intro ext) (simp add: own_event_def set_error_def)
  moreover have "fan_ready ?s1" using ok unfolding fan_ready_def l by (simp add: set_error_def table_inv_def)
  moreover have "rd_u32 ?s1 = rd_u32 (wr_bytes 0 ?bs (?s0\<lparr>world := w3\<rparr>))" "rd_u32 (?s0\<lparr>world := w3\<rparr>) = rd_u32 s"
    by (rule rd_same, simp add: set_error_def)+
  then have "rd_u32 ?s1 65544 = rd_u32 s 65544"
    using data rd_u32_wr_other [of 65544 0 ?bs "?s0\<lparr>world := w3\<rparr>"] by (simp add: size_defs EVBUF_LEN_def)
  ultimately show ?thesis by (intro exI [of _ ?s1]) (simp add: fan_read_def set_error_def)
qed

text \<open>The first call after such a read.\<close>

lemma loaded_first_fan:
  assumes step: "next_event_step os (Suc f) timeout num_events s = deliver os s1" "length rs \<le> Suc f"
    and l: "fan_loaded s1 rs" and ok: "fan_ready s1" and room: "room (length rs) s1"
    and vs: "\<forall>r\<in>set rs. valid_fan r \<and> nameable os s1 (fe_fid r)"
    and some: "foreign s1 rs \<noteq> []"
  shows "\<exists>own x rs' s'. rs = own @ x # rs' \<and> foreign s1 own = [] \<and> \<not> own_event s1 x \<and>
    fan_through s1 (own @ [x]) s' \<and> fan_pending s' rs' \<and> current_event s' = inotify_form s' x \<and>
    next_events_loop os (Suc f) timeout num_events s = Some (True, counted (inotify_form s' x) s')"
proof -
  obtain r rs' where rs: "rs = r # rs'" using some by (cases rs) auto
  from deliver_fan_loaded [OF ok l [unfolded rs], of os] vs room obtain s2 where
    s2: "fan_through s1 [r] s2" "fan_pending s2 rs'" "current_event s2 = inotify_form s2 r"
      "deliver os s1 = Some (if own_event s1 r then (Again, s2) else (Event, counted (inotify_form s2 r) s2))"
    by (auto simp: rs)
  note same = fan_throughD [OF s2(1)]
  have len: "length rs' \<le> f" using step(2) rs by simp
  show ?thesis
  proof (cases "own_event s1 r")
    case False
    with step(1) s2 show ?thesis
      by (intro exI [of _ "[]"] exI [of _ r] exI [of _ rs'] exI [of _ s2]) (simp add: rs)
  next
    case True
    with some have "\<exists>x\<in>set rs'. \<not> own_event s1 x" by (auto simp: rs filter_empty_conv)
    from split_list_first_prop [OF this] obtain own x rs'' where
      x: "rs' = own @ x # rs''" "\<not> own_event s1 x" "\<forall>y\<in>set own. own_event s1 y" by auto
    have "\<exists>s3. fan_through s2 (own @ [x]) s3 \<and> fan_pending s3 rs'' \<and> current_event s3 = inotify_form s3 x \<and>
        next_events_loop os f timeout num_events s2 = Some (True, counted (inotify_form s3 x) s3)"
      using s2(2) vs x len room same(3) [of "length rs'"] same(4)
      by (intro loop_fan) (auto simp: rs same(1,2))
    then obtain s3 where s3: "fan_through s2 (own @ [x]) s3" "fan_pending s3 rs''" "current_event s3 = inotify_form s3 x"
      "next_events_loop os f timeout num_events s2 = Some (True, counted (inotify_form s3 x) s3)"
      by blast
    from True step(1) s2(4) x s3 fan_through_trans [OF s2(1) s3(1)] show ?thesis
      by (intro exI [of _ "r # own"] exI [of _ x] exI [of _ rs''] exI [of _ s3])
        (simp add: rs filter_empty_conv)
  qed
qed

text \<open>C8.
  Fanotify batches lose nothing and hide nothing but the program's own events: when no event is
  waiting and the kernel hands over a batch of events about named entries of directories, asking
  for as many events as other processes have caused yields exactly those, in the kernel's order.
  Each is the inotify event of its entry's descriptor: the one the entry had, found by the handle
  of its directory and its name, or, at its first event, a new one that no watch was using. Entries
  keep their descriptors, and when all have one a single read is all that the kernel is asked.\<close>

theorem fan_batch_delivered:
  assumes ok: "fan_ready s" and empty: "first_byte s = 0"
    and vs: "\<forall>r\<in>set rs. valid_fan r \<and> nameable os s (fe_fid r)"
    and some: "foreign s rs \<noteq> []" and room: "room (length rs) s"
    and data: "length (encode_fan_events rs) \<le> MAX_EVENTS * EVENT_SIZE"
    and poll: "os_ppoll os (fd s) (if timeout = 0 then -1 else timeout) (world s) = ((rc, err), w1)" "0 < rc"
    and avail: "os_fionread os (fd s) w1 = ((0, err', n), w2)" "EVENT_SIZE \<le> unat n"
    and read: "os_read os (fd s) (MAX_EVENTS * EVENT_SIZE) w2 =
      ((int (length (encode_fan_events rs)), err'', encode_fan_events rs), w3)"
    and fuel: "length rs \<le> fuel"
  shows "\<exists>s'. take_events os fuel timeout (length (foreign s rs)) s =
      Some (map (Some \<circ> inotify_form s') (foreign s rs), s') \<and>
    (\<forall>r\<in>set (foreign s rs). fid_wd s' (fe_fid r) \<noteq> None) \<and> fid_link s \<subseteq>\<^sub>m fid_link s' \<and>
    (\<forall>f wd. fid_wd s f = None \<longrightarrow> fid_wd s' f = Some wd \<longrightarrow> watch_from_wd s wd = None) \<and>
    rd_u32 s' (MAX_EVENTS * EVENT_SIZE + 8) = rd_u32 s (MAX_EVENTS * EVENT_SIZE + 8) \<and>
    ((\<forall>r\<in>set rs. fid_wd s (fe_fid r) \<noteq> None) \<longrightarrow> world s' = w3)"
proof -
  let ?t = "if timeout = 0 then -1 else timeout"
  obtain f where f: "fuel = Suc f" "length rs \<le> Suc f" using fuel some by (cases fuel; cases rs) auto
  have "rs \<noteq> []" "int EVENT_SIZE * 1 \<le> int (unat n)"
    using some avail(2) by (auto simp only: mult_1_right of_nat_le_iff filter.simps)
  with read_fan [OF ok empty _ _ data poll avail(1) _ read, of 1 f] vs obtain s1 where
    s1: "next_event_step os (Suc f) ?t 1 s = deliver os s1" "fan_loaded s1 rs" "fan_read s w3 s1" by blast
  note rd = s1(3) [unfolded fan_read_def]
  have same: "fid_link s1 = fid_link s" "by_wd s1 = by_wd s" "own_event s1 = own_event s" "fan_ready s1" "world s1 = w3"
    "rd_u32 s1 65544 = rd_u32 s 65544"
    using rd by auto
  have vs1: "\<forall>r\<in>set rs. valid_fan r \<and> nameable os s1 (fe_fid r)" using vs by (simp add: nameable_def same(1))
  have "room (length rs) s1" "foreign s1 rs \<noteq> []" using room some by (simp_all add: same)
  from loaded_first_fan [OF s1(1) f(2) s1(2) same(4) this(1) vs1 this(2)] obtain own x rs' s2 where
    x: "rs = own @ x # rs'" "foreign s own = []" "\<not> own_event s x"
    and s2: "fan_through s1 (own @ [x]) s2" "fan_pending s2 rs'" "current_event s2 = inotify_form s2 x"
      "next_events_loop os fuel ?t 1 s = Some (True, counted (inotify_form s2 x) s2)"
    by (auto simp: same(3) f(1))
  let ?u = "counted (inotify_form s2 x) s2"
  note ok2 = fan_throughD(1) [OF s2(1)]
  from fan_through_trans [OF s2(1) fan_through_Nil(2) [OF ok2]]
  have u: "fan_through s1 (own @ [x]) ?u" by simp
  note su = fan_throughD [OF u]
  have call: "next_event os fuel timeout s = Some (Some (inotify_form s2 x), ?u)"
    using next_event_loop [of s os fuel timeout] s2(3,4) ok
    by (simp add: fan_ready_def counted_fan(3) [OF ok2] del: next_events_loop.simps)
  have "\<exists>taken left s'. rs' = taken @ left \<and> foreign ?u left = [] \<and> fan_through ?u taken s' \<and>
      take_events os fuel timeout (length (foreign ?u rs')) ?u =
        Some (map (Some \<circ> inotify_form s') (foreign ?u rs'), s')"
    using su(1) s2(2) vs1 x(1) room fuel su(3) [of "length rs'"] su(4)
    by (intro take_events_fan) (auto simp: counted_fan(2) [OF ok2] same(2))
  then obtain taken left s' where s': "rs' = taken @ left" "foreign s left = []" "fan_through ?u taken s'"
      "take_events os fuel timeout (length (foreign s rs')) ?u =
        Some (map (Some \<circ> inotify_form s') (foreign s rs'), s')"
    by (auto simp: su(2) same(3))
  have "fid_link s2 (fe_fid x) \<noteq> None" using s2(1) by (simp add: fan_through_def)
  from fan_through_form [OF fan_through_trans [OF fan_through_Nil(2) [OF ok2] s'(3)] this]
  have form: "inotify_form s2 x = inotify_form s' x" by simp
  have "take_events os fuel timeout (length (foreign s rs)) s =
      Some (map (Some \<circ> inotify_form s') (foreign s rs), s')"
    using call s'(4) x by (simp add: form)
  moreover from fan_through_trans [OF u s'(3)] have t: "fan_through s1 (own @ x # taken) s'" by simp
  moreover have "set (foreign s rs) \<subseteq> set (own @ x # taken)" "set (own @ x # taken) \<subseteq> set rs"
    using x(1) s'(1,2) by (auto simp: filter_empty_conv)
  ultimately show ?thesis
    unfolding fan_through_def fan_grown_def same(1,2,5,6) watch_from_wd_def
    by (intro exI [of _ s']) (auto simp add: size_defs simp del: take_events.simps)
qed

text \<open>A marked filesystem, and two first events about an entry in it, one caused by the program itself.\<close>

definition fan_mount :: "unit machine" where
  "fan_mount = (register quiet_os 1 (Some (fsid_key_bytes hello_fid)) ''/'' 3 (machine_new ()))
     \<lparr>initialized := True, fanotify_mode := True, self_pid := 7\<rparr>"

definition own_then_foreign :: "fan_event list" where
  "own_then_foreign = map (\<lambda>(m, pid). \<lparr>fe_vers = [1, 0, 24, 0], fe_mask = m, fe_high = 0,
     fe_fd = [255, 255, 255, 255], fe_pid = pid, fe_fid = hello_fid, fe_name = ''hello''\<rparr>)
     [(IN_OPEN, 7), (IN_CREATE, 42)]"

definition fan_batch_os :: "unit os" where
  "fan_batch_os = path_os\<lparr>os_ppoll := (\<lambda>_ _ w. ((1, 0), w)), os_fionread := (\<lambda>_ w. ((0, 0, 102), w)),
     os_read := (\<lambda>_ _ w. ((102, 0, encode_fan_events own_then_foreign), w))\<rparr>"

lemma fan_mount_facts:
  "fan_ready fan_mount" "fid_link fan_mount hello_fid = None" "nameable fan_batch_os fan_mount hello_fid"
  "watch_from_wd fan_mount 1 \<noteq> None" "room 2 fan_mount" "first_byte fan_mount = 0" "self_pid fan_mount = 7"
  "evbuf fan_mount = (\<lambda>_. 0)"
proof -
  let ?r = "register quiet_os 1 (Some (fsid_key_bytes hello_fid)) ''/'' 3 (machine_new ())"
  have w: "by_wd fan_mount = [(1, 1)]" "by_fid fan_mount = [(FidKey_new (fsid_key_bytes hello_fid), 1)]"
    "watches fan_mount = [1 \<mapsto> new_watch 1 (Some (fsid_key_bytes hello_fid)) ''/'' 3]"
    by (simp_all add: fan_mount_def register_def bt_get_def Let_def)
  have link: "fid_link fan_mount g =
      (if FidKey_new g = FidKey_new (fsid_key_bytes hello_fid) then Some (1, 3) else None)" for g
    by (simp add: fid_link_def watch_from_fid_def w bt_get_def new_watch_def)
  have "hdr_len (fsid_key_bytes hello_fid) = 20" "hdr_len hello_fid = 27"
    by (simp_all add: hdr_len_def fid_get_def fsid_key_bytes_def hello_fid_def le16_def)
  then have "FidKey_new hello_fid \<noteq> FidKey_new (fsid_key_bytes hello_fid)" by (simp add: FidKey_new_eq_iff)
  then show "fid_link fan_mount hello_fid = None" by (simp add: link)
  have "tells_path fan_batch_os 3 hello_fid"
    by (simp add: tells_path_def fan_batch_os_def path_os_def quiet_os_def)
  then show "nameable fan_batch_os fan_mount hello_fid" by (simp add: nameable_def fsid_key_eq link)
  have "table_inv ?r" by (rule register_inv) simp_all
  then have "table_inv fan_mount" by (simp add: fan_mount_def table_inv_def)
  moreover have "initialized fan_mount" "fanotify_mode fan_mount" "regex fan_mount = None"
    by (simp_all add: fan_mount_def register_def Let_def machine_new_def lib_new_def
        inotifytools.extend_def inotifytools.defs machine.defs)
  ultimately show "fan_ready fan_mount" by (simp add: fan_ready_def link)
  show "watch_from_wd fan_mount 1 \<noteq> None" "room 2 fan_mount"
    by (simp_all add: watch_from_wd_def w bt_get_def)
  show "first_byte fan_mount = 0" "self_pid fan_mount = 7" "evbuf fan_mount = (\<lambda>_. 0)"
    by (simp_all add: fan_mount_def register_def Let_def machine_new_def lib_new_def
        inotifytools.extend_def inotifytools.defs machine.defs)
qed

theorem fan_batch_delivered_witness:
  "\<exists>wd s'. take_events fan_batch_os 2 5 1 fan_mount =
     Some ([Some \<lparr>ev_wd = wd, ev_mask = IN_CREATE, ev_cookie = 0, ev_len = 7, ev_name = ''hello''\<rparr>], s') \<and>
     fid_wd s' hello_fid = Some wd \<and> wd \<noteq> 1"
proof -
  note st = fan_mount_facts
  have len: "length hello_fid = 27" by (simp add: hello_fid_def)
  have vs: "\<forall>r\<in>set own_then_foreign. valid_fan r \<and> nameable fan_batch_os fan_mount (fe_fid r)"
    using hello_fid_entry st(3) by (simp add: own_then_foreign_def valid_fan_def)
  then have bs: "length (encode_fan_events own_then_foreign) = 102"
    by (simp add: own_then_foreign_def length_encode_fan_event len META_LEN_def)
  have fo: "foreign fan_mount own_then_foreign = [own_then_foreign ! 1]"
    by (simp add: own_then_foreign_def own_event_def st)
  have room: "room (length own_then_foreign) fan_mount" using st(5) by (simp add: own_then_foreign_def)
  have "\<exists>s'. take_events fan_batch_os 2 5 (length (foreign fan_mount own_then_foreign)) fan_mount =
      Some (map (Some \<circ> inotify_form s') (foreign fan_mount own_then_foreign), s') \<and>
    (\<forall>r\<in>set (foreign fan_mount own_then_foreign). fid_wd s' (fe_fid r) \<noteq> None) \<and>
    fid_link fan_mount \<subseteq>\<^sub>m fid_link s' \<and>
    (\<forall>f wd. fid_wd fan_mount f = None \<longrightarrow> fid_wd s' f = Some wd \<longrightarrow> watch_from_wd fan_mount wd = None) \<and>
    rd_u32 s' (MAX_EVENTS * EVENT_SIZE + 8) = rd_u32 fan_mount (MAX_EVENTS * EVENT_SIZE + 8) \<and>
    ((\<forall>r\<in>set own_then_foreign. fid_wd fan_mount (fe_fid r) \<noteq> None) \<longrightarrow> world s' = ())"
    by (rule fan_batch_delivered [OF st(1,6) vs _ room, where rc = 1 and err = 0 and n = 102 and err' = 0
          and err'' = 0 and ?w1.0 = "()" and ?w2.0 = "()"])
      (simp_all only: fo bs, simp_all add: fan_batch_os_def path_os_def size_defs own_then_foreign_def)
  then obtain s' where s': "take_events fan_batch_os 2 5 1 fan_mount =
      Some ([Some (inotify_form s' (own_then_foreign ! 1))], s')"
    "fid_wd s' (fe_fid (own_then_foreign ! 1)) \<noteq> None"
    "\<forall>f wd. fid_wd fan_mount f = None \<longrightarrow> fid_wd s' f = Some wd \<longrightarrow> watch_from_wd fan_mount wd = None"
    "rd_u32 s' (MAX_EVENTS * EVENT_SIZE + 8) = rd_u32 fan_mount (MAX_EVENTS * EVENT_SIZE + 8)"
    unfolding fo by (auto simp del: take_events.simps)
  have hello: "fe_fid (own_then_foreign ! 1) = hello_fid" by (simp add: own_then_foreign_def)
  then obtain wd where wd: "fid_wd s' hello_fid = Some wd" using s'(2) by auto
  then have "wd \<noteq> 1" using s'(3) st(2,4) by auto
  have "fid_name_off hello_fid = 20"
    by (simp add: fid_name_off_def FID_HDR_def handle_bytes_def fid_get_def hello_fid_def le32_def)
  moreover have "rd_u32 fan_mount 65544 = 0" by (simp add: rd_u32_def rd_byte_def st le32_def)
  ultimately have "inotify_form s' (own_then_foreign ! 1) =
      \<lparr>ev_wd = wd, ev_mask = IN_CREATE, ev_cookie = 0, ev_len = 7, ev_name = ''hello''\<rparr>"
    unfolding inotify_form_def s'(4) hello wd by (simp add: own_then_foreign_def size_defs len)
  with s'(1) wd \<open>wd \<noteq> 1\<close> show ?thesis by (auto simp del: take_events.simps)
qed

end
