(* ===== verification/UnitTests.thy ===== *)
theory UnitTests
  imports WaitRun
begin

text \<open>
  The unit tests of the repository (\<open>mod tests\<close> of \<open>inotify.rs\<close> and \<open>common.rs\<close>), on the model. A
  test that fails panics; a test that makes system calls is a function of the system, and passes
  for every kernel that behaves as the test expects.
\<close>

definition asserting :: "bool \<Rightarrow> unit option" where
  "asserting b = (if b then Some () else None)"

lemma asserting_True [simp]: "asserting True = Some ()"
  by (simp add: asserting_def)

subsection \<open>Event names\<close>

definition str_to_event_matches_c_semantics :: bool where
  "str_to_event_matches_c_semantics \<longleftrightarrow>
     (let e = (\<lambda>s. str_to_event (Some s))
      in e ''open,modify,access'' = (IN_OPEN OR IN_MODIFY OR IN_ACCESS) \<and>
         e '',open,modify,access'' = 0 \<and> e ''open,modify,access,'' = 0 \<and>
         e ''open,modify,,access,close'' = 0 \<and> e ''open,mod,access,close'' = -1 \<and>
         e ''CLOSE'' = IN_CLOSE \<and> e [] = 0 \<and> str_to_event None = 0 \<and>
         str_to_event_sep (Some ''open:modify'') (CHR '':'') = (IN_OPEN OR IN_MODIFY) \<and>
         str_to_event_sep (Some ''open:modify'') (CHR ''o'') = -1 \<and>
         str_to_event_sep (Some ''open:modify'') NUL = -1)"

definition event_to_str_order_and_unknown :: "string \<Rightarrow> unit option" where
  "event_to_str_order_and_unknown buf = do {
     (t, buf) \<leftarrow> event_to_str buf (IN_OPEN OR IN_MODIFY OR IN_ACCESS);
     asserting (t = ''ACCESS,MODIFY,OPEN'');
     (t, buf) \<leftarrow> event_to_str_sep buf IN_CLOSE_WRITE (CHR ''.'');
     asserting (t = ''CLOSE_WRITE.CLOSE'');
     (t, buf) \<leftarrow> event_to_str buf 0x1000;
     asserting (t = ''0x00001000'');
     (t, buf) \<leftarrow> event_to_str buf 0;
     asserting (t = ''0x00000000'')
   }"

lemma str_to_event_test: str_to_event_matches_c_semantics
  by code_simp

lemma mask_texts:
  "mask_text (IN_OPEN OR IN_MODIFY OR IN_ACCESS) (CHR '','') = ''ACCESS,MODIFY,OPEN''"
  "mask_text IN_CLOSE_WRITE (CHR ''.'') = ''CLOSE_WRITE.CLOSE''"
  "mask_text 0x1000 (CHR '','') = ''0x00001000''" "mask_text 0 (CHR '','') = ''0x00000000''"
  "mask_text IN_ACCESS c = ''ACCESS''" "mask_text IN_MODIFY c = ''MODIFY''"
  by (simp_all add: mask_text_def names_of_def NAMES_def in_defs) code_simp+

lemma event_to_str_test:
  assumes "length buf = 1024"
  shows "event_to_str_order_and_unknown buf = Some ()"
proof -
  obtain b1 where 1: "event_to_str buf (IN_OPEN OR IN_MODIFY OR IN_ACCESS) = Some (''ACCESS,MODIFY,OPEN'', b1)"
    "length b1 = 1024"
    using event_to_str_sep_text [OF assms, of "CHR '',''" "IN_OPEN OR IN_MODIFY OR IN_ACCESS"]
    by (auto simp: event_to_str_def mask_texts)
  obtain b2 where 2: "event_to_str_sep b1 IN_CLOSE_WRITE (CHR ''.'') = Some (''CLOSE_WRITE.CLOSE'', b2)"
    "length b2 = 1024"
    using event_to_str_sep_text [OF 1(2), of "CHR ''.''" IN_CLOSE_WRITE] by (auto simp: mask_texts)
  obtain b3 where 3: "event_to_str b2 0x1000 = Some (''0x00001000'', b3)" "length b3 = 1024"
    using event_to_str_sep_text [OF 2(2), of "CHR '',''" "0x1000"] by (auto simp: event_to_str_def mask_texts)
  obtain b4 where 4: "event_to_str b3 0 = Some (''0x00000000'', b4)"
    using event_to_str_sep_text [OF 3(2), of "CHR '',''" 0] by (auto simp: event_to_str_def mask_texts)
  show ?thesis by (simp add: event_to_str_order_and_unknown_def 1 2 3 4)
qed

subsection \<open>Base names and file lists\<close>

definition posix_basename :: bool where
  "posix_basename \<longleftrightarrow>
     basename [] = ''.'' \<and> basename ''/'' = ''/'' \<and> basename ''///'' = ''/'' \<and>
     basename ''/usr/bin/inotifywait'' = ''inotifywait'' \<and>
     basename ''../../src/fsnotifywait/'' = ''fsnotifywait'' \<and>
     basename ''inotifywatch'' = ''inotifywatch'' \<and>
     invoked_as_fsnotify (Some ''/usr/bin/fsnotifywait'') \<and>
     \<not> invoked_as_fsnotify (Some ''/usr/bin/inotifywait'') \<and> \<not> invoked_as_fsnotify None"

definition csv_like_file_list :: "'w os \<Rightarrow> nat \<Rightarrow> 'w machine \<Rightarrow> unit option" where
  "csv_like_file_list os fuel s = do {
     (l, s) \<leftarrow> construct_path_list os fuel [''a'', ''@b'', ''@'', [], ''c''] None s;
     l \<leftarrow> l;
     asserting (fl_watch l = [''a'', ''c'']);
     asserting (fl_exclude l = [''b''])
   }"

lemma basename_test: posix_basename
  by code_simp

lemma file_list_test: "csv_like_file_list os fuel s = Some ()"
  by (simp add: csv_like_file_list_def construct_path_list_def file_list_add_def no_files_def
      watch_more_def exclude_more_def)

subsection \<open>Formatting\<close>

text \<open>The directory \<open>dirb\<close> is the test's temporary directory.\<close>

definition snprintf_formats_and_truncates :: "'w os \<Rightarrow> string \<Rightarrow> 'w \<Rightarrow> unit option" where
  "snprintf_formats_and_truncates os dirb w =
     (let (ok, lib) = initialize os (machine_new w)
      in do {
        asserting ok;
        (ok, lib) \<leftarrow> watch_file os dirb IN_CLOSE lib;
        if \<not> ok then asserting (error lib = ENOSPC)
        else do {
          let watched = dirb @ ''/'';
          (wd, lib) \<leftarrow> wd_from_filename watched lib;
          asserting (0 < wd);
          (name, lib) \<leftarrow> filename_from_wd os wd lib;
          asserting (name = watched);
          let ev = event_default\<lparr>ev_wd := wd, ev_mask := IN_ACCESS\<rparr>;
          ((_, out), lib) \<leftarrow> snprintf os NString_new (int MAX_STRLEN) ev (Some ''Event %e %.e on %w %f %T'') lib;
          asserting (as_bytes out = ''Event ACCESS ACCESS on '' @ watched @ ''  '');
          let ev = ev\<lparr>ev_mask := IN_MODIFY\<rparr>;
          ((_, out), lib) \<leftarrow> snprintf os NString_new 10 ev (Some ''Event %e %.e on %w %f %T'') lib;
          asserting (map (ns_buf out) [0..<10] = ''Event MODI'');
          let ev = ev\<lparr>ev_name := ''my_great_file'', ev_len := 14, ev_mask := IN_ACCESS\<rparr>;
          ((_, out), lib) \<leftarrow> snprintf os NString_new (int MAX_STRLEN) ev (Some ''%w%f|%c|%%|%n'') lib;
          asserting (as_bytes out = watched @ ''my_great_file|0|%|'' @ nl);
          ((ret, _), lib) \<leftarrow> snprintf os NString_new 100 ev (Some []) lib;
          asserting (ret = -1);
          asserting (error lib = EINVAL);
          asserting (get_num_watches lib = 1);
          (removed, lib) \<leftarrow> remove_watch_by_filename os watched lib;
          asserting removed;
          asserting (get_num_watches lib = 0);
          (wd, lib) \<leftarrow> wd_from_filename watched lib;
          asserting (wd = -1);
          let lib = cleanup os lib;
          Some ()
        }
      })"

text \<open>A format cut off inside a directive.\<close>

lemma snprintf_cut:
  assumes t: "inotify_table s" and mask: "ev_mask ev = IN_MODIFY"
  shows "\<exists>ret out s'. snprintf os NString_new 10 ev (Some ''Event %e %.e on %w %f %T'') s = Some ((ret, out), s') \<and>
    map (ns_buf out) [0..<10] = ''Event MODI'' \<and> formats s s'"
proof -
  let ?p = "inotify_path s ev" and ?rest = "''%e %.e on %w %f %T''"
  have evstr: "length (evstr s) = 1024" using t by (simp add: inotify_table_def)
  from fmt_loop_literal [of 10 "''Event ''" 0 "ns_buf NString_new" os ev ?p ?rest s] obtain buf where
    b: "wrote (ns_buf NString_new) 0 ''Event '' buf"
      "fmt_loop os 10 ev ?p (''Event '' @ ?rest) 0 (ns_buf NString_new) s = fmt_loop os 10 ev ?p ?rest 6 buf s"
    by (auto simp: MAX_STRLEN_def eval_nat_numeral)
  from mask_to_str_total [OF evstr, of IN_MODIFY "CHR '',''"] obtain u where
    u: "mask_to_str IN_MODIFY (CHR '','') s = Some (''MODIFY'', u)" "formats s u" by (auto simp: mask_texts)
  have "fmt_loop os 10 ev ?p ?rest 6 buf s = Some (Inr 12, strncpy buf 6 ''MODIFY'' 4, u)"
    by (subst fmt_loop.simps) (simp add: fmt_directive_def u mask u32_add_def, subst fmt_loop.simps, simp)
  then have "snprintf os NString_new 10 ev (Some ''Event %e %.e on %w %f %T'') s =
      Some ((11, \<lparr>ns_buf = strncpy buf 6 ''MODIFY'' 4, ns_len = 12\<rparr>), u)"
    using b(2) filename_from_event_inotify [OF t, of os ev]
    by (simp add: snprintf_def MAX_STRLEN_def wrap32_def)
  moreover have "map (strncpy buf 6 ''MODIFY'' 4) [0..<10] = ''Event MODI''"
  proof -
    have "[0..<10 :: nat] = [0, 1, 2, 3, 4, 5, 6, 7, 8, 9]" by code_simp
    moreover have "buf 0 = CHR ''E''" "buf (Suc 0) = CHR ''v''" "buf 2 = CHR ''e''" "buf 3 = CHR ''n''"
      "buf 4 = CHR ''t''" "buf 5 = CHR '' ''"
      using b(1) by (auto simp: wrote_def All_less_Suc eval_nat_numeral)
    ultimately show ?thesis by (simp add: strncpy_def MAX_STRLEN_def)
  qed
  ultimately show ?thesis using u(2) by auto
qed

lemma settings_timefmt: "settings t = settings s \<Longrightarrow> timefmt t = timefmt s"
  by (auto simp: settings_def inotifytools.truncate_def)

text \<open>The watch of the test, and what formatting leaves of it.\<close>

definition test_watch :: "string \<Rightarrow> int \<Rightarrow> int \<Rightarrow> nat \<Rightarrow> 'w machine \<Rightarrow> bool" where
  "test_watch name d wd n s \<longleftrightarrow> inotify_table s \<and> fd s = d \<and> timefmt s = None \<and>
     by_filename s = [(name, n)] \<and> watches s n = Some (new_watch wd None name 0) \<and> wd_path s wd = name"

lemma test_watch_formats: "formats s t \<Longrightarrow> test_watch name d wd n s \<Longrightarrow> test_watch name d wd n t"
  using formats_reader(1,3) [of s t] wd_path_same [of t s] by (simp add: test_watch_def formats_fields)

lemma test_watch_lookup:
  assumes "test_watch name d wd n s" and "name \<noteq> []" and "cstring name = name"
  shows "wd_from_filename name s = Some (wd, s)" "get_num_watches s = 1" "filename_from_wd os wd s = Some (name, s)"
  using assms filename_from_wd_plain [of s os wd]
  by (auto simp: test_watch_def wd_from_filename_def watch_from_filename_def bt_get_def watch_at_def
      get_num_watches_def wrap32_def inotify_table_def)

lemma test_watch_snprintf:
  assumes w: "test_watch name d wd n s" and wd: "ev_wd ev = wd"
    and fmt: "fmt \<noteq> []" "NUL \<notin> set fmt" "length fmt \<le> MAX_STRLEN"
    and x: "fmt_reference os ev (inotify_path s ev) None fmt (world s) = Some x" and fits: "length x < MAX_STRLEN"
  shows "\<exists>ret out t. snprintf os NString_new (int MAX_STRLEN) ev (Some fmt) s = Some ((ret, out), t) \<and>
    as_bytes out = x \<and> test_watch name d wd n t"
proof -
  have t: "inotify_table s" "table_inv s" "initialized s" "length (evstr s) = 1024" "timefmt s = None"
    using w by (simp_all add: test_watch_def inotify_table_def)
  from snprintf_reference [OF t(2-4) filename_from_event_inotify [OF t(1)] fmt order_refl, of os ev x NString_new] x fits t(5)
  show ?thesis using test_watch_formats [OF _ w] by fastforce
qed

lemma remove_test_watch:
  assumes w: "test_watch name d wd n s" and name: "name \<noteq> []" "cstring name = name"
    and rm: "\<forall>w. \<exists>e w'. os_inotify_rm_watch os d wd w = ((0, e), w')"
  shows "\<exists>t. remove_watch_by_filename os name s = Some (True, t) \<and> get_num_watches t = 0 \<and>
    wd_from_filename name t = Some (-1, t)"
proof -
  have s: "initialized s" "fd s = d" "by_filename s = [(name, n)]" "watches s n = Some (new_watch wd None name 0)"
    using w by (simp_all add: test_watch_def inotify_table_def)
  from rm obtain e w' where "os_inotify_rm_watch os d wd (world s) = ((0, e), w')" by blast
  with s name show ?thesis
    by (auto simp: remove_watch_by_filename_def remove_watch_def remove_inotify_watch_def watch_at_def sys_def
        watch_from_filename_def bt_get_def destroy_watch_def drop_watch_def bt_remove_def get_num_watches_def
        wrap32_def wd_from_filename_def)
qed

lemma snprintf_test:
  assumes init: "os_inotify_init os w = ((d, e), w1)" "0 \<le> d"
    and watch: "watchable os (\<lambda>_ _. True) d IN_CLOSE (\<lambda>_. wd) (\<lambda>_. True) dirb"
    and rm: "\<forall>w. \<exists>e w'. os_inotify_rm_watch os d wd w = ((0, e), w')"
    and dirb: "dirb \<noteq> []" "NUL \<notin> set dirb" "last dirb \<noteq> CHR ''/''" "length dirb < 4000"
  shows "snprintf_formats_and_truncates os dirb w = Some ()"
proof -
  let ?name = "dirb @ ''/''"
  have name: "watched_name (\<lambda>_. True) dirb = ?name" "?name \<noteq> []" "cstring ?name = ?name"
    using dirb(1-3) by (simp_all add: watched_name_def cstring_id)
  obtain s where s: "initialize os (machine_new w) = (True, s)" "inotify_table s" "fd s = d" "by_filename s = []"
    "by_wd s = []" "timefmt s = None"
    using init by (simp add: initialize_def init_def sys_def inotify_table_def table_inv_def wd_ix.points_def
        fid_ix.points_def name_ix.points_def)
  have wd: "0 < wd" using watch by (simp add: watchable_def)
  from watch_file_registers [OF s(2), of os "\<lambda>_ _. True" IN_CLOSE "\<lambda>_. wd" "\<lambda>_. True" dirb] watch s(3) obtain u where
    u: "watch_file os dirb IN_CLOSE s = Some (True, register os wd None ?name 0 u)" "inotify_table u" "set_up s u"
      "watch_from_wd u = watch_from_wd s" "by_filename u = by_filename s" by (auto simp: name)
  let ?t = "register os wd None ?name 0 u"
  note reg = inotify_register [OF u(2) wd name(3), of os]
  have set: "settings ?t = settings s" using reg(4) u(3) by (simp add: set_up_def)
  have names: "by_filename ?t = [(?name, next_id u)]"
    using u(5) s(4) name(3) by (simp add: register_def Let_def drop_watch_def)
  have free: "watch_from_wd u wd = None" using u(4) s(5) by (simp add: watch_from_wd_def)
  have w: "test_watch ?name d wd (next_id u) ?t"
    using reg(1,2) free settings_sel [OF set] settings_timefmt [OF set] s(3,6) names register_stored [of u wd ?name os None 0]
    by (simp add: test_watch_def watch_from_wd_def)
  define ev1 where "ev1 = event_default\<lparr>ev_wd := wd, ev_mask := IN_ACCESS\<rparr>"
  define ev2 where "ev2 = event_default\<lparr>ev_wd := wd, ev_mask := IN_MODIFY\<rparr>"
  define ev3 where "ev3 = event_default\<lparr>ev_wd := wd, ev_name := ''my_great_file'', ev_len := 14, ev_mask := IN_ACCESS\<rparr>"
  let ?x1 = "''Event ACCESS ACCESS on '' @ ?name @ ''  ''" and ?x3 = "?name @ ''my_great_file|0|%|'' @ nl"
  have "fmt_reference os ev1 (inotify_path ?t ev1) None ''Event %e %.e on %w %f %T'' (world ?t) = Some ?x1"
    using w by (simp add: test_watch_def inotify_path_def ev1_def fmt_piece_def mask_texts ep_dirname_def event_default_def)
  from test_watch_snprintf [OF w _ _ _ _ this] obtain ret1 out1 t1 where
    1: "snprintf os NString_new (int MAX_STRLEN) ev1 (Some ''Event %e %.e on %w %f %T'') ?t = Some ((ret1, out1), t1)"
      "as_bytes out1 = ?x1" and w1: "test_watch ?name d wd (next_id u) t1"
    using dirb(4) by (auto simp: ev1_def MAX_STRLEN_def)
  have "inotify_table t1" using w1 by (simp add: test_watch_def)
  from snprintf_cut [OF this, of ev2 os] obtain ret2 out2 t2 where
    2: "snprintf os NString_new 10 ev2 (Some ''Event %e %.e on %w %f %T'') t1 = Some ((ret2, out2), t2)"
      "map (ns_buf out2) [0..<10] = ''Event MODI''" and w2: "test_watch ?name d wd (next_id u) t2"
    using test_watch_formats [OF _ w1] by (auto simp: ev2_def)
  have "show_hex 0 = ''0''" by code_simp
  then have "fmt_reference os ev3 (inotify_path t2 ev3) None ''%w%f|%c|%%|%n'' (world t2) = Some ?x3"
    using w2 by (simp add: test_watch_def inotify_path_def ev3_def fmt_piece_def ep_dirname_def event_default_def)
  from test_watch_snprintf [OF w2 _ _ _ _ this] obtain ret3 out3 t3 where
    3: "snprintf os NString_new (int MAX_STRLEN) ev3 (Some ''%w%f|%c|%%|%n'') t2 = Some ((ret3, out3), t3)"
      "as_bytes out3 = ?x3" and w3: "test_watch ?name d wd (next_id u) t3"
    using dirb(4) by (auto simp: ev3_def MAX_STRLEN_def)
  from snprintf_total [of t3 os NString_new 100 ev3 "Some []"] w3 obtain out4 t4 where
    4: "snprintf os NString_new 100 ev3 (Some []) t3 = Some ((-1, out4), t4)" "error t4 = EINVAL"
    and w4: "test_watch ?name d wd (next_id u) t4"
    using test_watch_formats [OF _ w3] by (auto simp: test_watch_def inotify_table_def)
  from remove_test_watch [OF w4 name(2,3) rm] obtain t5 where
    5: "remove_watch_by_filename os ?name t4 = Some (True, t5)" "get_num_watches t5 = 0"
      "wd_from_filename ?name t5 = Some (-1, t5)" by blast
  note look = test_watch_lookup [OF w name(2,3)] test_watch_lookup(2) [OF w4 name(2,3)]
  show ?thesis
    unfolding snprintf_formats_and_truncates_def Let_def s(1) prod.case
    by (simp add: u(1) look wd 1 [unfolded ev1_def] 2 [unfolded ev2_def]
        3 [unfolded ev3_def] 4 [unfolded ev3_def] 5)
qed

subsection \<open>All tests\<close>

text \<open>C37.
  The repository's own unit tests pass on the model: parsing and printing event names, base names,
  file lists, and the test that initialises the library, watches a directory, formats events of it
  into a full and into a short buffer, gives an invalid format, and removes the watch; the latter
  for every kernel that grants the instance, the watch and its removal.\<close>

theorem unit_tests_pass:
  assumes init: "os_inotify_init os w = ((d, e), w1)" "0 \<le> d"
    and watch: "watchable os (\<lambda>_ _. True) d IN_CLOSE (\<lambda>_. wd) (\<lambda>_. True) dirb"
    and rm: "\<forall>w. \<exists>e w'. os_inotify_rm_watch os d wd w = ((0, e), w')"
    and dirb: "dirb \<noteq> []" "NUL \<notin> set dirb" "last dirb \<noteq> CHR ''/''" "length dirb < 4000"
    and buf: "length buf = 1024"
  shows "str_to_event_matches_c_semantics \<and> event_to_str_order_and_unknown buf = Some () \<and>
    posix_basename \<and> csv_like_file_list os fuel s = Some () \<and>
    snprintf_formats_and_truncates os dirb w = Some ()"
  using str_to_event_test event_to_str_test [OF buf] basename_test file_list_test
    snprintf_test [OF init watch rm dirb] by blast

definition test_os :: "unit os" where
  "test_os = quiet_os\<lparr>os_lstat := (\<lambda>_ w. ((0, 0, S_IFDIR), w))\<rparr>"

theorem unit_tests_pass_witness:
  "snprintf_formats_and_truncates test_os ''/tmp/inotifytools_rs_test_1'' () = Some ()"
proof -
  let ?d = "''/tmp/inotifytools_rs_test_1''"
  have init: "os_inotify_init test_os () = ((3, 0), ())" "(0 :: int) \<le> 3"
    by (simp_all add: test_os_def quiet_os_def)
  have watch: "watchable test_os (\<lambda>_ _. True) 3 IN_CLOSE (\<lambda>_. 1) (\<lambda>_. True) ?d"
    by (simp add: watchable_def test_os_def quiet_os_def S_IFDIR_def S_IFMT_def)
  have rm: "\<forall>w. \<exists>e w'. os_inotify_rm_watch test_os 3 1 w = ((0, e), w')"
    by (simp add: test_os_def quiet_os_def)
  have dirb: "?d \<noteq> []" "NUL \<notin> set ?d" "last ?d \<noteq> CHR ''/''" "length ?d < 4000" by simp_all
  have buf: "length (replicate 1024 NUL) = 1024" by simp
  from unit_tests_pass [OF init watch rm dirb buf] show ?thesis by blast
qed

end
