(* ===== verification/Capi.thy ===== *)
theory Capi
  imports TreeWalk Reader
begin

text \<open>
  The C interface (\<open>ffi.rs\<close>): each function converts its arguments and calls the library on the
  one global instance. The instance is made by the first call, so the state before any call is the
  one of a new instance, \<open>machine_new\<close>. A pointer that may be null is an option; a C string is the
  text in memory, of which the callee sees what is before the first NUL; a returned pointer is the
  text it points at. Results stored through pointers are part of the result.
\<close>

subsection \<open>Conversions\<close>

definition opt_bytes :: "string option \<Rightarrow> string option" where
  "opt_bytes s = map_option cstring s"

definition c_bytes :: "string option \<Rightarrow> string" where
  "c_bytes s = (case opt_bytes s of Some t \<Rightarrow> t | None \<Rightarrow> [])"

definition c_int :: "bool \<Rightarrow> int" where
  "c_int b = (if b then 1 else 0)"

text \<open>A \<open>struct inotify_event\<close>; the name is read as a C string when \<open>len\<close> is not 0.\<close>

definition event_from_c :: "event option \<Rightarrow> event" where
  "event_from_c ev =
     (case ev of
        None \<Rightarrow> event_default
      | Some e \<Rightarrow> e\<lparr>ev_name := (if ev_len e > 0 then cstring (ev_name e) else [])\<rparr>)"

text \<open>A list of strings that ends at the first null pointer.\<close>

definition str_list :: "string option list option \<Rightarrow> string list" where
  "str_list l =
     (case l of None \<Rightarrow> [] | Some ps \<Rightarrow> map (\<lambda>p. cstring (the p)) (takeWhile (\<lambda>p. p \<noteq> None) ps))"

text \<open>A copy made with \<open>malloc\<close>; \<open>alloc\<close> says which sizes can be had.\<close>

definition malloc_cstr :: "(nat \<Rightarrow> bool) \<Rightarrow> string \<Rightarrow> string option" where
  "malloc_cstr alloc b = (if alloc (length b + 1) then Some (cstring b) else None)"

subsection \<open>Names of events\<close>

definition inotifytools_str_to_event :: "string option \<Rightarrow> u32" where
  "inotifytools_str_to_event event = str_to_event (opt_bytes event)"

definition inotifytools_str_to_event_sep :: "string option \<Rightarrow> char \<Rightarrow> u32" where
  "inotifytools_str_to_event_sep event sep = str_to_event_sep (opt_bytes event) sep"

definition inotifytools_event_to_str :: "u32 \<Rightarrow> 'w machine \<Rightarrow> (string \<times> 'w machine) option" where
  "inotifytools_event_to_str events s = mask_to_str events (CHR '','') s"

definition inotifytools_event_to_str_sep :: "u32 \<Rightarrow> char \<Rightarrow> 'w machine \<Rightarrow> (string \<times> 'w machine) option" where
  "inotifytools_event_to_str_sep events sep s = mask_to_str events sep s"

subsection \<open>Names of files\<close>

definition inotifytools_set_filename_by_wd :: "int \<Rightarrow> string option \<Rightarrow> 'w machine \<Rightarrow> 'w machine option" where
  "inotifytools_set_filename_by_wd wd filename s =
     (if filename = None then Some s else set_filename_by_wd wd (c_bytes filename) s)"

definition inotifytools_set_filename_by_filename ::
  "string option \<Rightarrow> string option \<Rightarrow> 'w machine \<Rightarrow> 'w machine option" where
  "inotifytools_set_filename_by_filename oldname newname s =
     (if oldname = None \<or> newname = None then Some s
      else set_filename_by_filename (c_bytes oldname) (c_bytes newname) s)"

definition inotifytools_replace_filename ::
  "string option \<Rightarrow> string option \<Rightarrow> 'w machine \<Rightarrow> 'w machine option" where
  "inotifytools_replace_filename oldname newname s =
     (if oldname = None \<or> newname = None then Some s
      else replace_filename (c_bytes oldname) (c_bytes newname) s)"

definition inotifytools_dirname_from_event ::
  "'w os \<Rightarrow> event option \<Rightarrow> 'w machine \<Rightarrow> ((string \<times> nat) \<times> 'w machine) option" where
  "inotifytools_dirname_from_event os event s = dirname_from_event os (ev_wd (event_from_c event)) s"

text \<open>The file name of the event is in the path, or behind the event.\<close>

definition inotifytools_filename_from_event ::
  "'w os \<Rightarrow> event option \<Rightarrow> 'w machine \<Rightarrow> ((string \<times> string \<times> nat) \<times> 'w machine) option" where
  "inotifytools_filename_from_event os event s = do {
     let ev = event_from_c event;
     let name = (if event \<noteq> None \<and> ev_len ev > 0 then ev_name ev else []);
     ((f, dl, off), s) \<leftarrow> filename_from_event_ptr os (ev_wd ev) s;
     Some ((f, case off of Some k \<Rightarrow> drop k f | None \<Rightarrow> name, dl), s)
   }"

definition inotifytools_dirpath_from_event ::
  "'w os \<Rightarrow> (nat \<Rightarrow> bool) \<Rightarrow> event option \<Rightarrow> 'w machine \<Rightarrow> (string option \<times> 'w machine) option" where
  "inotifytools_dirpath_from_event os alloc event s = do {
     (p, s) \<leftarrow> dirpath_from_event os (event_from_c event) s;
     Some (case p of Some p \<Rightarrow> malloc_cstr alloc p | None \<Rightarrow> None, s)
   }"

definition inotifytools_filename_from_watch ::
  "'w os \<Rightarrow> nat option \<Rightarrow> 'w machine \<Rightarrow> (string \<times> 'w machine) option" where
  "inotifytools_filename_from_watch os w s = filename_from_watch_ptr os w s"

definition inotifytools_filename_from_wd :: "'w os \<Rightarrow> int \<Rightarrow> 'w machine \<Rightarrow> (string \<times> 'w machine) option" where
  "inotifytools_filename_from_wd os wd s = filename_from_wd os wd s"

definition inotifytools_wd_from_filename :: "string option \<Rightarrow> 'w machine \<Rightarrow> (int \<times> 'w machine) option" where
  "inotifytools_wd_from_filename filename s = wd_from_filename (c_bytes filename) s"

subsection \<open>Watches\<close>

definition inotifytools_remove_watch_by_filename ::
  "'w os \<Rightarrow> string option \<Rightarrow> 'w machine \<Rightarrow> (int \<times> 'w machine) option" where
  "inotifytools_remove_watch_by_filename os filename s =
     map_option (apfst c_int) (remove_watch_by_filename os (c_bytes filename) s)"

definition inotifytools_remove_watch_by_wd :: "'w os \<Rightarrow> int \<Rightarrow> 'w machine \<Rightarrow> (int \<times> 'w machine) option" where
  "inotifytools_remove_watch_by_wd os wd s = map_option (apfst c_int) (remove_watch_by_wd os wd s)"

definition inotifytools_watch_files ::
  "'w os \<Rightarrow> string option list option \<Rightarrow> u32 \<Rightarrow> 'w machine \<Rightarrow> (int \<times> 'w machine) option" where
  "inotifytools_watch_files os filenames events s =
     map_option (apfst c_int) (watch_files os (str_list filenames) events s)"

definition inotifytools_watch_file ::
  "'w os \<Rightarrow> string option \<Rightarrow> u32 \<Rightarrow> 'w machine \<Rightarrow> (int \<times> 'w machine) option" where
  "inotifytools_watch_file os filename events s =
     inotifytools_watch_files os (Some [filename, None]) events s"

definition inotifytools_watch_recursively_with_exclude ::
  "'w os \<Rightarrow> nat \<Rightarrow> string option \<Rightarrow> u32 \<Rightarrow> string option list option \<Rightarrow> 'w machine \<Rightarrow>
     (int \<times> 'w machine) option" where
  "inotifytools_watch_recursively_with_exclude os fuel path events exclude_list s =
     (if path = None
      then map_option (\<lambda>(ok, s). (0, s)) (watch_recursively_with_exclude os fuel [] events [] s)
      else map_option (apfst c_int)
             (watch_recursively_with_exclude os fuel (c_bytes path) events (str_list exclude_list) s))"

definition inotifytools_watch_recursively ::
  "'w os \<Rightarrow> nat \<Rightarrow> string option \<Rightarrow> u32 \<Rightarrow> 'w machine \<Rightarrow> (int \<times> 'w machine) option" where
  "inotifytools_watch_recursively os fuel path events s =
     inotifytools_watch_recursively_with_exclude os fuel path events None s"

definition inotifytools_get_num_watches :: "'w machine \<Rightarrow> int" where
  "inotifytools_get_num_watches s = get_num_watches s"

subsection \<open>Filters, events, statistics\<close>

definition inotifytools_ignore_events_by_regex ::
  "'w os \<Rightarrow> string option \<Rightarrow> int \<Rightarrow> int \<Rightarrow> 'w machine \<Rightarrow> int \<times> 'w machine" where
  "inotifytools_ignore_events_by_regex os pattern flags recursive s =
     apfst c_int (ignore_events_by_regex os (opt_bytes pattern) flags recursive s)"

definition inotifytools_ignore_events_by_inverted_regex ::
  "'w os \<Rightarrow> string option \<Rightarrow> int \<Rightarrow> int \<Rightarrow> 'w machine \<Rightarrow> int \<times> 'w machine" where
  "inotifytools_ignore_events_by_inverted_regex os pattern flags recursive s =
     apfst c_int (ignore_events_by_inverted_regex os (opt_bytes pattern) flags recursive s)"

definition inotifytools_next_events ::
  "'w os \<Rightarrow> nat \<Rightarrow> int \<Rightarrow> int \<Rightarrow> 'w machine \<Rightarrow> (event option \<times> 'w machine) option" where
  "inotifytools_next_events os fuel timeout num_events s = do {
     (ok, s) \<leftarrow> next_events_raw os fuel timeout num_events s;
     Some (if ok then Some (current_event s) else None, s)
   }"

definition inotifytools_next_event ::
  "'w os \<Rightarrow> nat \<Rightarrow> int \<Rightarrow> 'w machine \<Rightarrow> (event option \<times> 'w machine) option" where
  "inotifytools_next_event os fuel timeout s =
     inotifytools_next_events os fuel (if timeout = 0 then -1 else timeout) 1 s"

definition inotifytools_error :: "'w machine \<Rightarrow> int" where
  "inotifytools_error s = error s"

definition inotifytools_get_stat_by_wd :: "int \<Rightarrow> u32 \<Rightarrow> 'w machine \<Rightarrow> int option" where
  "inotifytools_get_stat_by_wd wd event s = get_stat_by_wd wd event s"

definition inotifytools_get_stat_total :: "u32 \<Rightarrow> 'w machine \<Rightarrow> int" where
  "inotifytools_get_stat_total event s = get_stat_total event s"

definition inotifytools_get_stat_by_filename ::
  "string option \<Rightarrow> u32 \<Rightarrow> 'w machine \<Rightarrow> (int \<times> 'w machine) option" where
  "inotifytools_get_stat_by_filename filename event s = get_stat_by_filename (c_bytes filename) event s"

definition inotifytools_initialize_stats :: "'w machine \<Rightarrow> 'w machine" where
  "inotifytools_initialize_stats s = initialize_stats s"

subsection \<open>Set-up\<close>

definition inotifytools_initialize :: "'w os \<Rightarrow> 'w machine \<Rightarrow> int \<times> 'w machine" where
  "inotifytools_initialize os s = apfst c_int (initialize os s)"

definition inotifytools_init :: "'w os \<Rightarrow> int \<Rightarrow> int \<Rightarrow> int \<Rightarrow> 'w machine \<Rightarrow> int \<times> 'w machine" where
  "inotifytools_init os fanotify watch_filesystem verbose s =
     apfst c_int (init os (fanotify \<noteq> 0) (watch_filesystem \<noteq> 0) verbose s)"

definition inotifytools_cleanup :: "'w os \<Rightarrow> 'w machine \<Rightarrow> 'w machine" where
  "inotifytools_cleanup os s = cleanup os s"

subsection \<open>Formatting\<close>

text \<open>A stream is given by how text is written to it.\<close>

definition inotifytools_fprintf ::
  "'w os \<Rightarrow> (string \<Rightarrow> 'w machine \<Rightarrow> 'w machine) \<Rightarrow> event option \<Rightarrow> string option \<Rightarrow> 'w machine \<Rightarrow>
     (int \<times> 'w machine) option" where
  "inotifytools_fprintf os file event fmt s = fprintf_to os file (event_from_c event) (opt_bytes fmt) s"

definition inotifytools_printf ::
  "'w os \<Rightarrow> event option \<Rightarrow> string option \<Rightarrow> 'w machine \<Rightarrow> (int \<times> 'w machine) option" where
  "inotifytools_printf os event fmt s = inotifytools_fprintf os cprint event fmt s"

definition inotifytools_snprintf ::
  "'w os \<Rightarrow> nstring option \<Rightarrow> int \<Rightarrow> event option \<Rightarrow> string option \<Rightarrow> 'w machine \<Rightarrow>
     ((int \<times> nstring option) \<times> 'w machine) option" where
  "inotifytools_snprintf os out sz event fmt s =
     (case out of
        None \<Rightarrow> Some ((-1, None), s)
      | Some out \<Rightarrow>
          map_option (apfst (apsnd Some)) (snprintf os out sz (event_from_c event) (opt_bytes fmt) s))"

definition inotifytools_sprintf ::
  "'w os \<Rightarrow> nstring option \<Rightarrow> event option \<Rightarrow> string option \<Rightarrow> 'w machine \<Rightarrow>
     ((int \<times> nstring option) \<times> 'w machine) option" where
  "inotifytools_sprintf os out event fmt s = inotifytools_snprintf os out (int MAX_STRLEN) event fmt s"

definition inotifytools_set_printf_timefmt :: "string option \<Rightarrow> 'w machine \<Rightarrow> 'w machine" where
  "inotifytools_set_printf_timefmt fmt s =
     set_printf_timefmt (case opt_bytes fmt of Some f \<Rightarrow> f | None \<Rightarrow> ''(null)'') s"

definition inotifytools_clear_timefmt :: "'w machine \<Rightarrow> 'w machine" where
  "inotifytools_clear_timefmt s = clear_timefmt s"

subsection \<open>Limits\<close>

definition inotifytools_get_max_user_watches :: "'w os \<Rightarrow> 'w machine \<Rightarrow> int \<times> 'w machine" where
  "inotifytools_get_max_user_watches os s = get_max_user_watches os s"

definition inotifytools_get_max_user_instances :: "'w os \<Rightarrow> 'w machine \<Rightarrow> int \<times> 'w machine" where
  "inotifytools_get_max_user_instances os s = get_max_user_instances os s"

definition inotifytools_get_max_queued_events :: "'w os \<Rightarrow> 'w machine \<Rightarrow> int \<times> 'w machine" where
  "inotifytools_get_max_queued_events os s = get_max_queued_events os s"

end
