(* ===== verification/Library.thy ===== *)
theory Library
  imports Capi
begin

text \<open>
  The library as a state machine: a program that uses it through the C interface calls one function
  after the other, in any order, while the system around it does as it likes. Whatever the kernel
  answers, the table of watches stays well formed.
\<close>

subsection \<open>The invariant and what leaves it alone\<close>

definition lib_ok :: "'w machine \<Rightarrow> bool" where
  "lib_ok s \<longleftrightarrow> table_inv s \<and> length (evstr s) = 1024"

lemma lib_ok_new [simp]: "lib_ok (machine_new w)"
  by (simp add: lib_ok_def)

lemma lib_ok_update [simp]:
  "lib_ok (s\<lparr>error := e\<rparr>) = lib_ok s" "lib_ok (s\<lparr>world := x\<rparr>) = lib_ok s"
  "lib_ok (s\<lparr>c_stderr := m\<rparr>) = lib_ok s" "lib_ok (s\<lparr>c_stdout := m\<rparr>) = lib_ok s"
  "lib_ok (s\<lparr>fidname := m\<rparr>) = lib_ok s" "lib_ok (s\<lparr>print_out := q\<rparr>) = lib_ok s"
  "lib_ok (s\<lparr>first_byte := i\<rparr>) = lib_ok s" "lib_ok (s\<lparr>bytes := i\<rparr>) = lib_ok s"
  "lib_ok (s\<lparr>this_bytes := i\<rparr>) = lib_ok s" "lib_ok (s\<lparr>ret_off := n\<rparr>) = lib_ok s"
  "lib_ok (s\<lparr>evbuf := f\<rparr>) = lib_ok s" "lib_ok (s\<lparr>regex := r\<rparr>) = lib_ok s"
  "lib_ok (s\<lparr>invert_regexp := b\<rparr>) = lib_ok s" "lib_ok (s\<lparr>recursive_watch := i\<rparr>) = lib_ok s"
  "lib_ok (s\<lparr>timefmt := t\<rparr>) = lib_ok s" "lib_ok (s\<lparr>collect_stats := b\<rparr>) = lib_ok s"
  "lib_ok (s\<lparr>totals := ts\<rparr>) = lib_ok s" "lib_ok (s\<lparr>initialized := b\<rparr>) = lib_ok s"
  "lib_ok (s\<lparr>fd := i\<rparr>) = lib_ok s" "lib_ok (s\<lparr>verbosity := i\<rparr>) = lib_ok s"
  "lib_ok (s\<lparr>self_pid := i\<rparr>) = lib_ok s" "lib_ok (s\<lparr>fanotify_mode := b\<rparr>) = lib_ok s"
  "lib_ok (s\<lparr>fanotify_mark_type := u\<rparr>) = lib_ok s"
  by (simp_all add: lib_ok_def table_inv_def)

lemma lib_ok_effects [simp]:
  "lib_ok (ceprint m s) = lib_ok s" "lib_ok (cprint m s) = lib_ok s" "lib_ok (set_error e s) = lib_ok s"
  "lib_ok (sysw c s) = lib_ok s" "lib_ok (nice_fail n cond m s) = lib_ok s"
  "lib_ok (niceassert b n cond m s) = lib_ok s" "lib_ok (assert_init s) = lib_ok s"
  "lib_ok (wr_bytes i bs s) = lib_ok s" "lib_ok (wr_u32 i v s) = lib_ok s" "lib_ok (drop_watch os w s) = lib_ok s"
  by (simp_all add: ceprint_def cprint_def set_error_def sysw_def nice_fail_def Let_def niceassert_def
      assert_init_def wr_bytes_def wr_u32_def drop_watch_def)

lemma lib_ok_sys: "sys c s = (r, t) \<Longrightarrow> lib_ok t = lib_ok s"
  by (auto simp: sys_def split: prod.splits)

lemma lib_ok_resolves: "resolves s t \<Longrightarrow> lib_ok t = lib_ok s"
  using resolves_inv [of s t] resolves_fields(21) [of s t] by (simp add: lib_ok_def)

lemma lib_ok_formats: "formats s t \<Longrightarrow> lib_ok t = lib_ok s"
  using formats_inv [of s t] formats_fields(20) [of s t] by (simp add: lib_ok_def)

text \<open>
  A computation keeps the invariant when every result has it; a computation that panics or waits
  for ever has no result.
\<close>

definition keeps :: "('r \<times> 'w machine) option \<Rightarrow> bool" where
  "keeps m \<longleftrightarrow> (\<forall>r t. m = Some (r, t) \<longrightarrow> lib_ok t)"

named_theorems keeps_intro \<open>rules for computations that keep the invariant\<close>

lemma keepsD: "keeps m \<Longrightarrow> m = Some (r, t) \<Longrightarrow> lib_ok t"
  by (simp add: keeps_def)

lemma keeps_return [simp]: "keeps None" "keeps (Some (r, t)) = lib_ok t"
  by (simp_all add: keeps_def)

lemma keeps_bind [keeps_intro]:
  "keeps m \<Longrightarrow> (\<And>r t. lib_ok t \<Longrightarrow> keeps (f (r, t))) \<Longrightarrow> keeps (m \<bind> f)"
  by (cases m) (auto simp: keeps_def)

lemma keeps_bind_value: "(\<And>x. m = Some x \<Longrightarrow> keeps (f x)) \<Longrightarrow> keeps (m \<bind> f)"
  by (cases m) simp_all

lemmas keeps_bind_values [keeps_intro] =
  keeps_bind_value [where m = "watch_at s n" for s n] keeps_bind_value [where m = "fsid_key f" for f]
  keeps_bind_value [where m = "copy_into k bs f" for k bs f] keeps_bind_value [where m = "set_info_type f t" for f t]
  keeps_bind_value [where m = "set_hdr_len f n" for f n]

text \<open>A computation that always has a result, and keeps the invariant.\<close>

definition returns :: "('r \<times> 'w machine) option \<Rightarrow> bool" where
  "returns m \<longleftrightarrow> (\<exists>r t. m = Some (r, t) \<and> lib_ok t)"

lemma returns_Some: "lib_ok s \<Longrightarrow> returns (Some (r, s))"
  by (simp add: returns_def)

lemma returns_keeps: "returns m \<Longrightarrow> keeps m"
  by (auto simp: returns_def keeps_def)

lemma returns_return [simp]: "\<not> returns None" "returns (Some (r, t)) = lib_ok t"
  by (simp_all add: returns_def)

lemma returns_bind: "returns m \<Longrightarrow> (\<And>r t. lib_ok t \<Longrightarrow> returns (f (r, t))) \<Longrightarrow> returns (m \<bind> f)"
  by (auto simp: returns_def)

lemma returns_map: "returns m \<Longrightarrow> returns (map_option (apfst g) m)"
  by (auto simp: returns_def)

lemma keeps_sys [keeps_intro]:
  "lib_ok s \<Longrightarrow> (\<And>r t. lib_ok t \<Longrightarrow> keeps (f r t)) \<Longrightarrow> keeps (case sys c s of (r, t) \<Rightarrow> f r t)"
  by (cases "sys c s") (simp add: lib_ok_sys)

lemma keeps_map [keeps_intro]: "keeps m \<Longrightarrow> keeps (map_option (apfst g) m)"
  by (cases m) (auto simp: keeps_def)

subsection \<open>The table\<close>

lemma keeps_fid [keeps_intro]: "lib_ok s \<Longrightarrow> keeps (filename_from_fid os f s)"
  using filename_from_fid_total [of s os f] lib_ok_resolves [of s] by (fastforce simp: lib_ok_def)

lemma lib_ok_register: "lib_ok s \<Longrightarrow> 0 < wd \<Longrightarrow> lib_ok (register os wd fid f d s)"
  using register_inv [of s wd os fid f d]
  by (auto simp: lib_ok_def register_def Let_def drop_watch_def sysw_def)

lemma keeps_create_watch [keeps_intro]:
  assumes ok: "lib_ok s"
  shows "keeps (create_watch os wd fid f d s)"
proof (cases "wd = 0")
  case False
  then show ?thesis
    using ok create_watch_register [of wd os fid f d s] lib_ok_register [OF ok]
    by (cases "wd < 0") (simp_all add: create_watch_negative)
next
  case True
  have range: "0 \<le> next_fanotify_wd s" "next_fanotify_wd s < 2 ^ 31" and inv: "table_inv s"
    using ok table_invD(5,6) [of s] by (simp_all add: lib_ok_def)
  show ?thesis
  proof (cases "fresh_wd (Suc (length (by_wd s))) (by_wd s) (next_fanotify_wd s)")
    case None
    then have "create_watch os wd fid f d s = None"
      using True by (simp add: create_watch_def del: fresh_wd.simps)
    then show ?thesis by simp
  next
    case (Some k)
    from fresh_wd_Some [OF this range] have k: "0 < k" "k < 2 ^ 31" by simp_all
    then have "lib_ok (s\<lparr>next_fanotify_wd := k\<rparr>)"
      using ok table_inv_next_wd [OF inv, of k] by (simp add: lib_ok_def)
    then show ?thesis
      using True create_watch_fresh [OF Some, of os fid f d] k lib_ok_register by simp
  qed
qed

lemma lib_ok_isdir: "isdir os p s = (d, t) \<Longrightarrow> lib_ok t = lib_ok s"
  by (auto simp: isdir_def Let_def lib_ok_sys split: prod.splits if_splits)

lemma keeps_register_mount [keeps_intro]: "lib_ok s \<Longrightarrow> keeps (register_mount os f dn s)"
  unfolding register_mount_def Let_def
  by (auto intro!: keeps_intro split: option.split prod.split)

lemma keeps_encode_fid [keeps_intro]: "lib_ok s \<Longrightarrow> keeps (fanotify_encode_fid os f dn s)"
  unfolding fanotify_encode_fid_def Let_def
  by (auto intro!: keeps_intro split: option.split)

lemma add_kernel_watch_ok: "add_kernel_watch os f ev s = (r, t) \<Longrightarrow> lib_ok t = lib_ok s"
  by (auto simp: add_kernel_watch_def Let_def lib_ok_sys split: prod.splits if_splits)

lemma keeps_kernel_watch [keeps_intro]:
  "lib_ok s \<Longrightarrow> (\<And>r t. lib_ok t \<Longrightarrow> keeps (f r t)) \<Longrightarrow> keeps (case add_kernel_watch os p ev s of (r, t) \<Rightarrow> f r t)"
  by (cases "add_kernel_watch os p ev s") (simp add: add_kernel_watch_ok)

lemma keeps_isdir [keeps_intro]:
  "lib_ok s \<Longrightarrow> (\<And>r t. lib_ok t \<Longrightarrow> keeps (f r t)) \<Longrightarrow> keeps (case isdir os p s of (r, t) \<Rightarrow> f r t)"
  by (cases "isdir os p s") (simp add: lib_ok_isdir)

lemma keeps_watch_one: "lib_ok s \<Longrightarrow> keeps (watch_one os f ev s)"
  unfolding watch_one_def Let_def
  by (auto intro!: keeps_intro split: option.split)

lemma keeps_watch_each: "lib_ok s \<Longrightarrow> keeps (watch_each os fs ev s)"
proof (induction fs arbitrary: ev s)
  case Nil
  then show ?case by simp
next
  case (Cons f fs)
  from keepsD [OF keeps_watch_one [OF Cons.prems, of os f ev]] Cons.IH show ?case
    by (auto split: option.split)
qed

lemma keeps_watch_files [keeps_intro]: "lib_ok s \<Longrightarrow> keeps (watch_files os fs ev s)"
  by (simp add: watch_files_def keeps_watch_each)

lemma keeps_watch_file [keeps_intro]: "lib_ok s \<Longrightarrow> keeps (watch_file os f ev s)"
  by (simp add: watch_file_def keeps_watch_files)

lemma keeps_walk:
  "(\<forall>p s. lib_ok s \<longrightarrow> keeps (watch_recursively_with_exclude os fuel p ev ex s)) \<and>
     (\<forall>d p s. lib_ok s \<longrightarrow> keeps (watch_entries os fuel d p ev ex s))"
proof (induction fuel)
  case 0
  show ?case by simp
next
  case (Suc fuel)
  have IH: "lib_ok t" if "watch_recursively_with_exclude os fuel p ev ex s = Some (r, t)" "lib_ok s" for p s r t
    by (rule keepsD [OF _ that(1)]) (use Suc.IH that(2) in blast)
  have IH': "lib_ok t" if "watch_entries os fuel d p ev ex s = Some (r, t)" "lib_ok s" for d p s r t
    by (rule keepsD [OF _ that(1)]) (use Suc.IH that(2) in blast)
  have tail: "lib_ok s \<Longrightarrow> keeps (watch_entries os fuel d p ev ex s)" for d p s
    using Suc.IH by blast
  have dir: "keeps (watch_recursively_with_exclude os (Suc fuel) p ev ex s)" if ok: "lib_ok s" for p s
  proof -
    let ?s = "(assert_init s)\<lparr>error := 0\<rparr>" and ?p = "cstring p"
    let ?m = "if ?p = [] \<or> last ?p \<noteq> CHR ''/'' then ?p @ ''/'' else ?p"
    obtain d e t where o': "sys (os_opendir os ?p) ?s = ((d, e), t)" by (metis surj_pair)
    have t: "lib_ok t" using lib_ok_sys [OF o'] ok by simp
    show ?thesis
    proof (cases d)
      case None
      with o' t show ?thesis by (simp add: Let_def keeps_watch_file)
    next
      case (Some dd)
      show ?thesis
      proof (cases "watch_entries os fuel dd ?m ev ex t")
        case None
        with o' Some show ?thesis by (simp add: Let_def)
      next
        case (Some ru)
        obtain r u where ru: "ru = (r, u)" by (cases ru)
        have "lib_ok u" using IH' [OF Some [unfolded ru] t] .
        with o' \<open>d = Some dd\<close> Some ru show ?thesis by (simp add: Let_def keeps_watch_file)
      qed
    qed
  qed
  have entries: "keeps (watch_entries os (Suc fuel) d p ev ex s)" if ok: "lib_ok s" for d p s
  proof -
    obtain ent t where r: "sys (os_readdir os d) s = (ent, t)" by (metis surj_pair)
    have t: "lib_ok t" using lib_ok_sys [OF r] ok by simp
    show ?thesis
    proof (cases ent)
      case None
      with r t show ?thesis by simp
    next
      case (Some name)
      obtain st e mode u where l: "sys (os_lstat os (cstring (p @ name))) t = ((st, e, mode), u)"
        by (metis surj_pair)
      have u: "lib_ok u" using lib_ok_sys [OF l] t by simp
      show ?thesis
      proof (cases "watch_recursively_with_exclude os fuel (p @ name @ ''/'') ev ex u")
        case None
        with r l Some t u tail show ?thesis by (simp add: Let_def)
      next
        case (Some rv)
        obtain q v where rv: "rv = (q, v)" by (cases rv)
        have "lib_ok v" using IH [OF Some [unfolded rv] u] .
        with r l \<open>ent = Some name\<close> Some rv t u tail show ?thesis by (simp add: Let_def)
      qed
    qed
  qed
  show ?case using dir entries by blast
qed

lemma keeps_recursively [keeps_intro]:
  "lib_ok s \<Longrightarrow> keeps (watch_recursively_with_exclude os fuel p ev ex s)"
  using keeps_walk [of os fuel ev ex] by blast

lemma returns_remove_watch:
  assumes ok: "lib_ok s" and n: "\<And>n. i = Some n \<Longrightarrow> watches s n \<noteq> None"
  shows "returns (remove_watch os i s)"
proof (cases i)
  case None
  with ok show ?thesis by (simp add: remove_watch_def)
next
  case (Some n)
  let ?a = "assert_init s"
  have a: "watches ?a n = watches s n" by (simp add: assert_init_def niceassert_def nice_fail_def ceprint_def)
  from n [OF Some] obtain w where w: "watches ?a n = Some w" using a by auto
  from remove_inotify_watch_cases [OF w, of os] obtain ok' t where
    t: "remove_inotify_watch os n ?a = Some (ok', t)" "same_lib (?a\<lparr>error := error t\<rparr>) t" by blast
  have r: "resolves (?a\<lparr>error := error t\<rparr>) t" by (rule same_lib_resolves [OF t(2)])
  have tok: "lib_ok t" using lib_ok_resolves [OF r] ok by simp
  have tw: "watches t n = Some w" using resolves_fields(1) [OF r] w by simp
  from destroy_watch_total [OF tw, of os] obtain u where u: "destroy_watch os n t = Some u" by blast
  have "table_inv u" using destroy_watch_inv [OF _ tw u] tok by (simp add: lib_ok_def)
  moreover have "evstr u = evstr t"
    using u tw by (auto simp: destroy_watch_def watch_at_def Let_def drop_watch_def sysw_def split: option.splits)
  ultimately have "lib_ok u" using tok by (simp add: lib_ok_def)
  then show ?thesis using t(1) tok u by (simp add: Some remove_watch_def)
qed

lemma returns_remove_by:
  assumes "lib_ok s"
  shows "returns (remove_watch_by_wd os wd s)" "returns (remove_watch_by_filename os f s)"
proof -
  have inv: "table_inv s" using assms by (simp add: lib_ok_def)
  show "returns (remove_watch_by_wd os wd s)"
    unfolding remove_watch_by_wd_def
    by (rule returns_remove_watch [OF assms]) (auto elim: watch_from_wd_found [OF inv])
  show "returns (remove_watch_by_filename os f s)"
    unfolding remove_watch_by_filename_def
    by (rule returns_remove_watch [OF assms]) (auto elim: watch_from_filename_found [OF inv])
qed

lemmas keeps_remove_by [keeps_intro] = returns_remove_by [THEN returns_keeps]

subsection \<open>Renaming\<close>

lemma lib_ok_rename: "lib_ok s \<Longrightarrow> rename_watch n f s = Some t \<Longrightarrow> lib_ok t"
proof -
  assume ok: "lib_ok s" and r: "rename_watch n f s = Some t"
  then obtain w where w: "watches s n = Some w"
    by (cases "watches s n") (auto simp: rename_watch_def watch_at_def)
  have "table_inv t" using rename_watch_inv [OF _ w r] ok by (simp add: lib_ok_def)
  moreover have "evstr t = evstr s"
    using r w by (auto simp: rename_watch_def watch_at_def Let_def)
  ultimately show "lib_ok t" using ok by (simp add: lib_ok_def)
qed

lemma lib_ok_replace_entries: "lib_ok s \<Longrightarrow> replace_entries ns a b s = Some t \<Longrightarrow> lib_ok t"
proof (induction ns arbitrary: s)
  case Nil
  then show ?case by simp
next
  case (Cons n ns)
  show ?case
  proof (cases "watches s n")
    case None
    with Cons show ?thesis by simp
  next
    case (Some w)
    with Cons show ?thesis
      by (auto simp: Let_def bind_eq_Some_conv split: if_splits dest: lib_ok_rename)
  qed
qed

lemma lib_ok_renaming:
  assumes "lib_ok s"
  shows "set_filename_by_wd wd f s = Some t \<Longrightarrow> lib_ok t"
    and "set_filename_by_filename a b s = Some t \<Longrightarrow> lib_ok t"
    and "replace_filename a b s = Some t \<Longrightarrow> lib_ok t"
proof -
  have "lib_ok (assert_init s)" using assms by simp
  then show "set_filename_by_wd wd f s = Some t \<Longrightarrow> lib_ok t"
    unfolding set_filename_by_wd_def Let_def
    by (cases "watch_from_wd (assert_init s) wd") (simp_all add: lib_ok_rename del: lib_ok_effects)
  show "set_filename_by_filename a b s = Some t \<Longrightarrow> lib_ok t"
    using assms unfolding set_filename_by_filename_def by (auto split: option.splits dest: lib_ok_rename)
  show "replace_filename a b s = Some t \<Longrightarrow> lib_ok t"
    using assms unfolding replace_filename_def by (auto split: if_splits dest: lib_ok_replace_entries)
qed

subsection \<open>Paths and formatting\<close>

lemma returns_watch_id: "lib_ok s \<Longrightarrow> watches s n \<noteq> None \<Longrightarrow> returns (filename_from_watch_id os n s)"
  using filename_from_watch_id_total [of s n _ os] lib_ok_resolves [of s] by (fastforce simp: lib_ok_def)

lemma returns_from_watch: "lib_ok s \<Longrightarrow> returns (filename_from_watch_ptr os i s)"
  by (cases i) (simp_all add: filename_from_watch_ptr_def returns_watch_id)

lemma returns_from_wd:
  assumes ok: "lib_ok s"
  shows "returns (filename_from_wd os wd s)"
proof -
  let ?a = "assert_init s"
  have a: "lib_ok ?a" using ok by simp
  then have inv: "table_inv ?a" unfolding lib_ok_def ..
  show ?thesis
  proof (cases "watch_from_wd ?a wd")
    case None
    with a show ?thesis unfolding filename_from_wd_def Let_def by simp
  next
    case (Some n)
    from watch_from_wd_found [OF inv Some] have "watches ?a n \<noteq> None" by auto
    with a Some show ?thesis
      unfolding filename_from_wd_def Let_def by (simp add: returns_watch_id del: lib_ok_effects)
  qed
qed

lemma returns_dirname: "lib_ok s \<Longrightarrow> returns (dirname_from_event os wd s)"
  unfolding dirname_from_event_def Let_def by (rule returns_bind [OF returns_from_wd]) simp_all

lemma returns_event_ptr: "lib_ok s \<Longrightarrow> returns (filename_from_event_ptr os wd s)"
  unfolding filename_from_event_ptr_def by (rule returns_bind [OF returns_dirname]) (simp_all split: prod.split)

lemma returns_from_event: "lib_ok s \<Longrightarrow> returns (filename_from_event os ev s)"
  unfolding filename_from_event_def Let_def by (rule returns_bind [OF returns_event_ptr]) (simp_all split: prod.split)

lemma returns_dirpath: "lib_ok s \<Longrightarrow> returns (dirpath_from_event os ev s)"
  unfolding dirpath_from_event_def Let_def by (rule returns_bind [OF returns_from_wd]) simp_all

lemma returns_mask_to_str: "lib_ok s \<Longrightarrow> returns (mask_to_str m sep s)"
  using mask_to_str_total [of s m sep] lib_ok_formats [of s] by (fastforce simp: lib_ok_def)

lemma fmt_loop_returns:
  assumes "lib_ok s" and "sz \<le> int MAX_STRLEN"
  obtains r buf' t where "fmt_loop os sz ev p f 0 buf s = Some (r, buf', t)" and "lib_ok t"
proof -
  from assms(1) have "length (evstr s) = 1024" by (simp add: lib_ok_def)
  with fmt_loop_total [OF assms(2), of 0 s os ev p f buf] obtain r buf' t where
    l: "fmt_loop os sz ev p f 0 buf s = Some (r, buf', t)" "formats s t" by auto
  from lib_ok_formats [OF l(2)] assms(1) have "lib_ok t" by simp
  with l(1) show ?thesis by (rule that)
qed

lemma returns_snprintf:
  assumes ok: "lib_ok s"
  shows "returns (snprintf os out sz ev fmt s)"
  unfolding snprintf_def
proof (rule returns_bind [OF returns_from_event [OF ok]])
  fix p and t :: "'a machine"
  assume t: "lib_ok t"
  show "returns (case (p, t) of (path, s) \<Rightarrow>
      (case fmt of
         None \<Rightarrow> Some ((-1, out), set_error EINVAL s)
       | Some f \<Rightarrow>
           if f = [] then Some ((-1, out), set_error EINVAL s)
           else if length f > MAX_STRLEN \<or> sz > int MAX_STRLEN then Some ((-1, out), set_error EMSGSIZE s)
           else do {
             (r, buf, s) \<leftarrow> fmt_loop os sz ev path f 0 (ns_buf out) s;
             case r of
               Inl ind \<Rightarrow> Some ((wrap32 (int ind), out\<lparr>ns_buf := buf\<rparr>), s)
             | Inr ind \<Rightarrow> Some ((wrap32 (int ind - 1), \<lparr>ns_buf = buf, ns_len = ind\<rparr>), s)
           }))"
  proof (cases fmt)
    case None
    with t show ?thesis by simp
  next
    case (Some f)
    show ?thesis
    proof (cases "sz \<le> int MAX_STRLEN")
      case False
      with t Some show ?thesis by simp
    next
      case True
      from fmt_loop_returns [OF t True] obtain r b u where
        "fmt_loop os sz ev p f 0 (ns_buf out) t = Some (r, b, u)" "lib_ok u" .
      with t Some show ?thesis by (cases r) simp_all
    qed
  qed
qed

lemma returns_fprintf:
  assumes ok: "lib_ok s" and w: "\<And>m t. lib_ok t \<Longrightarrow> lib_ok (put_text m t)"
  shows "returns (fprintf_to os put_text ev fmt s)"
proof -
  have ok': "lib_ok (s\<lparr>print_out := None\<rparr>)" using ok by simp
  show ?thesis
    unfolding fprintf_to_def Let_def sprintf_def
    by (rule returns_bind [OF returns_snprintf [OF ok']]) (simp split: prod.split add: w)
qed

lemmas keeps_paths [keeps_intro] =
  returns_from_watch [THEN returns_keeps] returns_from_wd [THEN returns_keeps]
  returns_dirname [THEN returns_keeps] returns_event_ptr [THEN returns_keeps]
  returns_from_event [THEN returns_keeps] returns_dirpath [THEN returns_keeps]
  returns_mask_to_str [THEN returns_keeps] returns_snprintf [THEN returns_keeps]

subsection \<open>Reading events\<close>

lemma lib_ok_record [simp]: "lib_ok s \<Longrightarrow> lib_ok (record_stats wd m s)"
  by (simp add: lib_ok_def record_stats_inv)

lemma keeps_take_buffered: "lib_ok s \<Longrightarrow> keeps (take_buffered s)"
  by (simp add: take_buffered_def Let_def)

lemma keeps_wait_bytes: "lib_ok s \<Longrightarrow> keeps (wait_bytes os fuel n s)"
proof (induction fuel arbitrary: s)
  case 0
  show ?case by simp
next
  case (Suc fuel)
  obtain rc e m t where r: "sys (os_fionread os (fd s)) s = ((rc, e, m), t)" by (metis surj_pair)
  with Suc lib_ok_sys [OF r] show ?case by simp
qed

lemma keeps_read_more: "lib_ok s \<Longrightarrow> keeps (read_more os fuel timeout n s)"
proof -
  assume ok: "lib_ok s"
  obtain rc e t where p: "sys (os_ppoll os (fd s) timeout) s = ((rc, e), t)" by (metis surj_pair)
  have t: "lib_ok t" using lib_ok_sys [OF p] ok by simp
  show ?thesis
  proof (cases "wait_bytes os fuel n t")
    case None
    with p t show ?thesis by (simp add: read_more_def Let_def)
  next
    case (Some ru)
    obtain rc' e' u where ru: "ru = ((rc', e'), u)" by (metis surj_pair)
    have u: "lib_ok u" using keepsD [OF keeps_wait_bytes [OF t] Some [unfolded ru]] .
    let ?off = "min (nat (bytes u)) (EVENT_SIZE * MAX_EVENTS)"
    obtain k e2 d v where r: "sys (os_read os (fd u) (EVENT_SIZE * MAX_EVENTS - ?off)) u = ((k, e2, d), v)"
      by (metis surj_pair)
    have "lib_ok v" using lib_ok_sys [OF r] u by simp
    with p t Some ru u r show ?thesis by (simp add: read_more_def Let_def)
  qed
qed

lemma keeps_fan_record: "lib_ok s \<Longrightarrow> keeps (fan_record info len s)"
  by (simp add: fan_record_def Let_def)

lemma keeps_fan_watch: "lib_ok s \<Longrightarrow> keeps (fan_watch os off name f s)"
  unfolding fan_watch_def Let_def
  by (auto intro!: keeps_intro split: option.split)

lemma lib_ok_fan_store: "fan_store meta wd off n s = Some t \<Longrightarrow> lib_ok s \<Longrightarrow> lib_ok t"
  by (auto simp: fan_store_def Let_def bind_eq_Some_conv split: if_splits)

lemma lib_ok_fan_trace [simp]: "lib_ok (fan_trace fi len name s) = lib_ok s"
  by (simp add: fan_trace_def)

lemma keeps_fan_store_bind [keeps_intro]:
  "lib_ok s \<Longrightarrow> (\<And>t. lib_ok t \<Longrightarrow> keeps (f t)) \<Longrightarrow> keeps (fan_store meta wd off n s \<bind> f)"
  by (cases "fan_store meta wd off n s") (auto dest: lib_ok_fan_store)

lemma keeps_slice_bind [keeps_intro]: "(\<And>x. keeps (f x)) \<Longrightarrow> keeps ((if c then Some b else None) \<bind> f)"
  by simp

lemma keeps_convert: "lib_ok s \<Longrightarrow> keeps (convert_fanotify_event os s)"
  unfolding convert_fanotify_event_def Let_def
  by (auto intro!: keeps_intro keeps_fan_record keeps_fan_watch split: option.split)

lemma keeps_step_over: "lib_ok s \<Longrightarrow> keeps (step_over os s)"
  unfolding step_over_def Let_def
  by (auto intro!: keeps_intro keeps_convert split: option.split)

lemma keeps_filtered_out: "lib_ok s \<Longrightarrow> keeps (filtered_out os s)"
  unfolding filtered_out_def Let_def
  by (auto intro!: keeps_intro split: option.split)

lemma keeps_deliver: "lib_ok s \<Longrightarrow> keeps (deliver os s)"
  unfolding deliver_def Let_def
  by (auto intro!: keeps_intro keeps_step_over keeps_filtered_out split: option.split)

lemma keeps_next_event_step: "lib_ok s \<Longrightarrow> keeps (next_event_step os fuel timeout n s)"
  unfolding next_event_step_def Let_def
  by (auto intro!: keeps_intro keeps_take_buffered keeps_read_more keeps_deliver split: source_of_event.split)

lemma keeps_next_events_loop: "lib_ok s \<Longrightarrow> keeps (next_events_loop os fuel timeout n s)"
proof (induction fuel arbitrary: s)
  case 0
  show ?case by simp
next
  case (Suc fuel)
  from keepsD [OF keeps_next_event_step [OF Suc.prems]] Suc.IH show ?case
    by (auto split: option.split outcome.split)
qed

lemma keeps_next_events_raw [keeps_intro]: "lib_ok s \<Longrightarrow> keeps (next_events_raw os fuel timeout n s)"
  by (simp add: next_events_raw_def Let_def keeps_next_events_loop)

subsection \<open>The rest of the interface\<close>

lemma lib_ok_regex: "do_ignore_events_by_regex os p flags b i s = (r, t) \<Longrightarrow> lib_ok t = lib_ok s"
  by (auto simp: do_ignore_events_by_regex_def Let_def split: option.splits if_splits)

lemma lib_ok_initialize_stats: "lib_ok s \<Longrightarrow> lib_ok (initialize_stats s)"
proof -
  assume ok: "lib_ok s"
  define a where "a = assert_init s"
  have a: "lib_ok a" using ok by (simp add: a_def)
  have i: "lib_ok (a\<lparr>initialized := True\<rparr>)" using a by simp
  then have "table_inv (initialize_stats (a\<lparr>initialized := True\<rparr>))"
    by (intro initialize_stats_inv) (simp_all add: lib_ok_def)
  moreover have "initialize_stats s = (initialize_stats (a\<lparr>initialized := True\<rparr>))\<lparr>initialized := initialized s\<rparr>"
    by (simp add: initialize_stats_def Let_def a_def [symmetric]) (simp add: a_def assert_init_def niceassert_def nice_fail_def ceprint_def Let_def)
  ultimately have "table_inv (initialize_stats s)" by (simp add: table_inv_def)
  moreover have "evstr (initialize_stats s) = evstr s"
    by (simp add: initialize_stats_def Let_def assert_init_def niceassert_def nice_fail_def ceprint_def)
  ultimately show ?thesis using ok by (simp add: lib_ok_def)
qed

lemma empty_points [simp]: "wd_ix.points [] ws" "fid_ix.points [] ws" "name_ix.points [] ws"
  by (simp_all add: wd_ix.points_def fid_ix.points_def name_ix.points_def)

lemma lib_ok_unindexed: "lib_ok s \<Longrightarrow> lib_ok (s\<lparr>by_wd := [], by_fid := [], by_filename := []\<rparr>)"
  by (simp add: lib_ok_def table_inv_def)

lemma lib_ok_init: "init os b fs v s = (r, t) \<Longrightarrow> lib_ok s \<Longrightarrow> lib_ok t"
  by (auto simp: init_def Let_def lib_ok_sys lib_ok_unindexed split: prod.splits if_splits)

lemma lib_ok_drop_all: "lib_ok (drop_all os ns s) = lib_ok s"
  by (induction ns arbitrary: s) (simp_all split: option.split)

lemma lib_ok_no_watches:
  "lib_ok s \<Longrightarrow> by_wd s = [] \<Longrightarrow> by_fid s = [] \<Longrightarrow> by_filename s = [] \<Longrightarrow> lib_ok (s\<lparr>watches := Map.empty\<rparr>)"
  by (simp add: lib_ok_def table_inv_def)

lemma drop_all_index [simp]:
  "by_wd (drop_all os ns s) = by_wd s" "by_fid (drop_all os ns s) = by_fid s"
  "by_filename (drop_all os ns s) = by_filename s"
  by (induction ns arbitrary: s) (simp_all split: option.split)

lemma lib_ok_cleanup: "lib_ok s \<Longrightarrow> lib_ok (cleanup os s)"
  by (auto simp: cleanup_def Let_def lib_ok_drop_all lib_ok_unindexed intro!: lib_ok_no_watches)

lemma lib_ok_read_num: "read_num_from_file os p s = (r, t) \<Longrightarrow> lib_ok s \<Longrightarrow> lib_ok t"
  by (auto simp: read_num_from_file_def Let_def lib_ok_sys split: prod.splits option.splits)

lemma lib_ok_limit: "num_or_fail (read_num_from_file os p s) = (r, t) \<Longrightarrow> lib_ok s \<Longrightarrow> lib_ok t"
  by (auto simp: num_or_fail_def split: prod.splits option.splits dest: lib_ok_read_num)

subsection \<open>Calls\<close>

text \<open>The functions of the interface, with their arguments.\<close>

datatype stream = C_stdout | C_stderr | Other_stream

datatype api_call =
    Str_to_event "string option"
  | Str_to_event_sep "string option" char
  | Event_to_str u32
  | Event_to_str_sep u32 char
  | Set_filename_by_wd int "string option"
  | Set_filename_by_filename "string option" "string option"
  | Replace_filename "string option" "string option"
  | Dirname_from_event "event option"
  | Filename_from_event "event option"
  | Dirpath_from_event "event option"
  | Filename_from_watch "nat option"
  | Filename_from_wd int
  | Wd_from_filename "string option"
  | Remove_watch_by_filename "string option"
  | Remove_watch_by_wd int
  | Watch_file "string option" u32
  | Watch_files "string option list option" u32
  | Watch_recursively "string option" u32
  | Watch_recursively_with_exclude "string option" u32 "string option list option"
  | Ignore_events_by_regex "string option" int int
  | Ignore_events_by_inverted_regex "string option" int int
  | Next_event int
  | Next_events int int
  | Get_num_watches
  | Error
  | Get_stat_by_wd int u32
  | Get_stat_total u32
  | Get_stat_by_filename "string option" u32
  | Initialize_stats
  | Initialize
  | Init int int int
  | Cleanup
  | Printf "event option" "string option"
  | Fprintf stream "event option" "string option"
  | Snprintf "nstring option" int "event option" "string option"
  | Sprintf "nstring option" "event option" "string option"
  | Set_printf_timefmt "string option"
  | Clear_timefmt
  | Get_max_user_watches
  | Get_max_user_instances
  | Get_max_queued_events

fun write_stream :: "stream \<Rightarrow> string \<Rightarrow> 'w machine \<Rightarrow> 'w machine" where
  "write_stream C_stdout m s = cprint m s"
| "write_stream C_stderr m s = ceprint m s"
| "write_stream Other_stream m s = s"

text \<open>The state after a call.\<close>

definition after :: "('r \<times> 'w machine) option \<Rightarrow> 'w machine option" where
  "after m = map_option snd m"

fun api_exec :: "'w os \<Rightarrow> (nat \<Rightarrow> bool) \<Rightarrow> nat \<Rightarrow> api_call \<Rightarrow> 'w machine \<Rightarrow> 'w machine option" where
  "api_exec os alloc fuel (Str_to_event x) s = after (Some (inotifytools_str_to_event x, s))"
| "api_exec os alloc fuel (Str_to_event_sep x c) s = after (Some (inotifytools_str_to_event_sep x c, s))"
| "api_exec os alloc fuel (Event_to_str e) s = after (inotifytools_event_to_str e s)"
| "api_exec os alloc fuel (Event_to_str_sep e c) s = after (inotifytools_event_to_str_sep e c s)"
| "api_exec os alloc fuel (Set_filename_by_wd wd f) s = inotifytools_set_filename_by_wd wd f s"
| "api_exec os alloc fuel (Set_filename_by_filename a b) s = inotifytools_set_filename_by_filename a b s"
| "api_exec os alloc fuel (Replace_filename a b) s = inotifytools_replace_filename a b s"
| "api_exec os alloc fuel (Dirname_from_event ev) s = after (inotifytools_dirname_from_event os ev s)"
| "api_exec os alloc fuel (Filename_from_event ev) s = after (inotifytools_filename_from_event os ev s)"
| "api_exec os alloc fuel (Dirpath_from_event ev) s = after (inotifytools_dirpath_from_event os alloc ev s)"
| "api_exec os alloc fuel (Filename_from_watch w) s = after (inotifytools_filename_from_watch os w s)"
| "api_exec os alloc fuel (Filename_from_wd wd) s = after (inotifytools_filename_from_wd os wd s)"
| "api_exec os alloc fuel (Wd_from_filename f) s = after (inotifytools_wd_from_filename f s)"
| "api_exec os alloc fuel (Remove_watch_by_filename f) s = after (inotifytools_remove_watch_by_filename os f s)"
| "api_exec os alloc fuel (Remove_watch_by_wd wd) s = after (inotifytools_remove_watch_by_wd os wd s)"
| "api_exec os alloc fuel (Watch_file f e) s = after (inotifytools_watch_file os f e s)"
| "api_exec os alloc fuel (Watch_files fs e) s = after (inotifytools_watch_files os fs e s)"
| "api_exec os alloc fuel (Watch_recursively p e) s = after (inotifytools_watch_recursively os fuel p e s)"
| "api_exec os alloc fuel (Watch_recursively_with_exclude p e ex) s =
     after (inotifytools_watch_recursively_with_exclude os fuel p e ex s)"
| "api_exec os alloc fuel (Ignore_events_by_regex p f r) s = Some (snd (inotifytools_ignore_events_by_regex os p f r s))"
| "api_exec os alloc fuel (Ignore_events_by_inverted_regex p f r) s =
     Some (snd (inotifytools_ignore_events_by_inverted_regex os p f r s))"
| "api_exec os alloc fuel (Next_event t) s = after (inotifytools_next_event os fuel t s)"
| "api_exec os alloc fuel (Next_events t n) s = after (inotifytools_next_events os fuel t n s)"
| "api_exec os alloc fuel Get_num_watches s = after (Some (inotifytools_get_num_watches s, s))"
| "api_exec os alloc fuel Error s = after (Some (inotifytools_error s, s))"
| "api_exec os alloc fuel (Get_stat_by_wd wd e) s =
     after (map_option (\<lambda>v. (v, s)) (inotifytools_get_stat_by_wd wd e s))"
| "api_exec os alloc fuel (Get_stat_total e) s = after (Some (inotifytools_get_stat_total e s, s))"
| "api_exec os alloc fuel (Get_stat_by_filename f e) s = after (inotifytools_get_stat_by_filename f e s)"
| "api_exec os alloc fuel Initialize_stats s = Some (inotifytools_initialize_stats s)"
| "api_exec os alloc fuel Initialize s = Some (snd (inotifytools_initialize os s))"
| "api_exec os alloc fuel (Init a b c) s = Some (snd (inotifytools_init os a b c s))"
| "api_exec os alloc fuel Cleanup s = Some (inotifytools_cleanup os s)"
| "api_exec os alloc fuel (Printf ev f) s = after (inotifytools_printf os ev f s)"
| "api_exec os alloc fuel (Fprintf st ev f) s = after (inotifytools_fprintf os (write_stream st) ev f s)"
| "api_exec os alloc fuel (Snprintf out n ev f) s = after (inotifytools_snprintf os out n ev f s)"
| "api_exec os alloc fuel (Sprintf out ev f) s = after (inotifytools_sprintf os out ev f s)"
| "api_exec os alloc fuel (Set_printf_timefmt f) s = Some (inotifytools_set_printf_timefmt f s)"
| "api_exec os alloc fuel Clear_timefmt s = Some (inotifytools_clear_timefmt s)"
| "api_exec os alloc fuel Get_max_user_watches s = Some (snd (inotifytools_get_max_user_watches os s))"
| "api_exec os alloc fuel Get_max_user_instances s = Some (snd (inotifytools_get_max_user_instances os s))"
| "api_exec os alloc fuel Get_max_queued_events s = Some (snd (inotifytools_get_max_queued_events os s))"

text \<open>
  The states a program can reach: from the new instance, by calls in any order and number, the
  world changing in between as it likes.
\<close>

inductive api_state :: "'w os \<Rightarrow> (nat \<Rightarrow> bool) \<Rightarrow> 'w machine \<Rightarrow> bool" for os alloc where
  api_new: "api_state os alloc (machine_new w)"
| api_call: "api_state os alloc s \<Longrightarrow> api_exec os alloc fuel c s = Some t \<Longrightarrow> api_state os alloc t"
| api_world: "api_state os alloc s \<Longrightarrow> api_state os alloc (s\<lparr>world := w\<rparr>)"

text \<open>
  The calls that may fail to return: reading waits for the kernel and trusts its records, watching
  needs a free descriptor, and the walk over a directory tree ends with the tree.
\<close>

fun may_hang :: "api_call \<Rightarrow> bool" where
  "may_hang (Watch_file f e) = True"
| "may_hang (Watch_files fs e) = True"
| "may_hang (Watch_recursively p e) = True"
| "may_hang (Watch_recursively_with_exclude p e ex) = True"
| "may_hang (Next_event t) = True"
| "may_hang (Next_events t n) = True"
| "may_hang c = False"

lemma keeps_after: "keeps m \<Longrightarrow> after m = Some t \<Longrightarrow> lib_ok t"
  by (auto simp: keeps_def after_def)

lemma returns_after: "returns m \<Longrightarrow> \<exists>t. after m = Some t \<and> lib_ok t"
  by (auto simp: returns_def after_def)

lemma rename_returns: "lib_ok s \<Longrightarrow> watches s n \<noteq> None \<Longrightarrow> \<exists>t. rename_watch n f s = Some t \<and> lib_ok t"
  using rename_watch_total [of s n] lib_ok_rename [of s n f] by fastforce

lemma replace_entries_returns: "lib_ok s \<Longrightarrow> \<exists>t. replace_entries ns a b s = Some t \<and> lib_ok t"
proof (induction ns arbitrary: s)
  case Nil
  then show ?case by simp
next
  case (Cons n ns)
  show ?case
  proof (cases "watches s n")
    case None
    with Cons show ?thesis by simp
  next
    case (Some w)
    from rename_returns [OF Cons.prems, of n "b @ drop (length a) (w_filename w)"] Some obtain u where
      "rename_watch n (b @ drop (length a) (w_filename w)) s = Some u" "lib_ok u" by auto
    with Some Cons show ?thesis by (simp add: Let_def)
  qed
qed

lemma renaming_returns:
  assumes ok: "lib_ok s"
  shows "\<exists>t. set_filename_by_wd wd f s = Some t \<and> lib_ok t"
    and "\<exists>t. set_filename_by_filename a b s = Some t \<and> lib_ok t"
    and "\<exists>t. replace_filename a b s = Some t \<and> lib_ok t"
proof -
  have inv: "table_inv t" if "lib_ok t" for t :: "'a machine" using that by (simp add: lib_ok_def)
  have a: "lib_ok (assert_init s)" using ok by simp
  show "\<exists>t. set_filename_by_wd wd f s = Some t \<and> lib_ok t"
  proof (cases "watch_from_wd (assert_init s) wd")
    case None
    with a show ?thesis unfolding set_filename_by_wd_def Let_def by simp
  next
    case (Some n)
    from watch_from_wd_found [OF inv [OF a] Some] have "watches (assert_init s) n \<noteq> None" by auto
    from rename_returns [OF a this, of f] Some show ?thesis
      unfolding set_filename_by_wd_def Let_def by simp
  qed
  show "\<exists>t. set_filename_by_filename a b s = Some t \<and> lib_ok t"
  proof (cases "watch_from_filename s a")
    case None
    with ok show ?thesis by (simp add: set_filename_by_filename_def)
  next
    case (Some n)
    from watch_from_filename_found [OF inv [OF ok] Some] have "watches s n \<noteq> None" by auto
    from rename_returns [OF ok this, of b] Some show ?thesis
      by (simp add: set_filename_by_filename_def)
  qed
  show "\<exists>t. replace_filename a b s = Some t \<and> lib_ok t"
    using ok replace_entries_returns [OF ok] by (simp add: replace_filename_def)
qed

lemma returns_wd_from_filename: "lib_ok s \<Longrightarrow> returns (wd_from_filename f s)"
proof -
  assume ok: "lib_ok s"
  let ?a = "assert_init s"
  have a: "lib_ok ?a" using ok by simp
  then have inv: "table_inv ?a" unfolding lib_ok_def ..
  show ?thesis
  proof (cases "watch_from_filename ?a f")
    case None
    with a show ?thesis unfolding wd_from_filename_def Let_def by simp
  next
    case (Some n)
    from watch_from_filename_found [OF inv Some] obtain w where "watches ?a n = Some w" by blast
    with a Some show ?thesis unfolding wd_from_filename_def Let_def by (simp add: watch_at_def)
  qed
qed

lemma returns_stat_by_wd: "lib_ok s \<Longrightarrow> returns (map_option (\<lambda>v. (v, s)) (get_stat_by_wd wd e s))"
proof -
  assume ok: "lib_ok s"
  then have inv: "table_inv s" by (simp add: lib_ok_def)
  have "get_stat_by_wd wd e s \<noteq> None"
  proof (cases "watch_from_wd s wd")
    case None
    then show ?thesis by (simp add: get_stat_by_wd_def)
  next
    case (Some n)
    from watch_from_wd_found [OF inv Some] obtain w where "watches s n = Some w" by blast
    with Some show ?thesis by (simp add: get_stat_by_wd_def watch_at_def)
  qed
  with ok show ?thesis by (auto simp: returns_def)
qed

lemma returns_stat_by_filename: "lib_ok s \<Longrightarrow> returns (get_stat_by_filename f e s)"
  unfolding get_stat_by_filename_def
proof (rule returns_bind [OF returns_wd_from_filename])
  fix wd :: int and t :: "'a machine"
  assume "lib_ok t"
  from returns_stat_by_wd [OF this, of wd e]
  show "returns (case (wd, t) of (wd, s) \<Rightarrow> get_stat_by_wd wd e s \<bind> (\<lambda>v. Some (v, s)))"
    by (auto simp: returns_def)
qed

lemma lib_ok_write_stream: "lib_ok t \<Longrightarrow> lib_ok (write_stream st m t)"
  by (cases st) simp_all

text \<open>A call that cannot hang has a result, and any result keeps the invariant.\<close>

lemma api_returns:
  assumes ok: "lib_ok s"
  shows "returns (inotifytools_event_to_str e s)" "returns (inotifytools_event_to_str_sep e c s)"
    "returns (inotifytools_dirname_from_event os ev s)" "returns (inotifytools_filename_from_event os ev s)"
    "returns (inotifytools_dirpath_from_event os alloc ev s)" "returns (inotifytools_filename_from_watch os i s)"
    "returns (inotifytools_filename_from_wd os wd s)" "returns (inotifytools_wd_from_filename f s)"
    "returns (inotifytools_remove_watch_by_filename os f s)" "returns (inotifytools_remove_watch_by_wd os wd s)"
    "returns (inotifytools_get_stat_by_filename f e s)" "returns (inotifytools_printf os ev f s)"
    "returns (inotifytools_fprintf os (write_stream st) ev f s)" "returns (inotifytools_snprintf os out n ev f s)"
    "returns (inotifytools_sprintf os out ev f s)"
    "returns (map_option (\<lambda>v. (v, s)) (inotifytools_get_stat_by_wd wd e s))"
proof -
  show "returns (inotifytools_filename_from_event os ev s)"
    unfolding inotifytools_filename_from_event_def Let_def
    by (rule returns_bind [OF returns_event_ptr [OF ok]]) (simp split: prod.split)
  show "returns (inotifytools_dirpath_from_event os alloc ev s)"
    unfolding inotifytools_dirpath_from_event_def
    by (rule returns_bind [OF returns_dirpath [OF ok]]) simp
  show "returns (inotifytools_fprintf os (write_stream st) ev f s)"
    unfolding inotifytools_fprintf_def by (rule returns_fprintf [OF ok lib_ok_write_stream])
  show "returns (inotifytools_printf os ev f s)"
    unfolding inotifytools_printf_def inotifytools_fprintf_def by (rule returns_fprintf [OF ok]) simp
  show snp: "returns (inotifytools_snprintf os out n ev f s)" for out n
    using ok by (cases out) (simp_all add: inotifytools_snprintf_def returns_map returns_snprintf)
  show "returns (inotifytools_sprintf os out ev f s)"
    unfolding inotifytools_sprintf_def by (rule snp)
qed (simp_all add: inotifytools_event_to_str_def inotifytools_event_to_str_sep_def inotifytools_dirname_from_event_def
    inotifytools_filename_from_watch_def inotifytools_filename_from_wd_def inotifytools_wd_from_filename_def
    inotifytools_remove_watch_by_filename_def inotifytools_remove_watch_by_wd_def inotifytools_get_stat_by_filename_def
    inotifytools_get_stat_by_wd_def returns_stat_by_wd
    returns_mask_to_str returns_dirname returns_from_watch returns_from_wd returns_wd_from_filename returns_map
    returns_remove_by returns_stat_by_filename ok)

lemma api_renaming:
  assumes "lib_ok s"
  shows "\<exists>t. inotifytools_set_filename_by_wd wd f s = Some t \<and> lib_ok t"
    and "\<exists>t. inotifytools_set_filename_by_filename a b s = Some t \<and> lib_ok t"
    and "\<exists>t. inotifytools_replace_filename a b s = Some t \<and> lib_ok t"
  using assms renaming_returns [OF assms]
  by (simp_all add: inotifytools_set_filename_by_wd_def inotifytools_set_filename_by_filename_def
      inotifytools_replace_filename_def)

lemma api_settings:
  assumes ok: "lib_ok s"
  shows "lib_ok (snd (inotifytools_ignore_events_by_regex os p fl r s))"
    "lib_ok (snd (inotifytools_ignore_events_by_inverted_regex os p fl r s))"
    "lib_ok (inotifytools_initialize_stats s)" "lib_ok (snd (inotifytools_initialize os s))"
    "lib_ok (snd (inotifytools_init os i j k s))" "lib_ok (inotifytools_cleanup os s)"
    "lib_ok (inotifytools_set_printf_timefmt f s)" "lib_ok (inotifytools_clear_timefmt s)"
    "lib_ok (snd (inotifytools_get_max_user_watches os s))" "lib_ok (snd (inotifytools_get_max_user_instances os s))"
    "lib_ok (snd (inotifytools_get_max_queued_events os s))"
proof -
  have "lib_ok (snd (do_ignore_events_by_regex os p fl b r s))" for p fl b r
    using ok lib_ok_regex [of os p fl b r s] by (metis prod.collapse)
  then show "lib_ok (snd (inotifytools_ignore_events_by_regex os p fl r s))"
    "lib_ok (snd (inotifytools_ignore_events_by_inverted_regex os p fl r s))"
    by (simp_all add: inotifytools_ignore_events_by_regex_def inotifytools_ignore_events_by_inverted_regex_def
        ignore_events_by_regex_def ignore_events_by_inverted_regex_def)
  have i: "lib_ok (snd (init os b fs v s))" for b fs v
    using ok lib_ok_init [of os b fs v s] by (metis prod.collapse)
  then show "lib_ok (snd (inotifytools_initialize os s))" "lib_ok (snd (inotifytools_init os i j k s))"
    by (simp_all add: inotifytools_initialize_def inotifytools_init_def initialize_def)
  have "lib_ok (snd (num_or_fail (read_num_from_file os path s)))" for path
    using ok lib_ok_limit [of os path s] by (metis prod.collapse)
  then show "lib_ok (snd (inotifytools_get_max_user_watches os s))"
    "lib_ok (snd (inotifytools_get_max_user_instances os s))" "lib_ok (snd (inotifytools_get_max_queued_events os s))"
    by (simp_all add: inotifytools_get_max_user_watches_def inotifytools_get_max_user_instances_def
        inotifytools_get_max_queued_events_def get_max_user_watches_def get_max_user_instances_def
        get_max_queued_events_def)
qed (simp_all add: inotifytools_initialize_stats_def inotifytools_cleanup_def inotifytools_set_printf_timefmt_def
    inotifytools_clear_timefmt_def set_printf_timefmt_def clear_timefmt_def lib_ok_initialize_stats
    lib_ok_cleanup ok)

lemma api_watching:
  assumes ok: "lib_ok s"
  shows "keeps (inotifytools_watch_file os f e s)" "keeps (inotifytools_watch_files os fs e s)"
    "keeps (inotifytools_watch_recursively os fuel p e s)"
    "keeps (inotifytools_watch_recursively_with_exclude os fuel p e ex s)"
    "keeps (inotifytools_next_event os fuel t s)" "keeps (inotifytools_next_events os fuel t n s)"
proof -
  show fs: "keeps (inotifytools_watch_files os fs e s)" for fs
    by (simp add: inotifytools_watch_files_def keeps_map keeps_watch_files ok)
  show "keeps (inotifytools_watch_file os f e s)"
    by (simp add: inotifytools_watch_file_def fs)
  have null: "(\<lambda>(ok, s). (0, s)) = apfst (\<lambda>_. 0 :: int)" by (auto simp: fun_eq_iff)
  show rec: "keeps (inotifytools_watch_recursively_with_exclude os fuel p e ex s)" for ex
    by (simp add: inotifytools_watch_recursively_with_exclude_def keeps_map keeps_recursively ok null)
  show "keeps (inotifytools_watch_recursively os fuel p e s)"
    by (simp add: inotifytools_watch_recursively_def rec)
  show nx: "keeps (inotifytools_next_events os fuel t n s)" for t n
    unfolding inotifytools_next_events_def by (rule keeps_bind [OF keeps_next_events_raw [OF ok]]) simp
  show "keeps (inotifytools_next_event os fuel t s)"
    unfolding inotifytools_next_event_def by (rule nx)
qed

text \<open>A call that cannot hang has a result, and any result keeps the invariant.\<close>

lemma api_exec_returns:
  "lib_ok s \<Longrightarrow> \<not> may_hang c \<Longrightarrow> \<exists>t. api_exec os alloc fuel c s = Some t \<and> lib_ok t"
  by (cases c) (simp_all add: returns_after api_returns api_renaming api_settings returns_Some)

lemma api_exec_keeps: "lib_ok s \<Longrightarrow> api_exec os alloc fuel c s = Some t \<Longrightarrow> lib_ok t"
proof (cases "may_hang c")
  case False
  then show "lib_ok s \<Longrightarrow> api_exec os alloc fuel c s = Some t \<Longrightarrow> lib_ok t"
    using api_exec_returns [of s c os alloc fuel] by auto
next
  case True
  then show "lib_ok s \<Longrightarrow> api_exec os alloc fuel c s = Some t \<Longrightarrow> lib_ok t"
    by (cases c) (auto dest: keeps_after [OF api_watching(1)] keeps_after [OF api_watching(2)]
        keeps_after [OF api_watching(3)] keeps_after [OF api_watching(4)] keeps_after [OF api_watching(5)]
        keeps_after [OF api_watching(6)])
qed

lemma api_state_ok: "api_state os alloc s \<Longrightarrow> lib_ok s"
  by (induction rule: api_state.induct) (auto dest: api_exec_keeps)

end
