(* ===== verification/Spec2Isabelle.thy ===== *)
theory Spec2Isabelle
  imports WaitRun WatchRun TableSpec Restart FanDelivery UnitTests Library
begin

text \<open>
  Verification of inotify-tools (the Rust implementation): the library \<open>libinotifytools\<close> and the
  programs \<open>inotifywait\<close> and \<open>inotifywatch\<close> (with their \<open>fsnotify\<close> variants).

  The program. The library keeps a table of watches, each with the kernel's descriptor or, under
  fanotify, the identifier of a file; three ordered maps index it by descriptor, by identifier and
  by name. It reads batches of events from the kernel into one buffer, steps through them, turns
  fanotify records into inotify events, filters them by a regular expression, counts them, and
  formats them. A C interface exposes it. The two programs parse a command line, set up watches
  (on files, on directory trees, or on whole filesystems), and loop over the events: \<open>inotifywait\<close>
  prints them, \<open>inotifywatch\<close> counts them until a signal and prints a table; both follow directories
  that are created, moved or deleted in a watched tree.

  Theories, in the order of the code:
  \<^item> \<open>Prelude\<close>: integers, bytes, C strings, slice searches, number formats; the shared lemmas.
  \<^item> \<open>Btree\<close>: \<open>BTreeMap\<close>, with the locales \<open>entry_map\<close> (the contract of a map) and \<open>keyed_index\<close> (an
    index of records by a key), both interpreted on the model's maps.
  \<^item> \<open>Cio\<close> (\<open>cio.rs\<close>), \<open>Consts\<close> (\<open>consts.rs\<close>), \<open>Fid\<close> (\<open>fid.rs\<close>): messages, masks, file identifiers.
  \<^item> \<open>Stats\<close>, \<open>EventNames\<close>, \<open>Machine\<close>, \<open>WatchTable\<close>, \<open>Paths\<close>, \<open>Format\<close>, \<open>Counters\<close>, \<open>Reader\<close>,
    \<open>Setup\<close>, \<open>TreeWalk\<close> (\<open>inotify.rs\<close>): the counters of a watch; masks as text; the state (record
    \<open>inotifytools\<close>, the struct's fields) and the system; registering, removing and renaming watches;
    paths of watches and events; the printf-like formats; statistics; the event buffer, its filter
    and the loop of \<open>next_events\<close>; initialisation, clean-up, watching files, kernel limits; recursive
    watching.
  \<^item> \<open>Capi\<close> (\<open>ffi.rs\<close>): every function of the C interface; \<open>Library\<close>: the library as a state machine
    whose steps are these calls.
  \<^item> \<open>Common\<close> (\<open>common.rs\<close>), \<open>Help\<close>, \<open>WaitTool\<close> (\<open>inotifywait.rs\<close>), \<open>WatchTool\<close> (\<open>inotifywatch.rs\<close>): the
    programs, from \<open>main\<close> to the exit code.
  \<^item> \<open>UnitTests\<close>: the repository's unit tests as definitions on the model.
  \<^item> Specifications and compositions, which model no further code: \<open>TableSpec\<close> (the watch table
    against the system's state and a map from names to descriptors, on any answers of the kernel,
    through the locale \<open>simulation\<close>), \<open>Delivery\<close> and \<open>Feed\<close> (a caller of \<open>next_event\<close>; a kernel that
    hands over batch after batch), \<open>FanDelivery\<close> (batches of fanotify events), \<open>Restart\<close>, \<open>Printing\<close>
    (what a format prints), \<open>FileWatches\<close>, \<open>Monitor\<close>, \<open>WaitRun\<close> and \<open>WatchRun\<close> (whole runs of the
    programs).

  Conventions. Masks, counters and cookies are 32-bit words; descriptors and \<open>errno\<close> values are
  integers, wrapped (\<open>wrap32\<close>) where the code's \<open>i32\<close> arithmetic can overflow in a release build.
  Text is a \<open>string\<close> of bytes, kernel data a list of bytes in little-endian order. The model is of
  the Linux configuration. A panic is the result \<open>None\<close>; errors the code handles are its own
  results. An operation takes the state (\<open>machine\<close>: the struct, the system's state, and what was
  written to the two C streams) and returns it updated. The operating system, the C library's
  \<open>getopt_long\<close>, \<open>regcomp\<close>, \<open>regexec\<close>, \<open>strtol\<close>, \<open>strftime\<close> and \<open>strerror\<close>, and \<open>malloc\<close> are parameters: the
  record \<open>os\<close>, \<open>option_parser\<close>, and \<open>alloc\<close>. Most theorems hold for every value of them; those that
  need a cooperating kernel name what is assumed (\<open>watchable\<close>: a file can be watched; \<open>format_tried\<close>:
  \<open>/dev/null\<close> can be opened, and the format has a text for the event it is tried out on;
  \<open>feeds\<close>: batch after batch can be read, as \<open>inotify(7)\<close> documents; \<open>tells_path\<close>: a file handle can
  be opened, \<open>/proc\<close> names the directory, and the entry is there or gone), and have a witness that
  evaluates them on a concrete one. A watch pointer of the C interface is the watch's identifier.
  Where the code drops the watches of a hash map, in no specified order, the model drops them in the
  order of the identifiers. A signal is delivered where \<open>inotifywatch\<close> looks at its flags and at the
  ends of its stages.

  Fuel. Loops over structures are structural recursion. The loops that wait for the outside world
  (\<open>wait_bytes\<close>, \<open>next_events_loop\<close>, the programs' main loops, reading directories and lines, walking
  trees) take fuel, and \<open>None\<close> then also stands for not having returned. Every theorem about them
  says that the result is \<open>Some\<close> when the fuel exceeds a stated number: of the events, of the lines,
  or, for trees, of the entries of the tree; \<open>may_hang\<close> lists the calls of the C interface that
  contain such loops, and all others are shown to return.

  What the lemmas show. \<open>table_inv\<close> is the invariant of the table; every operation keeps it and says
  what it does to the three maps (\<open>WatchTable\<close>, \<open>Setup\<close> with \<open>grown\<close>, \<open>TreeWalk\<close> with \<open>walked\<close>), and
  \<open>api_states_sound\<close> below lifts it to every use of the C interface. \<open>table_refines_spec\<close> says that the
  table implements a map from names to descriptors whatever the kernel answers to a removal.
  \<open>formats\<close>, \<open>reader_moved\<close> and \<open>fed\<close> say which fields printing and reading may change. \<open>fmt_reference\<close> gives the meaning of formats without a buffer, \<open>csv_record\<close> reads
  back CSV lines, \<open>split_sep\<close> and \<open>mask_text\<close> specify the parser and printer of event names.
  \<open>loaded\<close> and \<open>pending\<close> (for fanotify \<open>fan_loaded\<close> and \<open>fan_pending\<close>) relate the bytes of the buffer to
  a list of events, and \<open>fan_grown\<close> says what reading fanotify events does to the table (entries get
  descriptors at their first event, and keep them). \<open>counts_grown\<close> says that a list of events has been
  counted. From these follow the delivery of what is buffered, of a batch, and with \<open>feeds\<close> of all
  batches, and the theorems about whole runs, \<open>inotifywait_monitor\<close>, \<open>inotifywait_once\<close> and
  \<open>inotifywatch_counts\<close>.

  Not modelled: the \<open>extern\<close> declarations of \<open>sys.rs\<close> and \<open>cio.rs\<close> (parameters, see above); the opaque
  \<open>regex_t\<close>; \<open>flush_all\<close>, since output is what was written; \<open>set_errno\<close> and \<open>errno\<close>, since each call
  returns its \<open>errno\<close>; the accessor \<open>fanotify_mode\<close>, which is a field; \<open>Drop\<close> (it calls
  \<open>cleanup\<close>) and the \<open>Debug\<close>, \<open>Clone\<close> and \<open>Default\<close> derivations; the diagnostic that \<open>str_to_event_sep\<close>
  prints for an over-long name; \<open>lib.rs\<close>, which re-exports; \<open>build.rs\<close>, which generates the version
  string (a parameter of the programs); and the code for systems other than Linux.
\<close>

text \<open>C4.
  The library is sound under every use: in each state that a program can reach through the C
  interface, by calls in any order, on any answers of the kernel and with the world changing in
  between, each lookup by descriptor, by name or by file identifier leads to a stored watch that
  is filed under exactly that key, and every call of the interface other than those that read
  events or add watches returns (it does not panic), to a state of the same kind.\<close>

theorem api_states_sound:
  assumes reach: "api_state os alloc s"
  shows "(\<forall>wd n. watch_from_wd s wd = Some n \<longrightarrow> (\<exists>w. watches s n = Some w \<and> w_wd w = wd)) \<and>
    (\<forall>f n. watch_from_filename s f = Some n \<longrightarrow> (\<exists>w. watches s n = Some w \<and> w_filename w = f)) \<and>
    (\<forall>k n. watch_from_fid s k = Some n \<longrightarrow>
       (\<exists>w f. watches s n = Some w \<and> w_fid w = Some f \<and> FidKey_new f = FidKey_new k)) \<and>
    (\<forall>c. \<not> may_hang c \<longrightarrow> (\<exists>t. api_exec os alloc fuel c s = Some t \<and> api_state os alloc t))"
proof (intro conjI allI impI)
  have ok: "lib_ok s" by (rule api_state_ok [OF reach])
  then have inv: "table_inv s" by (simp add: lib_ok_def)
  show "\<exists>w. watches s n = Some w \<and> w_wd w = wd" if "watch_from_wd s wd = Some n" for wd n
    using watch_from_wd_found [OF inv that] by blast
  show "\<exists>w. watches s n = Some w \<and> w_filename w = f" if "watch_from_filename s f = Some n" for f n
    using watch_from_filename_found [OF inv that] by blast
  show "\<exists>w f. watches s n = Some w \<and> w_fid w = Some f \<and> FidKey_new f = FidKey_new k"
    if "watch_from_fid s k = Some n" for k n
    using watch_from_fid_found [OF inv that] by blast
  show "\<exists>t. api_exec os alloc fuel c s = Some t \<and> api_state os alloc t" if "\<not> may_hang c" for c
    using api_exec_returns [OF ok that, of os alloc fuel] api_call [OF reach] by blast
qed

theorem api_states_sound_witness:
  "\<exists>t. api_exec quiet_os (\<lambda>_. True) 1 (Printf None (Some ''%w'')) (machine_new ()) = Some t \<and>
    api_state quiet_os (\<lambda>_. True) t"
proof -
  have "api_state quiet_os (\<lambda>_. True) (machine_new ())" by (rule api_new)
  from api_states_sound [OF this, of 1] have
    "\<forall>c. \<not> may_hang c \<longrightarrow> (\<exists>t. api_exec quiet_os (\<lambda>_. True) 1 c (machine_new ()) = Some t \<and>
      api_state quiet_os (\<lambda>_. True) t)"
    by (elim conjE)
  then show ?thesis by (elim allE [of _ "Printf None (Some ''%w'')"]) simp
qed

end
